(* ===== verification/Prelude.thy ===== *)
theory Prelude
  imports Main "HOL-Library.Sublist"
begin

text \<open>
  Shared vocabulary of the development: Go byte strings as char lists, the ASCII helpers the
  package inlines everywhere (case folding, blank trimming), the fixed-width integers of Go with
  their wrap-around written out, decimal and hexadecimal conversion as in Go's strconv, slices
  written through copy, and the generic list lemmas the component theories rest on.
  The collection \<open>go_simps\<close> gathers the rewrite rules that compute with bytes.
\<close>

named_theorems go_simps \<open>rewrite rules that evaluate byte-level operations\<close>

section \<open>Bytes\<close>

text \<open>Go strings and byte slices are sequences of 8-bit values: both are char lists here.\<close>

type_synonym byte = char
type_synonym bytes = "char list"

abbreviation CR :: byte where "CR \<equiv> CHR 0x0D"
abbreviation LF :: byte where "LF \<equiv> CHR 0x0A"
abbreviation HT :: byte where "HT \<equiv> CHR 0x09"
abbreviation SP :: byte where "SP \<equiv> CHR 0x20"
abbreviation NUL :: byte where "NUL \<equiv> CHR 0x00"
abbreviation CRLF :: bytes where "CRLF \<equiv> [CR, LF]"

text \<open>The numeric value of a byte, and the byte of a number modulo 256 (Go's conversion).\<close>

abbreviation bval :: "byte \<Rightarrow> nat" where "bval c \<equiv> of_char c"

definition byte_of :: "nat \<Rightarrow> byte" where
  "byte_of n = char_of n"

lemma bval_less [simp]: "bval c < 256"
  by simp

lemma bval_byte_of [simp]: "bval (byte_of n) = n mod 256"
  by (simp add: byte_of_def)

lemma byte_of_bval [simp]: "byte_of (bval c) = c"
  by (simp add: byte_of_def)

lemma bval_inject: "bval a = bval b \<longleftrightarrow> a = b"
  by (metis byte_of_bval)

text \<open>The loop body \<open>if ch >= 'A' && ch <= 'Z' { ch += 32 }\<close> of the package.\<close>

definition lower :: "byte \<Rightarrow> byte" where
  "lower c = (if 65 \<le> bval c \<and> bval c \<le> 90 then byte_of (bval c + 32) else c)"

lemma lower_idem [simp]: "lower (lower c) = lower c"
  by (auto simp: lower_def)

lemma of_char_Char:
  "bval (Char b0 b1 b2 b3 b4 b5 b6 b7) =
     of_bool b0 + 2 * of_bool b1 + 4 * of_bool b2 + 8 * of_bool b3 +
     16 * of_bool b4 + 32 * of_bool b5 + 64 * of_bool b6 + 128 * of_bool b7"
  by (cases b0; cases b1; cases b2; cases b3; cases b4; cases b5; cases b6; cases b7) simp_all

lemma lower_Char [go_simps]:
  "lower (Char b0 b1 b2 b3 b4 b5 b6 b7) =
     Char b0 b1 b2 b3 b4
       (b5 \<or> (b6 \<and> \<not> b7 \<and> (b0 \<or> b1 \<or> b2 \<or> b3 \<or> b4) \<and>
              \<not> (b4 \<and> b3 \<and> (b2 \<or> b1 \<and> b0)))) b6 b7"
proof -
  let ?c = "Char b0 b1 b2 b3 b4 b5 b6 b7"
  let ?d = "Char b0 b1 b2 b3 b4
       (b5 \<or> (b6 \<and> \<not> b7 \<and> (b0 \<or> b1 \<or> b2 \<or> b3 \<or> b4) \<and>
              \<not> (b4 \<and> b3 \<and> (b2 \<or> b1 \<and> b0)))) b6 b7"
  have "bval (lower ?c) = bval ?d"
    unfolding lower_def of_char_Char
    by (cases b0; cases b1; cases b2; cases b3; cases b4; cases b5; cases b6; cases b7) simp_all
  then show ?thesis by (simp only: bval_inject)
qed

text \<open>Case-insensitive equality of byte strings over ASCII letters.\<close>

definition fold_eq :: "bytes \<Rightarrow> bytes \<Rightarrow> bool" where
  "fold_eq a b \<longleftrightarrow> map lower a = map lower b"

lemma fold_eq_refl [simp]: "fold_eq a a"
  by (simp add: fold_eq_def)

lemma fold_eq_sym: "fold_eq a b \<longleftrightarrow> fold_eq b a"
  by (auto simp: fold_eq_def)

lemma fold_eq_trans: "fold_eq a b \<Longrightarrow> fold_eq b c \<Longrightarrow> fold_eq a c"
  by (simp add: fold_eq_def)

text \<open>The result of code that may panic: a failed slice expression, an index out of range, a division by zero.\<close>

datatype 'a outcome = Done 'a | Panic

section \<open>Fixed-width integers\<close>

text \<open>Go's int and int64 are 64-bit two's complement on the platforms the package targets.\<close>

definition i64 :: "int \<Rightarrow> int" where
  "i64 x = (x + 2 ^ 63) mod 2 ^ 64 - 2 ^ 63"

definition i32 :: "int \<Rightarrow> int" where
  "i32 x = (x + 2 ^ 31) mod 2 ^ 32 - 2 ^ 31"

definition u32 :: "int \<Rightarrow> nat" where
  "u32 x = nat (x mod 2 ^ 32)"

lemma i64_id: "- (2 ^ 63) \<le> x \<Longrightarrow> x < 2 ^ 63 \<Longrightarrow> i64 x = x"
  by (simp add: i64_def)

lemma i64_range: "- (2 ^ 63) \<le> i64 x \<and> i64 x < 2 ^ 63"
proof -
  have "0 \<le> (x + 2 ^ 63) mod 2 ^ 64" "(x + 2 ^ 63) mod 2 ^ 64 < (2 :: int) ^ 64"
    by (simp_all add: pos_mod_sign pos_mod_bound)
  then show ?thesis by (simp add: i64_def)
qed

lemma i32_id: "- (2 ^ 31) \<le> x \<Longrightarrow> x < 2 ^ 31 \<Longrightarrow> i32 x = x"
  by (simp add: i32_def)

lemma i32_range: "- (2 ^ 31) \<le> i32 x \<and> i32 x < 2 ^ 31"
proof -
  have "0 \<le> (x + 2 ^ 31) mod 2 ^ 32" "(x + 2 ^ 31) mod 2 ^ 32 < (2 :: int) ^ 32"
    by (simp_all add: pos_mod_sign pos_mod_bound)
  then show ?thesis by (simp add: i32_def)
qed

lemma u32_less: "u32 x < 2 ^ 32"
  by (simp add: u32_def nat_less_iff)

text \<open>Go's \<open>/\<close> and \<open>%\<close> truncate towards zero.\<close>

definition quot :: "int \<Rightarrow> int \<Rightarrow> int" where
  "quot a b = sgn a * sgn b * (\<bar>a\<bar> div \<bar>b\<bar>)"

lemma quot_nonneg: "0 \<le> a \<Longrightarrow> 0 < b \<Longrightarrow> quot a b = a div b"
  by (cases "a = 0") (simp_all add: quot_def)

section \<open>Decimal and hexadecimal numbers\<close>

text \<open>\<open>digit n\<close> is the byte \<open>'0' + n\<close>; \<open>itoa\<close> is strconv.Itoa on numbers that are not negative.\<close>

definition digit :: "nat \<Rightarrow> byte" where
  "digit n = byte_of (48 + n)"

fun itoa :: "nat \<Rightarrow> bytes" where
  "itoa n = (if n < 10 then [digit n] else itoa (n div 10) @ [digit (n mod 10)])"

declare itoa.simps [simp del]

definition Itoa :: "int \<Rightarrow> bytes" where
  "Itoa n = (if n < 0 then CHR ''-'' # itoa (nat (- n)) else itoa (nat n))"

definition is_digit :: "byte \<Rightarrow> bool" where
  "is_digit c \<longleftrightarrow> 48 \<le> bval c \<and> bval c \<le> 57"

lemma bval_digit: "n < 10 \<Longrightarrow> bval (digit n) = 48 + n"
  by (simp add: digit_def)

lemma is_digit_digit [simp]: "n < 10 \<Longrightarrow> is_digit (digit n)"
  by (simp add: is_digit_def bval_digit)

lemma itoa_digits: "\<forall>c \<in> set (itoa n). is_digit c"
proof (induction n rule: itoa.induct)
  case (1 n)
  then show ?case by (subst itoa.simps) auto
qed

lemma itoa_not_Nil [simp]: "itoa n \<noteq> []"
  by (subst itoa.simps) simp

text \<open>The value of a digit string in Horner form, the loop \<open>v = v*10 + int(ch-'0')\<close>.\<close>

definition horner :: "nat \<Rightarrow> bytes \<Rightarrow> nat" where
  "horner v cs = foldl (\<lambda>v c. v * 10 + (bval c - 48)) v cs"

lemma horner_simps [simp]:
  "horner v [] = v"
  "horner v (c # cs) = horner (v * 10 + (bval c - 48)) cs"
  "horner v (xs @ ys) = horner (horner v xs) ys"
  by (simp_all add: horner_def)

lemma horner_itoa [simp]: "horner 0 (itoa n) = n"
proof (induction n rule: itoa.induct)
  case (1 n)
  then show ?case by (subst itoa.simps) (simp add: bval_digit)
qed

lemma itoa_inject: "itoa m = itoa n \<longleftrightarrow> m = n"
  by (metis horner_itoa)

text \<open>
  \<open>strconv.ParseInt(s, base, 64)\<close> for the bases 10 and 16 the package uses: an optional sign,
  at least one digit, nothing else, and a range check (None is either error).
\<close>

definition hexval :: "byte \<Rightarrow> nat option" where
  "hexval c = (if is_digit c then Some (bval c - 48)
     else if 97 \<le> bval (lower c) \<and> bval (lower c) \<le> 122 then Some (bval (lower c) - 87) else None)"

fun digits_val :: "nat \<Rightarrow> nat \<Rightarrow> bytes \<Rightarrow> nat option" where
  "digits_val base v [] = Some v"
| "digits_val base v (c # cs) =
     (case hexval c of
        None \<Rightarrow> None
      | Some d \<Rightarrow> if d < base then digits_val base (v * base + d) cs else None)"

definition parse_uint :: "nat \<Rightarrow> bytes \<Rightarrow> nat option" where
  "parse_uint base s = (if s = [] then None else digits_val base 0 s)"

definition ParseInt :: "nat \<Rightarrow> bytes \<Rightarrow> int option" where
  "ParseInt base s =
     (case s of
        [] \<Rightarrow> None
      | c # cs \<Rightarrow>
          (if c = CHR ''-'' then
             (case parse_uint base cs of
                None \<Rightarrow> None | Some v \<Rightarrow> if int v \<le> 2 ^ 63 then Some (- int v) else None)
           else
             (case parse_uint base (if c = CHR ''+'' then cs else s) of
                None \<Rightarrow> None | Some v \<Rightarrow> if int v < 2 ^ 63 then Some (int v) else None)))"

abbreviation Atoi :: "bytes \<Rightarrow> int option" where
  "Atoi \<equiv> ParseInt 10"

lemma hexval_digit: "is_digit c \<Longrightarrow> hexval c = Some (bval c - 48)"
  by (simp add: hexval_def)

lemma digits_val_horner:
  "\<forall>c \<in> set cs. is_digit c \<Longrightarrow> digits_val 10 v cs = Some (horner v cs)"
proof (induction cs arbitrary: v)
  case Nil
  then show ?case by simp
next
  case (Cons c cs)
  then have "hexval c = Some (bval c - 48)" "bval c - 48 < 10"
    by (auto simp: hexval_digit is_digit_def)
  with Cons show ?case by simp
qed

lemma is_digit_no_sign: "is_digit c \<Longrightarrow> c \<noteq> CHR ''-'' \<and> c \<noteq> CHR ''+''"
  by (auto simp: is_digit_def of_char_Char)

lemma Atoi_itoa: "n < 2 ^ 63 \<Longrightarrow> Atoi (itoa n) = Some (int n)"
proof -
  assume n: "n < 2 ^ 63"
  obtain c cs where s: "itoa n = c # cs"
    by (cases "itoa n") simp_all
  have c: "is_digit c" and ds: "\<forall>c \<in> set (itoa n). is_digit c"
    using itoa_digits [of n] s by auto
  have "parse_uint 10 (itoa n) = Some n"
    using digits_val_horner [OF ds, of 0] by (simp add: parse_uint_def)
  then show ?thesis
    using is_digit_no_sign [OF c] s n by (simp add: ParseInt_def)
qed

section \<open>Blank trimming\<close>

text \<open>
  The two loops \<open>for s < e && (b[s] == ' ' || b[s] == '\t') { s++ }\<close> and its mirror image
  cut the blanks off both ends of a slice.
\<close>

definition is_blank :: "byte \<Rightarrow> bool" where
  "is_blank c \<longleftrightarrow> c = SP \<or> c = HT"

definition trim_left :: "bytes \<Rightarrow> bytes" where
  "trim_left s = dropWhile is_blank s"

definition trim_right :: "bytes \<Rightarrow> bytes" where
  "trim_right s = rev (dropWhile is_blank (rev s))"

definition trim :: "bytes \<Rightarrow> bytes" where
  "trim s = trim_right (trim_left s)"

text \<open>A string with no blank at either end (the empty string included).\<close>

definition trimmed :: "bytes \<Rightarrow> bool" where
  "trimmed s \<longleftrightarrow> s = [] \<or> \<not> is_blank (hd s) \<and> \<not> is_blank (last s)"

lemma trim_trimmed: "trimmed s \<Longrightarrow> trim s = s"
proof (cases s)
  case (Cons a s')
  assume "trimmed s"
  then have h: "\<not> is_blank a" and l: "\<not> is_blank (last s)"
    using Cons by (auto simp: trimmed_def)
  then have t: "trim_left s = s"
    using Cons by (simp add: trim_left_def)
  obtain b r where r: "rev s = b # r"
    using Cons by (cases "rev s") auto
  then have "b = last s"
    by (metis last_snoc rev_rev_ident rev.simps(2))
  then have "dropWhile is_blank (rev s) = rev s"
    unfolding r using l by simp
  then have "trim_right s = s"
    by (simp add: trim_right_def)
  with t show ?thesis by (simp add: trim_def)
qed (simp add: trim_def trim_left_def trim_right_def)

lemma trim_Nil [simp]: "trim [] = []"
  by (simp add: trim_def trim_left_def trim_right_def)

lemma trim_left_blank [simp]: "is_blank c \<Longrightarrow> trim_left (c # s) = trim_left s"
  by (simp add: trim_left_def)

lemma trim_blank_Cons: "is_blank c \<Longrightarrow> trim (c # s) = trim s"
  by (simp add: trim_def)

lemma trim_subset: "set (trim s) \<subseteq> set s"
proof -
  have "set (trim_right t) \<subseteq> set t" for t
    using set_dropWhileD [of _ is_blank "rev t"] by (auto simp: trim_right_def)
  moreover have "set (trim_left s) \<subseteq> set s"
    using set_dropWhileD [of _ is_blank s] by (auto simp: trim_left_def)
  ultimately show ?thesis by (force simp: trim_def)
qed

lemma is_blank_SP [simp]: "is_blank SP" "is_blank HT"
  by (simp_all add: is_blank_def)

section \<open>Slices written through copy\<close>

text \<open>
  \<open>copy(buf[off:], src)\<close> for \<open>off \<le> len(buf)\<close>: it writes \<open>min(len(buf)-off, len(src))\<close> bytes and
  keeps the rest of the array.
\<close>

definition blit :: "bytes \<Rightarrow> nat \<Rightarrow> bytes \<Rightarrow> bytes" where
  "blit buf off src = take off buf @ take (length buf - off) src @ drop (off + length src) buf"

lemma length_blit [simp]: "off \<le> length buf \<Longrightarrow> length (blit buf off src) = length buf"
  by (simp add: blit_def)

lemma take_blit [simp]:
  "off + length src \<le> length buf \<Longrightarrow> take (off + length src) (blit buf off src) = take off buf @ src"
  by (simp add: blit_def)

lemma take_blit_before:
  "n \<le> off \<Longrightarrow> off \<le> length buf \<Longrightarrow> take n (blit buf off src) = take n buf"
  by (simp add: blit_def min_def)

lemma blit_Nil [simp]: "off \<le> length buf \<Longrightarrow> blit buf off [] = buf"
  by (simp add: blit_def)

lemma blit_blit:
  assumes "off + length a + length b \<le> length buf"
  shows "blit (blit buf off a) (off + length a) b = blit buf off (a @ b)"
  using assms by (simp add: blit_def add.commute add.left_commute)

text \<open>Go's \<open>make([]byte, n)\<close>.\<close>

definition zeros :: "nat \<Rightarrow> bytes" where
  "zeros n = replicate n NUL"

lemma length_zeros [simp]: "length (zeros n) = n"
  by (simp add: zeros_def)

section \<open>Generic list facts\<close>

lemma takeWhile_append_stop:
  "\<forall>x \<in> set xs. P x \<Longrightarrow> \<not> P y \<Longrightarrow> takeWhile P (xs @ y # ys) = xs"
  by (induction xs) auto

lemma dropWhile_append_stop:
  "\<forall>x \<in> set xs. P x \<Longrightarrow> \<not> P y \<Longrightarrow> dropWhile P (xs @ y # ys) = y # ys"
  by (induction xs) auto

lemma takeWhile_drop: "i \<le> length (takeWhile P s) \<Longrightarrow> takeWhile P (drop i s) = drop i (takeWhile P s)"
proof (induction s arbitrary: i)
  case (Cons a s)
  then show ?case by (cases i) auto
qed simp

lemma take_append_exact [simp]: "n = length xs \<Longrightarrow> take n (xs @ ys) = xs"
  by simp

text \<open>
  The first position at which a pattern occurs in a byte string: the reference for the search
  loops of the parser.
\<close>

fun first_occ :: "bytes \<Rightarrow> bytes \<Rightarrow> nat option" where
  "first_occ pat [] = (if pat = [] then Some 0 else None)"
| "first_occ pat (c # cs) =
     (if prefix pat (c # cs) then Some 0 else map_option Suc (first_occ pat cs))"

declare first_occ.simps(2) [simp del]

lemma first_occ_hit: "prefix pat (c # cs) \<Longrightarrow> first_occ pat (c # cs) = Some 0"
  by (simp add: first_occ.simps)

lemma first_occ_miss:
  "\<not> prefix pat (c # cs) \<Longrightarrow> first_occ pat (c # cs) = map_option Suc (first_occ pat cs)"
  by (simp add: first_occ.simps)

lemma first_occ_Some:
  "first_occ pat s = Some i \<longleftrightarrow>
     i \<le> length s \<and> prefix pat (drop i s) \<and> (\<forall>j < i. \<not> prefix pat (drop j s))"
proof (induction s arbitrary: i)
  case Nil
  show ?case by auto
next
  case (Cons c s)
  show ?case
  proof (cases "prefix pat (c # s)")
    case True
    then show ?thesis by (auto simp: first_occ_hit intro: gr0I)
  next
    case False
    have "first_occ pat (c # s) = Some i \<longleftrightarrow> (\<exists>k. i = Suc k \<and> first_occ pat s = Some k)"
      using False by (auto simp: first_occ_miss)
    also have "\<dots> \<longleftrightarrow> i \<le> length (c # s) \<and> prefix pat (drop i (c # s)) \<and>
        (\<forall>j < i. \<not> prefix pat (drop j (c # s)))"
      using False by (cases i) (auto simp: Cons.IH less_Suc_eq_0_disj)
    finally show ?thesis .
  qed
qed

lemma first_occ_None:
  "first_occ pat s = None \<longleftrightarrow> (\<forall>i \<le> length s. \<not> prefix pat (drop i s))"
proof (induction s)
  case (Cons c s)
  show ?case
    using Cons by (auto simp: first_occ.simps All_less_Suc2 le_Suc_eq less_Suc_eq_le [symmetric])
qed auto

section \<open>White space\<close>

text \<open>
  strings.TrimSpace: the ASCII spaces and the encodings of the other code points unicode.IsSpace
  accepts (U+0085, U+00A0, U+1680, U+2000 to U+200A, U+2028, U+2029, U+202F, U+205F, U+3000).
\<close>

definition unicode_spaces :: "bytes list" where
  "unicode_spaces = map (map byte_of)
     ([[9], [10], [11], [12], [13], [32], [194, 133], [194, 160], [225, 154, 128]]
      @ map (\<lambda>n. [226, 128, n]) [128, 129, 130, 131, 132, 133, 134, 135, 136, 137, 138, 168, 169, 175]
      @ [[226, 129, 159], [227, 128, 128]])"

definition space_prefix :: "bytes \<Rightarrow> nat" where
  "space_prefix s = (case find (\<lambda>p. prefix p s) unicode_spaces of Some p \<Rightarrow> length p | None \<Rightarrow> 0)"

definition space_suffix :: "bytes \<Rightarrow> nat" where
  "space_suffix s = (case find (\<lambda>p. suffix p s) unicode_spaces of Some p \<Rightarrow> length p | None \<Rightarrow> 0)"

function TrimLeftSpace :: "bytes \<Rightarrow> bytes" where
  "TrimLeftSpace s = (if s = [] \<or> space_prefix s = 0 then s else TrimLeftSpace (drop (space_prefix s) s))"
  by pat_completeness auto
termination
  by (relation "measure length") auto

function TrimRightSpace :: "bytes \<Rightarrow> bytes" where
  "TrimRightSpace s =
     (if s = [] \<or> space_suffix s = 0 then s else TrimRightSpace (take (length s - space_suffix s) s))"
  by pat_completeness auto
termination
  by (relation "measure length") auto

declare TrimLeftSpace.simps [simp del] TrimRightSpace.simps [simp del]

definition TrimSpace :: "bytes \<Rightarrow> bytes" where
  "TrimSpace s = TrimRightSpace (TrimLeftSpace s)"

definition is_space_edge :: "byte \<Rightarrow> bool" where
  "is_space_edge c \<longleftrightarrow> c \<in> set (map hd unicode_spaces) \<or> c \<in> set (map last unicode_spaces)"

lemma unicode_spaces_not_Nil: "p \<in> set unicode_spaces \<Longrightarrow> p \<noteq> []"
  by (auto simp: unicode_spaces_def)

text \<open>Nothing is cut off a string whose first and last bytes cannot belong to a white-space character.\<close>

lemma TrimSpace_id:
  assumes "s = [] \<or> (\<not> is_space_edge (hd s) \<and> \<not> is_space_edge (last s))"
  shows "TrimSpace s = s"
proof (cases "s = []")
  case False
  have "\<not> prefix p s" "\<not> suffix p s" if p: "p \<in> set unicode_spaces" for p
  proof -
    have n: "p \<noteq> []" using p by (rule unicode_spaces_not_Nil)
    have "hd s \<noteq> hd p" "last s \<noteq> last p" using assms False p by (auto simp: is_space_edge_def)
    then show "\<not> prefix p s" "\<not> suffix p s" using n by (auto simp: prefix_def suffix_def)
  qed
  then have "find (\<lambda>p. prefix p s) unicode_spaces = None" "find (\<lambda>p. suffix p s) unicode_spaces = None"
    by (simp_all add: find_None_iff)
  then have "space_prefix s = 0" "space_suffix s = 0" by (simp_all add: space_prefix_def space_suffix_def)
  then show ?thesis by (simp add: TrimSpace_def TrimLeftSpace.simps TrimRightSpace.simps)
qed (simp add: TrimSpace_def TrimLeftSpace.simps TrimRightSpace.simps)

lemma byte_of_eq_iff: "n < 256 \<Longrightarrow> c = byte_of n \<longleftrightarrow> bval c = n"
  by (metis bval_byte_of byte_of_bval mod_less)

lemma digit_not_edge: "is_digit c \<Longrightarrow> \<not> is_space_edge c"
  by (auto simp: is_space_edge_def unicode_spaces_def byte_of_eq_iff is_digit_def)

lemma TrimSpace_itoa [simp]: "TrimSpace (itoa n) = itoa n"
  using itoa_digits [of n] by (intro TrimSpace_id) (auto simp: digit_not_edge)

lemma i64_wraps: "2 ^ 63 \<le> x \<Longrightarrow> x < 2 ^ 64 \<Longrightarrow> i64 x < 0"
proof -
  assume x: "2 ^ 63 \<le> x" "x < 2 ^ 64"
  have "(x + 2 ^ 63) mod 2 ^ 64 = (x - 2 ^ 63 + 2 ^ 64) mod 2 ^ 64" by (simp add: add.commute)
  also have "\<dots> = (x - 2 ^ 63) mod 2 ^ 64" by (rule mod_add_self2)
  also have "\<dots> = x - 2 ^ 63" using x by (intro mod_pos_pos_trivial) simp_all
  finally show ?thesis using x by (simp add: i64_def)
qed

end
