(* ===== verification/Errors.thy ===== *)
theory Errors
  imports Prelude
begin

text \<open>
  The error values of \<^verbatim>\<open>errors.go\<close>: the sentinel errors of the package and of the standard
  library functions it calls, the \<open>DetailedError\<close> wrapper with its \<open>Unwrap\<close> chain, and the two
  classifiers \<open>IsTimeout\<close> and \<open>IsRetryable\<close> the retry logic is driven by.
  A nil error is \<open>None\<close>. The \<open>Context\<close> map of a DetailedError is only printed by the logger and
  is not kept.
\<close>

datatype ErrorType =
    ErrorTypeNetwork | ErrorTypeTimeout | ErrorTypeProtocol | ErrorTypeTLS
  | ErrorTypeProxy | ErrorTypeValidation | ErrorTypeInternal

text \<open>
  Sentinels are compared by identity in Go, so each is a constructor. \<open>NetError\<close> stands for the
  errors of package net that implement the interface net.Error: the flag is the result of their
  Timeout method and the string their text. \<open>PlainError\<close> is any other error of a library.
\<close>

datatype goerror =
    ErrConnectFailed | ErrWriteFailed | ErrReadFailed | ErrHeaderTooLarge | ErrInvalidResponse
  | ErrResponseTooLarge | ErrRequestTooLarge | ErrHeaderBufferSmall | ErrTimeout
  | ErrConnectionClosed | ErrProxyFailed | ErrInvalidURL | ErrInvalidRequest
  | errRespTransferred | errSOCKS5AuthFailed | errSOCKS5ConnRefused | errSOCKS5Unsupported
  | EOF | UnexpectedEOF | NoProgress | DeadlineExceeded | Canceled
  | NetError bool bytes
  | PlainError bytes
  | DetailedError ErrorType bytes "goerror option"

text \<open>The string constants of type ErrorType.\<close>

fun ErrorType_string :: "ErrorType \<Rightarrow> bytes" where
  "ErrorType_string ErrorTypeNetwork = ''network''"
| "ErrorType_string ErrorTypeTimeout = ''timeout''"
| "ErrorType_string ErrorTypeProtocol = ''protocol''"
| "ErrorType_string ErrorTypeTLS = ''tls''"
| "ErrorType_string ErrorTypeProxy = ''proxy''"
| "ErrorType_string ErrorTypeValidation = ''validation''"
| "ErrorType_string ErrorTypeInternal = ''internal''"

fun Error :: "goerror \<Rightarrow> bytes" where
  "Error ErrConnectFailed = ''connect failed''"
| "Error ErrWriteFailed = ''write failed''"
| "Error ErrReadFailed = ''read failed''"
| "Error ErrHeaderTooLarge = ''response header too large''"
| "Error ErrInvalidResponse = ''invalid response''"
| "Error ErrResponseTooLarge = ''response too large''"
| "Error ErrRequestTooLarge = ''request body too large''"
| "Error ErrHeaderBufferSmall = ''header buffer too small''"
| "Error ErrTimeout = ''operation timeout''"
| "Error ErrConnectionClosed = ''connection closed''"
| "Error ErrProxyFailed = ''proxy connection failed''"
| "Error ErrInvalidURL = ''invalid URL''"
| "Error ErrInvalidRequest = ''invalid request''"
| "Error errRespTransferred = ''internal: resp ownership transferred to pipeline reader''"
| "Error errSOCKS5AuthFailed = ''SOCKS5 authentication failed''"
| "Error errSOCKS5ConnRefused = ''SOCKS5 connection refused''"
| "Error errSOCKS5Unsupported = ''SOCKS5 unsupported address type''"
| "Error EOF = ''EOF''"
| "Error UnexpectedEOF = ''unexpected EOF''"
| "Error NoProgress = ''multiple Read calls return no data or error''"
| "Error DeadlineExceeded = ''context deadline exceeded''"
| "Error Canceled = ''context canceled''"
| "Error (NetError _ m) = m"
| "Error (PlainError m) = m"
| "Error (DetailedError t m (Some e)) = ''['' @ ErrorType_string t @ ''] '' @ m @ '': '' @ Error e"
| "Error (DetailedError t m None) = ''['' @ ErrorType_string t @ ''] '' @ m"

fun Unwrap :: "goerror \<Rightarrow> goerror option" where
  "Unwrap (DetailedError _ _ e) = e"
| "Unwrap _ = None"

definition WrapError :: "ErrorType \<Rightarrow> bytes \<Rightarrow> goerror \<Rightarrow> goerror" where
  "WrapError errType message err = DetailedError errType message (Some err)"

text \<open>LogErrorWithFlag builds the same value; writing the log line is not modelled.\<close>

definition LogErrorWithFlag :: "ErrorType \<Rightarrow> bytes \<Rightarrow> goerror \<Rightarrow> goerror" where
  "LogErrorWithFlag errType message err = DetailedError errType message (Some err)"

section \<open>Walking the chain\<close>

text \<open>errors.Is with a sentinel as target, and the two uses of errors.As.\<close>

fun errors_Is :: "goerror \<Rightarrow> goerror \<Rightarrow> bool" where
  "errors_Is (DetailedError t m (Some e)) x = (DetailedError t m (Some e) = x \<or> errors_Is e x)"
| "errors_Is e x = (e = x)"

fun errors_As_detailed :: "goerror \<Rightarrow> ErrorType option" where
  "errors_As_detailed (DetailedError t _ _) = Some t"
| "errors_As_detailed _ = None"

fun errors_As_net :: "goerror \<Rightarrow> bool option" where
  "errors_As_net (NetError b _) = Some b"
| "errors_As_net DeadlineExceeded = Some True"
| "errors_As_net (DetailedError _ _ (Some e)) = errors_As_net e"
| "errors_As_net _ = None"

definition IsTimeout :: "goerror option \<Rightarrow> bool" where
  "IsTimeout err =
     (case err of
        None \<Rightarrow> False
      | Some e \<Rightarrow>
          if errors_Is e ErrTimeout \<or> errors_Is e DeadlineExceeded then True
          else if errors_As_detailed e = Some ErrorTypeTimeout then True
          else if errors_As_net e = Some True then True
          else False)"

definition IsRetryable :: "goerror option \<Rightarrow> bool" where
  "IsRetryable err =
     (case err of
        None \<Rightarrow> False
      | Some e \<Rightarrow>
          if errors_Is e ErrConnectFailed \<or> errors_Is e ErrWriteFailed \<or>
             errors_Is e ErrReadFailed \<or> errors_Is e ErrConnectionClosed \<or>
             errors_Is e ErrTimeout then True
          else
            (case errors_As_detailed e of
               Some t \<Rightarrow> t = ErrorTypeNetwork \<or> t = ErrorTypeTimeout
             | None \<Rightarrow> False))"

section \<open>The root of a chain decides\<close>

text \<open>The innermost error of an Unwrap chain.\<close>

fun root :: "goerror \<Rightarrow> goerror" where
  "root (DetailedError t m (Some e)) = root e"
| "root e = e"

text \<open>The sentinels that mark a failure worth another attempt.\<close>

definition transient :: "goerror \<Rightarrow> bool" where
  "transient e \<longleftrightarrow> e \<in> {ErrConnectFailed, ErrWriteFailed, ErrReadFailed, ErrConnectionClosed, ErrTimeout}"

fun is_detailed :: "goerror \<Rightarrow> bool" where
  "is_detailed (DetailedError _ _ _) = True"
| "is_detailed _ = False"

lemma errors_Is_root: "\<not> is_detailed x \<Longrightarrow> errors_Is e x \<longleftrightarrow> root e = x"
  by (induction e x rule: errors_Is.induct) auto

lemma errors_As_net_root: "errors_As_net e = errors_As_net (root e)"
  by (induction e rule: root.induct) auto

lemma root_not_wrapped: "root e = DetailedError t m x \<Longrightarrow> x = None"
  by (induction e rule: root.induct) auto

lemma root_WrapError [simp]: "root (WrapError t m e) = root e"
  by (simp add: WrapError_def)

lemma IsRetryable_WrapError [simp]:
  "IsRetryable (Some (WrapError t m e)) \<longleftrightarrow>
     transient (root e) \<or> t = ErrorTypeNetwork \<or> t = ErrorTypeTimeout"
  by (auto simp: IsRetryable_def WrapError_def errors_Is_root transient_def)

lemma IsTimeout_WrapError [simp]:
  "IsTimeout (Some (WrapError t m e)) \<longleftrightarrow>
     t = ErrorTypeTimeout \<or> root e = ErrTimeout \<or> errors_As_net (root e) = Some True"
  by (auto simp: IsTimeout_def WrapError_def errors_Is_root errors_As_net_root [of e])

lemma IsRetryable_iff:
  "IsRetryable (Some e) \<longleftrightarrow>
     transient (root e) \<or> errors_As_detailed e \<in> {Some ErrorTypeNetwork, Some ErrorTypeTimeout}"
  by (auto simp: IsRetryable_def errors_Is_root transient_def split: option.splits)

lemma IsTimeout_iff:
  "IsTimeout (Some e) \<longleftrightarrow>
     root e = ErrTimeout \<or> errors_As_net (root e) = Some True \<or>
     errors_As_detailed e = Some ErrorTypeTimeout"
  by (auto simp: IsTimeout_def errors_Is_root errors_As_net_root [of e])

end
