(* ===== verification/Response.thy ===== *)
theory Response
  imports Errors
begin

text \<open>
  \<^verbatim>\<open>response.go\<close>: the pooled Response object, its body buffer and how it grows, and the header
  accessors. The exported Body is a slice. All code of the package that sets it makes it a prefix of
  the object's own buffer, except the 100-continue path, which takes the slice of another object, and
  a buffer that is replaced while Body still points into the old array: \<open>OwnBuf n\<close> is
  \<open>bodyBuf[:n]\<close> of the present buffer, \<open>Other b\<close> a slice of some other array with contents \<open>b\<close>.
\<close>

record Header =
  Key :: bytes
  Value :: bytes

datatype body_slice = OwnBuf nat | Other bytes

record Response =
  StatusCode :: int
  ContentLength :: int
  Body :: body_slice
  Headers :: "Header list"
  bodyBuf :: bytes
  maxSize :: int
  rawHeaderBuf :: bytes

definition Body_bytes :: "Response \<Rightarrow> bytes" where
  "Body_bytes r = (case Body r of OwnBuf n \<Rightarrow> take n (bodyBuf r) | Other b \<Rightarrow> b)"

definition initialResponseBufferSize :: nat where
  "initialResponseBufferSize = 64 * 1024"

definition responsePool_New :: Response where
  "responsePool_New = \<lparr>StatusCode = 0, ContentLength = 0, Body = OwnBuf 0, Headers = [],
     bodyBuf = zeros initialResponseBufferSize, maxSize = 0, rawHeaderBuf = []\<rparr>"

definition Response_Reset :: "Response \<Rightarrow> Response" where
  "Response_Reset r = r\<lparr>StatusCode := 0, ContentLength := 0, Body := OwnBuf 0, Headers := [],
     maxSize := 0, rawHeaderBuf := []\<rparr>"

text \<open>The argument is the object sync.Pool.Get returned: any object released before, or a new one.\<close>

definition AcquireResponse :: "Response \<Rightarrow> Response" where
  "AcquireResponse pooled = Response_Reset pooled"

text \<open>Replacing the array: a Body that was a prefix of the old one keeps the old contents.\<close>

definition new_bodyBuf :: "nat \<Rightarrow> Response \<Rightarrow> Response" where
  "new_bodyBuf n r = r\<lparr>bodyBuf := zeros n,
     Body := (case Body r of OwnBuf m \<Rightarrow> if m = 0 then OwnBuf 0 else Other (take m (bodyBuf r))
              | Other b \<Rightarrow> Other b)\<rparr>"

definition AcquireResponseWithMaxSize :: "Response \<Rightarrow> int \<Rightarrow> Response" where
  "AcquireResponseWithMaxSize pooled mx =
     (let resp = AcquireResponse pooled in
      if mx > 0 then
        (let r1 = resp\<lparr>maxSize := mx\<rparr>;
             r2 = (if length (bodyBuf r1) < initialResponseBufferSize
                   then new_bodyBuf initialResponseBufferSize r1 else r1)
         in if int (length (bodyBuf r2)) > mx \<and> mx \<ge> int initialResponseBufferSize
            then new_bodyBuf (nat mx) r2 else r2)
      else resp)"

text \<open>
  The growth policy the response and request buffers share: double, at least the required size,
  rounded up to 4096 below one megabyte and to 65536 from there.
\<close>

definition round_up :: "int \<Rightarrow> int \<Rightarrow> int" where
  "round_up n m = (if n mod m \<noteq> 0 then (n div m + 1) * m else n)"

definition grown_size :: "nat \<Rightarrow> int \<Rightarrow> int" where
  "grown_size len required =
     (let newSize = 2 * int len;
          newSize = (if newSize < required then required else newSize)
      in if newSize < 1024 * 1024 then round_up newSize 4096 else round_up newSize 65536)"

definition ensureBufferSize :: "Response \<Rightarrow> int \<Rightarrow> bool \<times> Response" where
  "ensureBufferSize r required =
     (if required \<le> int (length (bodyBuf r)) then (True, r)
      else if maxSize r > 0 \<and> required > maxSize r then (False, r)
      else
        (let newSize = grown_size (length (bodyBuf r)) required in
         if maxSize r > 0 \<and> newSize > maxSize r then
           (if maxSize r < required then (False, r) else (True, new_bodyBuf (nat (maxSize r)) r))
         else (True, new_bodyBuf (nat newSize) r)))"

text \<open>What ReleaseResponse puts back into the pool (None for a nil argument).\<close>

definition ReleaseResponse :: "Response option \<Rightarrow> Response option" where
  "ReleaseResponse resp =
     (case resp of
        None \<Rightarrow> None
      | Some r \<Rightarrow>
          (let r1 = (if length (bodyBuf r) > initialResponseBufferSize * 2
                     then new_bodyBuf initialResponseBufferSize r else r)
           in Some (if length (rawHeaderBuf r1) > 4096 then r1\<lparr>rawHeaderBuf := []\<rparr> else r1)))"

section \<open>Header access\<close>

fun fold_loop :: "bytes \<Rightarrow> bytes \<Rightarrow> bool" where
  "fold_loop (x # xs) (y # ys) = (if lower x \<noteq> lower y then False else fold_loop xs ys)"
| "fold_loop _ _ = True"

definition strEqualFoldASCII :: "bytes \<Rightarrow> bytes \<Rightarrow> bool" where
  "strEqualFoldASCII a b = (if length a \<noteq> length b then False else fold_loop a b)"

fun header_loop :: "bytes \<Rightarrow> Header list \<Rightarrow> bytes" where
  "header_loop key [] = []"
| "header_loop key (h # hs) = (if strEqualFoldASCII (Key h) key then Value h else header_loop key hs)"

definition Response_Header :: "Response \<Rightarrow> bytes \<Rightarrow> bytes" where
  "Response_Header r key = header_loop key (Headers r)"

fun has_header_loop :: "bytes \<Rightarrow> Header list \<Rightarrow> bool" where
  "has_header_loop key [] = False"
| "has_header_loop key (h # hs) = (if strEqualFoldASCII (Key h) key then True else has_header_loop key hs)"

definition HasHeader :: "Response \<Rightarrow> bytes \<Rightarrow> bool" where
  "HasHeader r key = has_header_loop key (Headers r)"

fun header_values_loop :: "bytes \<Rightarrow> Header list \<Rightarrow> bytes list \<Rightarrow> bytes list" where
  "header_values_loop key [] vals = vals"
| "header_values_loop key (h # hs) vals =
     header_values_loop key hs (if strEqualFoldASCII (Key h) key then vals @ [Value h] else vals)"

definition HeaderValues :: "Response \<Rightarrow> bytes \<Rightarrow> bytes list" where
  "HeaderValues r key = header_values_loop key (Headers r) []"

fun connection_close_loop :: "Header list \<Rightarrow> bool" where
  "connection_close_loop [] = False"
| "connection_close_loop (h # hs) =
     (if strEqualFoldASCII (Key h) ''Connection'' \<and> strEqualFoldASCII (Value h) ''close'' then True
      else connection_close_loop hs)"

definition isConnectionClose :: "Response \<Rightarrow> bool" where
  "isConnectionClose r = connection_close_loop (Headers r)"

section \<open>Facts about the buffer\<close>

lemma round_up_bounds: "0 < m \<Longrightarrow> n \<le> round_up n m \<and> round_up n m < n + m"
proof -
  assume m: "0 < m"
  define q s where "q = n div m" and "s = n mod m"
  have "q * m + s = n" unfolding q_def s_def by (rule div_mult_mod_eq)
  moreover have "0 \<le> s" "s < m" using m by (simp_all add: s_def)
  ultimately show ?thesis
    unfolding round_up_def distrib_right q_def [symmetric] s_def [symmetric] by auto
qed

lemma round_up_dvd: "0 < m \<Longrightarrow> m dvd round_up n m"
  by (auto simp: round_up_def mod_eq_0_iff_dvd)

lemma grown_size_bounds: "required \<le> grown_size len required" "2 * int len \<le> grown_size len required"
  using round_up_bounds [of 4096 required] round_up_bounds [of 65536 required]
    round_up_bounds [of 4096 "2 * int len"] round_up_bounds [of 65536 "2 * int len"]
  by (auto simp: grown_size_def Let_def)

lemma bodyBuf_new [simp]: "bodyBuf (new_bodyBuf n r) = zeros n"
  by (simp add: new_bodyBuf_def)

lemma new_bodyBuf_frame [simp]:
  "StatusCode (new_bodyBuf n r) = StatusCode r" "ContentLength (new_bodyBuf n r) = ContentLength r"
  "Headers (new_bodyBuf n r) = Headers r" "maxSize (new_bodyBuf n r) = maxSize r"
  "rawHeaderBuf (new_bodyBuf n r) = rawHeaderBuf r" "Body_bytes (new_bodyBuf n r) = Body_bytes r"
  by (auto simp: new_bodyBuf_def Body_bytes_def split: body_slice.splits)

text \<open>Everything a caller may rely on: the result flag, the size, and what stays.\<close>

lemma ensureBufferSize_result:
  assumes "ensureBufferSize r required = (ok, r')"
  shows "ok \<longleftrightarrow> required \<le> int (length (bodyBuf r)) \<or> \<not> (maxSize r > 0 \<and> required > maxSize r)"
    and "ok \<Longrightarrow> required \<le> int (length (bodyBuf r'))"
    and "\<not> ok \<Longrightarrow> r' = r"
    and "maxSize r > 0 \<Longrightarrow> int (length (bodyBuf r)) \<le> maxSize r \<Longrightarrow> int (length (bodyBuf r')) \<le> maxSize r"
    and "length (bodyBuf r) \<le> length (bodyBuf r')
         \<or> maxSize r > 0 \<and> int (length (bodyBuf r)) > maxSize r"
  using assms grown_size_bounds [where required = required and len = "length (bodyBuf r)"]
  by (auto simp: ensureBufferSize_def Let_def split: if_splits)

lemma ensureBufferSize_frame:
  assumes "ensureBufferSize r required = (ok, r')"
  shows "StatusCode r' = StatusCode r" "ContentLength r' = ContentLength r" "Headers r' = Headers r"
    "maxSize r' = maxSize r" "rawHeaderBuf r' = rawHeaderBuf r" "Body_bytes r' = Body_bytes r"
  using assms by (auto simp: ensureBufferSize_def Let_def split: if_splits)

lemma ensureBufferSize_id [simp]:
  "required \<le> int (length (bodyBuf r)) \<Longrightarrow> ensureBufferSize r required = (True, r)"
  by (simp add: ensureBufferSize_def)

text \<open>A buffer that has to grow is replaced by zeros: nothing of the old contents is copied.\<close>

lemma ensureBufferSize_grow:
  assumes "ensureBufferSize r required = (True, r')" "int (length (bodyBuf r)) < required"
  shows "\<exists>n. bodyBuf r' = zeros n \<and> required \<le> int n"
  using assms grown_size_bounds [where required = required and len = "length (bodyBuf r)"]
  by (auto simp: ensureBufferSize_def Let_def split: if_splits)

lemma fold_loop_eq: "length a = length b \<Longrightarrow> fold_loop a b \<longleftrightarrow> map lower a = map lower b"
  by (induction a b rule: list_induct2) auto

lemma strEqualFoldASCII_eq [simp]: "strEqualFoldASCII a b \<longleftrightarrow> fold_eq a b"
  by (auto simp: strEqualFoldASCII_def fold_eq_def fold_loop_eq dest: map_eq_imp_length_eq)

lemma header_values_loop_eq:
  "header_values_loop key hs vals = vals @ map Value (filter (\<lambda>h. fold_eq (Key h) key) hs)"
  by (induction hs arbitrary: vals) auto

lemma HeaderValues_eq: "HeaderValues r key = map Value (filter (\<lambda>h. fold_eq (Key h) key) (Headers r))"
  by (simp add: HeaderValues_def header_values_loop_eq)

lemma header_loop_eq:
  "header_loop key hs = (case filter (\<lambda>h. fold_eq (Key h) key) hs of [] \<Rightarrow> [] | h # _ \<Rightarrow> Value h)"
  by (induction hs) auto

lemma HasHeader_eq: "HasHeader r key \<longleftrightarrow> (\<exists>h \<in> set (Headers r). fold_eq (Key h) key)"
proof -
  have "has_header_loop key hs \<longleftrightarrow> (\<exists>h \<in> set hs. fold_eq (Key h) key)" for hs
    by (induction hs) auto
  then show ?thesis by (simp add: HasHeader_def)
qed

lemma isConnectionClose_eq:
  "isConnectionClose r \<longleftrightarrow>
     (\<exists>h \<in> set (Headers r). fold_eq (Key h) ''Connection'' \<and> fold_eq (Value h) ''close'')"
proof -
  have "connection_close_loop hs \<longleftrightarrow>
     (\<exists>h \<in> set hs. fold_eq (Key h) ''Connection'' \<and> fold_eq (Value h) ''close'')" for hs
    by (induction hs) auto
  then show ?thesis by (simp add: isConnectionClose_def)
qed

end
