(* ===== verification/Parser.thy ===== *)
theory Parser
  imports Response
begin

text \<open>
  The scanning half of \<^verbatim>\<open>parser.go\<close>: the functions that work on a header block already in
  memory. A forward scan over \<open>buf[i:]\<close> is a recursion over that suffix; the position \<open>i\<close> is kept
  where the code returns it.
\<close>

section \<open>End of the header block\<close>

fun header_end_loop :: "nat \<Rightarrow> bytes \<Rightarrow> int" where
  "header_end_loop i (a # b # c # d # r) =
     (if a = CR then
        (if b = LF \<and> c = CR \<and> d = LF then int i + 4
         else if b = LF then header_end_loop (i + 2) (c # d # r)
         else header_end_loop (i + 1) (b # c # d # r))
      else header_end_loop (i + 1) (b # c # d # r))"
| "header_end_loop i _ = -1"

definition findHeaderEnd :: "bytes \<Rightarrow> int" where
  "findHeaderEnd buf = (if length buf < 4 then -1 else header_end_loop 0 buf)"

section \<open>Status line\<close>

definition parseStatusCode :: "bytes \<Rightarrow> int \<times> bool" where
  "parseStatusCode buf =
     (if length buf < 12 then (0, False)
      else if take 5 buf \<noteq> ''HTTP/'' then (0, False)
      else
        (case dropWhile is_blank (dropWhile (\<lambda>c. \<not> is_blank c) (drop 5 buf)) of
           a # b # c # _ \<Rightarrow>
             if bval a < 49 \<or> bval a > 57 \<or> bval b < 48 \<or> bval b > 57 \<or> bval c < 48 \<or> bval c > 57
             then (0, False)
             else
               (let code = int (bval a - 48) * 100 + int (bval b - 48) * 10 + int (bval c - 48)
                in (code, code \<ge> 100 \<and> code < 600))
         | _ \<Rightarrow> (0, False)))"

section \<open>Framing headers\<close>

text \<open>The inner loop that compares \<open>len(header)\<close> bytes, folding the input to lower case.\<close>

fun match_fold :: "bytes \<Rightarrow> bytes \<Rightarrow> bool" where
  "match_fold [] _ = True"
| "match_fold (h # hs) [] = False"
| "match_fold (h # hs) (c # cs) = (if lower c \<noteq> h then False else match_fold hs cs)"

text \<open>
  The digit loop of parseContentLength. \<open>length*10 + int(ch-'0')\<close> is computed in a 64-bit int and
  wraps around.
\<close>

fun content_length_digits :: "int \<Rightarrow> nat \<Rightarrow> bytes \<Rightarrow> int \<times> bool" where
  "content_length_digits len digits [] = (len, digits > 0)"
| "content_length_digits len digits (ch # cs) =
     (if is_digit ch then
        content_length_digits (i64 (len * 10 + int (bval ch - 48))) (digits + 1) cs
      else if ch = CR \<or> ch = LF then (len, digits > 0)
      else if ch = SP \<or> ch = HT then content_length_digits len digits cs
      else (0, False))"

fun content_length_loop :: "bytes \<Rightarrow> int \<times> bool" where
  "content_length_loop [] = (0, False)"
| "content_length_loop (b # bs) =
     (if length (b # bs) < 15 then (0, False)
      else if b \<noteq> CHR ''c'' \<and> b \<noteq> CHR ''C'' then content_length_loop bs
      else if \<not> match_fold ''content-length:'' (b # bs) then content_length_loop bs
      else content_length_digits 0 0 (dropWhile is_blank (drop 15 (b # bs))))"

definition parseContentLength :: "bytes \<Rightarrow> int \<times> bool" where
  "parseContentLength buf = content_length_loop buf"

fun chunked_loop :: "bytes \<Rightarrow> bool" where
  "chunked_loop [] = False"
| "chunked_loop (b # bs) =
     (if length (b # bs) < 7 then False
      else if match_fold ''chunked'' (b # bs) then True else chunked_loop bs)"

definition containsChunked :: "bytes \<Rightarrow> bool" where
  "containsChunked b = (if length b < 7 then False else chunked_loop b)"

text \<open>The value of a header runs to the next CR or LF.\<close>

definition not_eol :: "byte \<Rightarrow> bool" where
  "not_eol c \<longleftrightarrow> c \<noteq> CR \<and> c \<noteq> LF"

function transfer_encoding_loop :: "bytes \<Rightarrow> bool" where
  "transfer_encoding_loop [] = False"
| "transfer_encoding_loop (b # bs) =
     (if length (b # bs) < 18 then False
      else if b \<noteq> CHR ''t'' \<and> b \<noteq> CHR ''T'' then transfer_encoding_loop bs
      else if \<not> match_fold ''transfer-encoding:'' (b # bs) then transfer_encoding_loop bs
      else
        (let v = dropWhile is_blank (drop 18 (b # bs)) in
         if containsChunked (takeWhile not_eol v) then True
         else transfer_encoding_loop (drop 1 (dropWhile not_eol v))))"
  by pat_completeness auto
termination
proof (relation "measure length", goal_cases)
  case (4 b bs v)
  have "length (drop 1 (dropWhile not_eol v)) \<le> length v"
    by (metis diff_le_self length_drop length_dropWhile_le order_trans)
  also have "\<dots> \<le> length (drop 18 (b # bs))"
    using 4 length_dropWhile_le [of is_blank "drop 18 (b # bs)"] by simp
  also have "\<dots> < length (b # bs)" by simp
  finally show ?case by simp
qed simp_all

definition parseTransferEncoding :: "bytes \<Rightarrow> bool" where
  "parseTransferEncoding buf = transfer_encoding_loop buf"

section \<open>Header lines\<close>

text \<open>The loop that looks for the next CRLF: the bytes before it and the bytes after it.\<close>

fun split_crlf :: "bytes \<Rightarrow> (bytes \<times> bytes) option" where
  "split_crlf (a # b # r) =
     (if a = CR \<and> b = LF then Some ([], r)
      else map_option (\<lambda>(l, rest). (a # l, rest)) (split_crlf (b # r)))"
| "split_crlf _ = None"

lemma split_crlf_Some: "split_crlf s = Some (l, rest) \<Longrightarrow> s = l @ CRLF @ rest"
  by (induction s arbitrary: l rest rule: split_crlf.induct) (auto split: if_splits)

lemma split_crlf_length: "split_crlf s = Some (l, rest) \<Longrightarrow> length rest < length s"
  by (drule split_crlf_Some) simp

text \<open>
  One line split at its first colon, both sides trimmed of blanks: the body of the loops of
  parseHeaders and headerBytesFromRaw. None when there is no colon or nothing before it.
\<close>

definition split_line :: "bytes \<Rightarrow> (bytes \<times> bytes) option" where
  "split_line line =
     (let k = takeWhile (\<lambda>c. c \<noteq> CHR '':'') line in
      if k \<noteq> [] \<and> length k < length line then Some (trim k, trim (drop (length k + 1) line))
      else None)"

function parse_headers_loop :: "bytes \<Rightarrow> Header list \<Rightarrow> Header list" where
  "parse_headers_loop s hs =
     (case split_crlf s of
        None \<Rightarrow> hs
      | Some (line, rest) \<Rightarrow>
          if line = [] then hs
          else parse_headers_loop rest
            (case split_line line of
               Some (k, v) \<Rightarrow> if k \<noteq> [] \<and> v \<noteq> [] then hs @ [\<lparr>Key = k, Value = v\<rparr>] else hs
             | None \<Rightarrow> hs))"
  by pat_completeness auto
termination
  by (relation "measure (\<lambda>(s, hs). length s)") (auto dest: split_crlf_length)

declare parse_headers_loop.simps [simp del]

definition parseHeaders :: "bytes \<Rightarrow> Response \<Rightarrow> Response" where
  "parseHeaders headerBuf resp =
     (let resp1 = resp\<lparr>rawHeaderBuf := headerBuf\<rparr> in
      case split_crlf headerBuf of
        None \<Rightarrow> resp1
      | Some (statusLine, rest) \<Rightarrow>
          if rest = [] then resp1 else resp1\<lparr>Headers := parse_headers_loop rest []\<rparr>)"

function header_bytes_loop :: "bytes \<Rightarrow> bytes \<Rightarrow> bytes option" where
  "header_bytes_loop key s =
     (case split_crlf s of
        None \<Rightarrow> None
      | Some (line, rest) \<Rightarrow>
          if line = [] then None
          else
            (case split_line line of
               Some (k, v) \<Rightarrow>
                 if length k = length key \<and> fold_loop k key then Some v
                 else header_bytes_loop key rest
             | None \<Rightarrow> header_bytes_loop key rest))"
  by pat_completeness auto
termination
  by (relation "measure (\<lambda>(key, s). length s)") (auto dest: split_crlf_length)

declare header_bytes_loop.simps [simp del]

definition headerBytesFromRaw :: "bytes \<Rightarrow> bytes \<Rightarrow> bytes option" where
  "headerBytesFromRaw raw key =
     (if raw = [] \<or> key = [] then None
      else header_bytes_loop key
        (case split_crlf raw of None \<Rightarrow> raw | Some (_, rest) \<Rightarrow> rest))"

definition HeaderBytes :: "Response \<Rightarrow> bytes \<Rightarrow> bytes option" where
  "HeaderBytes r key = headerBytesFromRaw (rawHeaderBuf r) key"

section \<open>The scanners against their references\<close>

text \<open>Case-insensitive search: the pattern (in lower case) in the folded input.\<close>

definition occurs_at :: "bytes \<Rightarrow> bytes \<Rightarrow> nat \<Rightarrow> bool" where
  "occurs_at pat s i \<longleftrightarrow> prefix pat (map lower (drop i s))"

lemma header_end_loop_first_occ:
  "header_end_loop i s =
     (case first_occ [CR, LF, CR, LF] s of None \<Rightarrow> -1 | Some k \<Rightarrow> int (i + k) + 4)"
proof (induction i s rule: header_end_loop.induct)
  case (1 i a b c d r)
  let ?pat = "[CR, LF, CR, LF]"
  consider (hit) "a = CR" "b = LF" "c = CR" "d = LF"
    | (skip) "a = CR" "b = LF" "\<not> (c = CR \<and> d = LF)"
    | (move) "\<not> (a = CR \<and> b = LF)" by blast
  then show ?case
  proof cases
    case hit
    then show ?thesis by (simp add: first_occ_hit)
  next
    case skip
    then have "first_occ ?pat (a # b # c # d # r) = map_option Suc (first_occ ?pat (b # c # d # r))"
      "first_occ ?pat (b # c # d # r) = map_option Suc (first_occ ?pat (c # d # r))"
      by (auto intro!: first_occ_miss)
    with skip 1 show ?thesis by (auto split: option.splits)
  next
    case move
    then have "first_occ ?pat (a # b # c # d # r) = map_option Suc (first_occ ?pat (b # c # d # r))"
      by (auto intro!: first_occ_miss)
    with move 1 show ?thesis by (auto split: option.splits)
  qed
qed (simp_all add: first_occ_miss)

lemma findHeaderEnd_first_occ:
  "findHeaderEnd s = (case first_occ [CR, LF, CR, LF] s of None \<Rightarrow> -1 | Some k \<Rightarrow> int k + 4)"
proof (cases "length s < 4")
  case True
  then have "\<forall>i \<le> length s. \<not> prefix [CR, LF, CR, LF] (drop i s)"
    by (auto dest!: prefix_length_le)
  then have "first_occ [CR, LF, CR, LF] s = None"
    by (simp only: first_occ_None)
  with True show ?thesis by (simp add: findHeaderEnd_def)
qed (auto simp: findHeaderEnd_def header_end_loop_first_occ split: option.splits)

lemma match_fold_prefix: "match_fold h s \<longleftrightarrow> prefix h (map lower s)"
  by (induction h s rule: match_fold.induct) auto

lemma lower_eq_c: "lower b = CHR ''c'' \<longleftrightarrow> b = CHR ''c'' \<or> b = CHR ''C''"
  by (cases b) (auto simp: lower_Char)

lemma lower_eq_t: "lower b = CHR ''t'' \<longleftrightarrow> b = CHR ''t'' \<or> b = CHR ''T''"
  by (cases b) (auto simp: lower_Char)

lemma first_occ_short: "length s < length pat \<Longrightarrow> first_occ pat s = None"
  unfolding first_occ_None by (auto dest!: prefix_length_le)

lemma content_length_loop_first_occ:
  "content_length_loop s =
     (case first_occ ''content-length:'' (map lower s) of
        None \<Rightarrow> (0, False)
      | Some i \<Rightarrow> content_length_digits 0 0 (dropWhile is_blank (drop (i + 15) s)))"
proof (induction s)
  case (Cons b bs)
  show ?case
  proof (cases "length (b # bs) < 15")
    case True
    then have "first_occ ''content-length:'' (map lower (b # bs)) = None"
      by (intro first_occ_short) simp
    with True show ?thesis by simp
  next
    case False
    show ?thesis
    proof (cases "match_fold ''content-length:'' (b # bs)")
      case True
      then have "b = CHR ''c'' \<or> b = CHR ''C''" by (auto simp: lower_eq_c split: if_splits)
      with True False show ?thesis by (auto simp: match_fold_prefix first_occ_hit)
    next
      case no: False
      then have "first_occ ''content-length:'' (map lower (b # bs)) =
          map_option Suc (first_occ ''content-length:'' (map lower bs))"
        unfolding match_fold_prefix list.map by (rule first_occ_miss)
      with no False Cons.IH show ?thesis
        by (simp add: drop_Cons' add.commute del: match_fold.simps split: option.splits)
    qed
  qed
qed simp

text \<open>Reading digits: the value is the decimal number, reduced to 64 bits.\<close>

lemma i64_horner: "i64 (i64 a * 10 + b) = i64 (a * 10 + b)"
proof -
  define m :: int where "m = 2 ^ 64"
  have "i64 a mod m = a mod m"
    unfolding i64_def m_def by (simp add: mod_diff_left_eq)
  then have "(i64 a * 10 + b + 2 ^ 63) mod m = (a * 10 + b + 2 ^ 63) mod m"
    by (metis mod_add_left_eq mod_mult_left_eq)
  then show ?thesis by (simp add: i64_def m_def)
qed

lemma content_length_digits_digits:
  "\<forall>c \<in> set ds. is_digit c \<Longrightarrow>
   content_length_digits (i64 (int w)) k (ds @ r) =
     content_length_digits (i64 (int (horner w ds))) (k + length ds) r"
proof (induction ds arbitrary: w k)
  case (Cons c ds)
  with Cons.IH [of "w * 10 + (bval c - 48)" "Suc k"] show ?case by (simp add: i64_horner)
qed simp

lemma content_length_digits_itoa:
  assumes "c = CR \<or> c = LF"
  shows "content_length_digits 0 0 (itoa n @ c # r) = (i64 (int n), True)"
proof -
  have eol: "\<not> is_digit c" using assms by (auto simp: is_digit_def of_char_Char)
  have "content_length_digits (i64 (int 0)) 0 (itoa n @ c # r) =
      content_length_digits (i64 (int n)) (length (itoa n)) (c # r)"
    using content_length_digits_digits [OF itoa_digits, of 0 0 n "c # r"] by simp
  with eol assms show ?thesis by (simp add: i64_id)
qed

lemma dropWhile_blank_itoa:
  "\<forall>c \<in> set bl. is_blank c \<Longrightarrow> dropWhile is_blank (bl @ itoa n @ r) = itoa n @ r"
proof -
  assume bl: "\<forall>c \<in> set bl. is_blank c"
  obtain c cs where s: "itoa n = c # cs" by (cases "itoa n") simp_all
  with itoa_digits [of n] have "is_digit c" by simp
  then have "\<not> is_blank c" by (auto simp: is_digit_def is_blank_def of_char_Char)
  with bl s show ?thesis by (simp add: dropWhile_append_stop)
qed

text \<open>The chunked token and the transfer-encoding header.\<close>

lemma chunked_loop_sublist: "chunked_loop s \<longleftrightarrow> sublist ''chunked'' (map lower s)"
proof (induction s)
  case (Cons b bs)
  show ?case
  proof (cases "length (b # bs) < 7")
    case True
    then have "\<not> sublist ''chunked'' (map lower (b # bs))"
      by (auto dest!: sublist_length_le)
    with True show ?thesis by simp
  next
    case False
    with Cons show ?thesis
      by (auto simp: match_fold_prefix sublist_Cons_right simp del: match_fold.simps)
  qed
qed simp

lemma containsChunked_sublist: "containsChunked s \<longleftrightarrow> sublist ''chunked'' (map lower s)"
  by (auto simp: containsChunked_def chunked_loop_sublist dest!: sublist_length_le)

text \<open>The value of the header that starts at position \<open>i\<close> with a name of 18 bytes, colon included.\<close>

definition te_value :: "bytes \<Rightarrow> nat \<Rightarrow> bytes" where
  "te_value s i = takeWhile not_eol (dropWhile is_blank (drop (i + 18) s))"

definition te_chunked_at :: "bytes \<Rightarrow> nat \<Rightarrow> bool" where
  "te_chunked_at s i \<longleftrightarrow>
     occurs_at ''transfer-encoding:'' s i \<and> sublist ''chunked'' (map lower (te_value s i))"

lemma blank_not_eol: "is_blank c \<Longrightarrow> not_eol c"
  by (auto simp: is_blank_def not_eol_def)

lemma takeWhile_dropWhile_blank:
  "takeWhile not_eol (dropWhile is_blank s) = dropWhile is_blank (takeWhile not_eol s)"
  by (induction s) (auto simp: blank_not_eol)

lemma suffix_dropWhile_drop: "suffix (dropWhile P (drop i s)) (dropWhile P s)"
proof (induction s arbitrary: i)
  case (Cons a s)
  show ?case
  proof (cases i)
    case (Suc j)
    show ?thesis
    proof (cases "P a")
      case True
      with Suc Cons show ?thesis by simp
    next
      case False
      have "suffix (dropWhile P (drop j s)) (drop j s)" by (rule suffix_dropWhile)
      also have "suffix (drop j s) s" by (rule suffix_drop)
      finally show ?thesis using False Suc by (simp add: suffix_ConsI)
    qed
  qed simp
qed simp

lemma te_chunked_at_0: "te_chunked_at (b # bs) 0 \<longleftrightarrow>
    match_fold ''transfer-encoding:'' (b # bs) \<and>
    containsChunked (takeWhile not_eol (dropWhile is_blank (drop 18 (b # bs))))"
  by (simp add: te_chunked_at_def occurs_at_def match_fold_prefix te_value_def
      containsChunked_sublist del: match_fold.simps)

lemma te_chunked_at_drop: "te_chunked_at s (n + i) \<longleftrightarrow> te_chunked_at (drop n s) i"
  by (simp add: te_chunked_at_def occurs_at_def te_value_def ac_simps)

text \<open>
  Skipping the rest of a line after a transfer-encoding header without the token loses nothing:
  an occurrence of the name inside that line has a value that is a suffix of the line's value.
\<close>

lemma name_not_eol:
  "prefix ''transfer-encoding:'' (map lower s) \<Longrightarrow> takeWhile not_eol s = take 18 s @ takeWhile not_eol (drop 18 s)"
proof -
  assume "prefix ''transfer-encoding:'' (map lower s)"
  then obtain r where r: "map lower s = ''transfer-encoding:'' @ r" by (auto simp: prefix_def)
  then have l: "map lower (take 18 s) = ''transfer-encoding:''" by (simp flip: take_map)
  have "\<forall>c \<in> set (take 18 s). not_eol c"
  proof
    fix c assume "c \<in> set (take 18 s)"
    then have "lower c \<in> set ''transfer-encoding:''" by (metis l image_eqI set_map)
    then show "not_eol c" by (auto simp: not_eol_def lower_Char)
  qed
  then have "takeWhile not_eol (take 18 s @ drop 18 s) = take 18 s @ takeWhile not_eol (drop 18 s)"
    by (simp only: takeWhile_append2)
  then show ?thesis by simp
qed

lemma te_value_line:
  assumes "occurs_at ''transfer-encoding:'' s i" "i \<le> length (takeWhile not_eol s)"
  shows "te_value s i = dropWhile is_blank (drop (i + 18) (takeWhile not_eol s))"
proof -
  let ?u = "takeWhile not_eol s"
  have "takeWhile not_eol (drop i s) = drop i ?u"
    using assms(2) by (rule takeWhile_drop)
  then have "drop i ?u = take 18 (drop i s) @ takeWhile not_eol (drop 18 (drop i s))"
    using name_not_eol assms(1) by (metis occurs_at_def)
  moreover have "length (take 18 (drop i s)) = 18"
    using assms(1) prefix_length_le by (fastforce simp: occurs_at_def)
  ultimately have "drop (i + 18) ?u = takeWhile not_eol (drop (i + 18) s)"
    by (metis add.commute append_eq_conv_conj drop_drop)
  then show ?thesis
    by (simp add: te_value_def takeWhile_dropWhile_blank)
qed

lemma rest_of_line:
  assumes "prefix ''transfer-encoding:'' (map lower s)"
  shows "dropWhile not_eol (dropWhile is_blank (drop 18 s)) = drop (length (takeWhile not_eol s)) s"
proof -
  have "dropWhile not_eol (dropWhile is_blank x) = dropWhile not_eol x" for x
    by (induction x) (auto simp: blank_not_eol)
  moreover have "dropWhile not_eol (drop 18 s) = dropWhile not_eol s"
    using name_not_eol [OF assms] takeWhile_dropWhile_id [of not_eol s]
      takeWhile_dropWhile_id [of not_eol "drop 18 s"]
    by (metis append.assoc append_take_drop_id same_append_eq)
  ultimately show ?thesis by (simp only: dropWhile_eq_drop)
qed

lemma transfer_encoding_loop_iff: "transfer_encoding_loop s \<longleftrightarrow> (\<exists>i. te_chunked_at s i)"
proof (induction s rule: transfer_encoding_loop.induct)
  case 1
  show ?case by (simp add: te_chunked_at_def occurs_at_def)
next
  case (2 b bs)
  let ?s = "b # bs"
  have step: "(\<exists>i. te_chunked_at ?s i) \<longleftrightarrow> te_chunked_at ?s 0 \<or> (\<exists>i. te_chunked_at bs i)"
    using te_chunked_at_drop [of ?s 1] by (metis One_nat_def drop0 drop_Suc_Cons not0_implies_Suc plus_1_eq_Suc)
  consider (short) "length ?s < 18" | (miss) "18 \<le> length ?s" "\<not> match_fold ''transfer-encoding:'' ?s"
    | (hit) "18 \<le> length ?s" "match_fold ''transfer-encoding:'' ?s" by linarith
  then show ?case
  proof cases
    case short
    then have "\<not> te_chunked_at ?s i" for i
      by (auto simp: te_chunked_at_def occurs_at_def dest!: prefix_length_le)
    with short show ?thesis by simp
  next
    case miss
    then have "transfer_encoding_loop ?s \<longleftrightarrow> transfer_encoding_loop bs"
      by (simp del: match_fold.simps)
    moreover have "\<not> te_chunked_at ?s 0" using miss by (simp add: te_chunked_at_0 del: match_fold.simps)
    ultimately show ?thesis using 2(1,2) miss step by (auto simp del: match_fold.simps)
  next
    case hit
    let ?v = "dropWhile is_blank (drop 18 ?s)"
    let ?u = "takeWhile not_eol ?s"
    have b: "b = CHR ''t'' \<or> b = CHR ''T''" using hit by (auto simp: lower_eq_t split: if_splits)
    have p: "prefix ''transfer-encoding:'' (map lower ?s)" using hit by (simp add: match_fold_prefix)
    show ?thesis
    proof (cases "containsChunked (takeWhile not_eol ?v)")
      case True
      then have "te_chunked_at ?s 0" using hit by (simp add: te_chunked_at_0 del: match_fold.simps)
      with True hit b show ?thesis by (auto simp del: match_fold.simps)
    next
      case False
      let ?r = "drop (length ?u + 1) ?s"
      have r: "drop 1 (dropWhile not_eol ?v) = ?r"
        using rest_of_line [OF p] by (simp add: ac_simps)
      have "transfer_encoding_loop ?s \<longleftrightarrow> transfer_encoding_loop ?r"
        unfolding r [symmetric] using False hit b by (auto simp: Let_def simp del: match_fold.simps)
      also have "\<dots> \<longleftrightarrow> (\<exists>i. te_chunked_at ?r i)"
        unfolding r [symmetric] using 2(3) [OF _ _ _ refl] False hit b by (auto simp del: match_fold.simps)
      also have "\<dots> \<longleftrightarrow> (\<exists>i. te_chunked_at ?s i)"
      proof
        assume "\<exists>i. te_chunked_at ?r i"
        then show "\<exists>i. te_chunked_at ?s i" by (metis te_chunked_at_drop)
      next
        assume "\<exists>i. te_chunked_at ?s i"
        then obtain i where i: "te_chunked_at ?s i" ..
        have "\<not> i \<le> length ?u"
        proof
          assume le: "i \<le> length ?u"
          then have "te_value ?s i = dropWhile is_blank (drop i (drop 18 ?u))"
            using te_value_line [OF _ le] i by (simp add: te_chunked_at_def ac_simps)
          moreover have "te_value ?s 0 = dropWhile is_blank (drop 18 ?u)"
            using te_value_line [of ?s 0] p by (simp add: occurs_at_def)
          ultimately have "suffix (te_value ?s i) (te_value ?s 0)"
            using suffix_dropWhile_drop by metis
          then have "sublist (map lower (te_value ?s i)) (map lower (te_value ?s 0))"
            by (intro map_mono_sublist suffix_imp_sublist)
          then have "sublist ''chunked'' (map lower (te_value ?s 0))"
            using i by (auto simp: te_chunked_at_def intro: sublist_order.order_trans)
          with False show False by (simp add: containsChunked_sublist te_value_def)
        qed
        then obtain j where "i = (length ?u + 1) + j"
          by (metis Suc_eq_plus1 less_iff_Suc_add not_le add_Suc)
        with i show "\<exists>i. te_chunked_at ?r i" using te_chunked_at_drop by metis
      qed
      finally show ?thesis .
    qed
  qed
qed

section \<open>Header lines against a list of pairs\<close>

text \<open>All key and value pairs of the lines up to the blank line, empty values included.\<close>

function line_pairs :: "bytes \<Rightarrow> (bytes \<times> bytes) list" where
  "line_pairs s =
     (case split_crlf s of
        None \<Rightarrow> []
      | Some (line, rest) \<Rightarrow>
          if line = [] then []
          else (case split_line line of Some kv \<Rightarrow> kv # line_pairs rest | None \<Rightarrow> line_pairs rest))"
  by pat_completeness auto
termination
  by (relation "measure length") (auto dest: split_crlf_length)

declare line_pairs.simps [simp del]

lemma parse_headers_loop_eq:
  "parse_headers_loop s hs =
     hs @ map (\<lambda>(k, v). \<lparr>Key = k, Value = v\<rparr>) (filter (\<lambda>(k, v). k \<noteq> [] \<and> v \<noteq> []) (line_pairs s))"
proof (induction s hs rule: parse_headers_loop.induct)
  case (1 s hs)
  show ?case
    by (subst parse_headers_loop.simps, subst line_pairs.simps)
      (auto split: option.splits simp: 1)
qed

lemma header_bytes_loop_eq:
  "header_bytes_loop key s = map_option snd (find (\<lambda>(k, v). fold_eq k key) (line_pairs s))"
proof (induction key s rule: header_bytes_loop.induct)
  case (1 key s)
  have "length k = length key \<and> fold_loop k key \<longleftrightarrow> fold_eq k key" for k
    using strEqualFoldASCII_eq [of k key] unfolding strEqualFoldASCII_def by (auto split: if_splits)
  then show ?case
    by (subst header_bytes_loop.simps, subst line_pairs.simps)
      (auto split: option.splits simp: 1)
qed

section \<open>Rendering header lines\<close>

definition render_header :: "Header \<Rightarrow> bytes" where
  "render_header h = Key h @ '': '' @ Value h @ CRLF"

text \<open>Headers that survive a round trip: a name without colon, no blanks at the ends, no CR.\<close>

definition clean_header :: "Header \<Rightarrow> bool" where
  "clean_header h \<longleftrightarrow> Key h \<noteq> [] \<and> Value h \<noteq> [] \<and> trimmed (Key h) \<and> trimmed (Value h) \<and>
     CR \<notin> set (Key h) \<and> CR \<notin> set (Value h) \<and> CHR '':'' \<notin> set (Key h)"

lemma split_crlf_append: "CR \<notin> set l \<Longrightarrow> split_crlf (l @ CRLF @ r) = Some (l, r)"
proof (induction l)
  case (Cons a l)
  then show ?case by (cases l) auto
qed simp

lemma split_line_render:
  assumes "clean_header h"
  shows "split_line (Key h @ '': '' @ Value h) = Some (Key h, Value h)"
proof -
  let ?l = "Key h @ CHR '':'' # SP # Value h"
  have "takeWhile (\<lambda>c. c \<noteq> CHR '':'') ?l = Key h"
    using assms by (intro takeWhile_append_stop) (auto simp: clean_header_def)
  moreover have "trim (SP # Value h) = Value h" "trim (Key h) = Key h"
    using assms by (auto simp: clean_header_def trim_blank_Cons trim_trimmed)
  ultimately show ?thesis
    using assms by (auto simp: split_line_def Let_def clean_header_def)
qed

lemma line_pairs_render:
  "\<forall>h \<in> set hs. clean_header h \<Longrightarrow>
   line_pairs (concat (map render_header hs) @ CRLF @ r) = map (\<lambda>h. (Key h, Value h)) hs"
proof (induction hs)
  case Nil
  show ?case by (subst line_pairs.simps) (simp)
next
  case (Cons h hs)
  let ?l = "Key h @ '': '' @ Value h"
  let ?t = "concat (map render_header hs) @ CRLF @ r"
  have "split_crlf (?l @ CRLF @ ?t) = Some (?l, ?t)"
    using Cons.prems by (intro split_crlf_append) (auto simp: clean_header_def)
  moreover have "concat (map render_header (h # hs)) @ CRLF @ r = ?l @ CRLF @ ?t"
    by (simp add: render_header_def)
  ultimately show ?case
    using Cons split_line_render [of h] by (subst line_pairs.simps) simp
qed

end
