(* ===== verification/Scanners.thy ===== *)
theory Scanners
  imports Parser
begin

text \<open>
  What the scanners of \<^verbatim>\<open>parser.go\<close> compute, against references: the first blank line, the decimal
  number in a Content-Length line, the chunked coding, the list of header fields.
\<close>

section \<open>Status line\<close>

lemma itoa_three:
  assumes "100 \<le> n" "n < 1000"
  shows "itoa n = [digit (n div 100), digit (n div 10 mod 10), digit (n mod 10)]"
proof -
  have "itoa (n div 10) = [digit (n div 100), digit (n div 10 mod 10)]"
    using assms by (subst itoa.simps, subst itoa.simps) (auto simp: div_mult2_eq [of n 10 10, simplified])
  with assms show ?thesis by (subst itoa.simps) simp
qed

lemma drop_status_code:
  assumes "\<forall>c \<in> set ver. \<not> is_blank c" "\<not> is_blank c"
  shows "dropWhile is_blank (dropWhile (\<lambda>c. \<not> is_blank c) (ver @ SP # c # r)) = c # r"
  using assms by (simp add: dropWhile_append_stop)

lemma digit_not_blank: "is_digit c \<Longrightarrow> \<not> is_blank c"
  by (auto simp: is_digit_def is_blank_def of_char_Char)

lemma parseStatusCode_digits:
  assumes "\<forall>c \<in> set ver. \<not> is_blank c" "3 \<le> length ver + length r" "1 \<le> a" "a < 10" "b < 10" "c < 10"
  shows "parseStatusCode (''HTTP/'' @ ver @ SP # digit a # digit b # digit c # r) =
    (int (a * 100 + b * 10 + c), a < 6)"
proof -
  have "\<not> is_blank (digit a)" using assms by (intro digit_not_blank is_digit_digit)
  moreover have "int a * 100 + int b * 10 + int c < 600 \<longleftrightarrow> a < 6"
    using assms(5,6) by (intro iffI) linarith+
  ultimately show ?thesis
    using assms by (simp add: parseStatusCode_def drop_status_code bval_digit Let_def)
qed

text \<open>
  The status code of every well-formed status line is read back: for a version token without
  blanks and a code from 100 to 599 in decimal, parseStatusCode returns exactly that code.
\<close>

theorem parseStatusCode_roundtrip:
  assumes "\<forall>c \<in> set ver. \<not> is_blank c" "3 \<le> length ver + length r" "100 \<le> n" "n < 600"
  shows "parseStatusCode (''HTTP/'' @ ver @ SP # itoa n @ r) = (int n, True)"
proof -
  define q where "q = n div 10"
  define s where "s = q div 10"
  have "n = q * 10 + n mod 10" "q = s * 10 + q mod 10" by (simp_all add: q_def s_def)
  moreover have "n div 100 = s" by (simp add: q_def s_def flip: div_mult2_eq)
  ultimately have "n div 100 * 100 + n div 10 mod 10 * 10 + n mod 10 = n"
    unfolding q_def by linarith
  moreover have "1 \<le> n div 100" "n div 100 < 6" using assms by auto
  ultimately show ?thesis
    using parseStatusCode_digits [of ver r "n div 100" "n div 10 mod 10" "n mod 10"] itoa_three [of n] assms
    by simp
qed

theorem parseStatusCode_roundtrip_witness:
  "parseStatusCode (''HTTP/'' @ ''1.1'' @ SP # itoa 404 @ '' Not Found'') = (int 404, True)"
  by (rule parseStatusCode_roundtrip) (simp_all add: is_blank_def)

section \<open>Framing headers\<close>

text \<open>
  findHeaderEnd is the search for the first blank line: it returns the position right after the
  first occurrence of CR LF CR LF, and -1 if there is none.
\<close>

theorem findHeaderEnd_is_first_blank_line:
  "findHeaderEnd buf = (case first_occ [CR, LF, CR, LF] buf of None \<Rightarrow> -1 | Some k \<Rightarrow> int k + 4)"
  by (rule findHeaderEnd_first_occ)

lemma parseContentLength_at:
  assumes "first_occ ''content-length:'' (map lower (pre @ name @ bl @ itoa n @ c # r)) = Some (length pre)"
    "length name = 15" "\<forall>b \<in> set bl. is_blank b" "c = CR \<or> c = LF"
  shows "parseContentLength (pre @ name @ bl @ itoa n @ c # r) = (i64 (int n), True)"
proof -
  have "drop (length pre + 15) (pre @ name @ bl @ itoa n @ c # r) = bl @ itoa n @ c # r"
    using assms(2) by simp
  then show ?thesis
    using assms dropWhile_blank_itoa [OF assms(3), of n "c # r"] content_length_digits_itoa [OF assms(4), of n r]
    by (simp add: parseContentLength_def content_length_loop_first_occ)
qed

text \<open>
  The length read from the first Content-Length line is the decimal number written there,
  reduced to a signed 64-bit integer: exact below 2^63, wrapped around beyond it.
\<close>

theorem parseContentLength_decimal:
  assumes "first_occ ''content-length:'' (map lower (pre @ name @ bl @ itoa n @ CRLF @ r)) = Some (length pre)"
    "length name = 15" "\<forall>b \<in> set bl. is_blank b"
  shows "snd (parseContentLength (pre @ name @ bl @ itoa n @ CRLF @ r)) \<and>
    (fst (parseContentLength (pre @ name @ bl @ itoa n @ CRLF @ r)) = int n \<longleftrightarrow> int n < 2 ^ 63)"
proof -
  have p: "parseContentLength (pre @ name @ bl @ itoa n @ CRLF @ r) = (i64 (int n), True)"
    using parseContentLength_at [of pre name bl n CR "LF # r"] assms by simp
  have "i64 (int n) = int n \<longleftrightarrow> int n < 2 ^ 63"
    using i64_range [of "int n"] i64_id [of "int n"] by auto
  with p show ?thesis by simp
qed

theorem parseContentLength_decimal_witness:
  "snd (parseContentLength ([] @ ''Content-Length:'' @ '' '' @ itoa 42 @ CRLF @ CRLF)) \<and>
   (fst (parseContentLength ([] @ ''Content-Length:'' @ '' '' @ itoa 42 @ CRLF @ CRLF)) = int 42 \<longleftrightarrow>
     int 42 < 2 ^ 63)"
proof (rule parseContentLength_decimal)
  show "first_occ ''content-length:'' (map lower ([] @ ''Content-Length:'' @ '' '' @ itoa 42 @ CRLF @ CRLF)) =
      Some (length ([] :: bytes))" by (simp add: first_occ_hit go_simps)
  show "length ''Content-Length:'' = 15" "\<forall>b \<in> set '' ''. is_blank b" by simp_all
qed

text \<open>
  A response counts as chunked exactly when some occurrence of \<open>transfer-encoding:\<close> (in any case) is
  followed, on the same line, by the token \<open>chunked\<close> (in any case).
\<close>

theorem parseTransferEncoding_iff:
  "parseTransferEncoding head \<longleftrightarrow> (\<exists>i. te_chunked_at head i)"
  by (simp add: parseTransferEncoding_def transfer_encoding_loop_iff)

section \<open>Header fields\<close>

lemma Headers_render:
  assumes "CR \<notin> set statusLine" "\<forall>h \<in> set hs. clean_header h"
  shows "Headers (parseHeaders (statusLine @ CRLF @ concat (map render_header hs) @ CRLF) resp) = hs"
proof -
  let ?rest = "concat (map render_header hs) @ CRLF"
  have "split_crlf (statusLine @ CRLF @ ?rest) = Some (statusLine, ?rest)"
    using assms(1) by (rule split_crlf_append)
  moreover have "line_pairs ?rest = map (\<lambda>h. (Key h, Value h)) hs"
    using line_pairs_render [OF assms(2), of "[]"] by simp
  moreover have "filter (\<lambda>(k, v). k \<noteq> [] \<and> v \<noteq> []) (map (\<lambda>h. (Key h, Value h)) hs) = map (\<lambda>h. (Key h, Value h)) hs"
    using assms(2) by (auto simp: filter_id_conv clean_header_def)
  moreover have "map (\<lambda>h. \<lparr>Key = Key h, Value = Value h\<rparr>) hs = hs"
    by (simp add: map_idI)
  ultimately show ?thesis
    by (simp add: parseHeaders_def parse_headers_loop_eq comp_def Let_def)
qed

text \<open>
  C24. Header fields survive the wire: rendering any list of clean fields after a status line and
  parsing the block gives back exactly these fields, in order.
\<close>

theorem parseHeaders_roundtrip:
  assumes "CR \<notin> set statusLine" "\<forall>h \<in> set hs. clean_header h"
  shows "Headers (parseHeaders (statusLine @ CRLF @ concat (map render_header hs) @ CRLF) resp) = hs"
  using assms by (rule Headers_render)

theorem parseHeaders_roundtrip_witness:
  "Headers (parseHeaders (''HTTP/1.1 200 OK'' @ CRLF @
      concat (map render_header [\<lparr>Key = ''Server'', Value = ''x y''\<rparr>, \<lparr>Key = ''ETag'', Value = ''a:b''\<rparr>]) @ CRLF)
      responsePool_New) = [\<lparr>Key = ''Server'', Value = ''x y''\<rparr>, \<lparr>Key = ''ETag'', Value = ''a:b''\<rparr>]"
  by (rule parseHeaders_roundtrip) (simp_all add: clean_header_def trimmed_def is_blank_def)

lemma find_filter_hd:
  assumes "find P xs = Some x" "Q x" "\<And>y. R y \<longleftrightarrow> P y"
  shows "\<exists>ys. filter R (filter Q xs) = x # ys"
  using assms by (induction xs) (auto split: if_splits)

text \<open>
  The allocation-free accessor agrees with the parsed fields: on a response filled by parseHeaders,
  a non-empty value found by HeaderBytes is the value Header returns, and a name HeaderBytes does not
  find is not among the fields.
\<close>

theorem HeaderBytes_agrees:
  assumes "split_crlf head = Some (statusLine, rest)" "rest \<noteq> []" "key \<noteq> []"
  shows "(case HeaderBytes (parseHeaders head resp) key of
      None \<Rightarrow> \<not> HasHeader (parseHeaders head resp) key
    | Some v \<Rightarrow> v = [] \<or> Response_Header (parseHeaders head resp) key = v)"
proof -
  let ?r = "parseHeaders head resp" and ?ps = "line_pairs rest"
  let ?P = "\<lambda>(k, v :: bytes). fold_eq k key" and ?Q = "\<lambda>(k :: bytes, v :: bytes). k \<noteq> [] \<and> v \<noteq> []"
  have H: "Headers ?r = map (\<lambda>(k, v). \<lparr>Key = k, Value = v\<rparr>) (filter ?Q ?ps)" and raw: "rawHeaderBuf ?r = head"
    using assms by (simp_all add: parseHeaders_def parse_headers_loop_eq Let_def)
  have "head \<noteq> []" using assms(1) by auto
  then have B: "HeaderBytes ?r key = map_option snd (find ?P ?ps)"
    using assms by (simp add: HeaderBytes_def headerBytesFromRaw_def raw header_bytes_loop_eq)
  show ?thesis
  proof (cases "find ?P ?ps")
    case None
    then have "\<not> HasHeader ?r key" by (auto simp: HasHeader_eq H find_None_iff)
    with None B show ?thesis by simp
  next
    case (Some kv)
    obtain k v where kv: "kv = (k, v)" by (cases kv)
    have "fold_eq k key" using Some kv by (auto simp: find_Some_iff)
    then have "k \<noteq> []" using assms(3) by (auto simp: fold_eq_def)
    have "Response_Header ?r key = v" if "v \<noteq> []"
    proof -
      have "?Q kv" using kv that \<open>k \<noteq> []\<close> by simp
      from find_filter_hd [where Q = ?Q and R = ?P, OF Some this] obtain ys where "filter ?P (filter ?Q ?ps) = kv # ys"
        by blast
      moreover have "filter (\<lambda>h. fold_eq (Key h) key) (Headers ?r) =
          map (\<lambda>(k, v). \<lparr>Key = k, Value = v\<rparr>) (filter ?P (filter ?Q ?ps))"
        by (simp add: H filter_map comp_def case_prod_beta)
      ultimately show ?thesis by (simp add: Response_Header_def header_loop_eq kv)
    qed
    with B Some kv show ?thesis by auto
  qed
qed

theorem HeaderBytes_agrees_witness:
  "(case HeaderBytes (parseHeaders (''HTTP/1.1 200 OK'' @ CRLF @ ''ETag: z'' @ CRLF @ CRLF) responsePool_New) ''etag'' of
      None \<Rightarrow> \<not> HasHeader (parseHeaders (''HTTP/1.1 200 OK'' @ CRLF @ ''ETag: z'' @ CRLF @ CRLF) responsePool_New) ''etag''
    | Some v \<Rightarrow> v = [] \<or> Response_Header
        (parseHeaders (''HTTP/1.1 200 OK'' @ CRLF @ ''ETag: z'' @ CRLF @ CRLF) responsePool_New) ''etag'' = v)"
  by (rule HeaderBytes_agrees [where statusLine = "''HTTP/1.1 200 OK''" and rest = "''ETag: z'' @ CRLF @ CRLF"]) simp_all

end
