(* ===== verification/NetIO.thy ===== *)
theory NetIO
  imports Errors
begin

text \<open>
  The byte streams the package reads and writes. \<open>io.Reader\<close> is an interface in Go: here its
  Read method is an argument of every function that takes a reader, and the contract those
  functions rely on is the locale \<open>io_reader\<close>. It is interpreted below on the model of a network
  connection, \<open>conn_Read\<close>, and on bufio.Reader over any reader, \<open>bufio_Read\<close>; the theory Streaming
  adds the package's own reader.
  Loops that read until some condition holds need not end on an arbitrary reader, so they are
  option-valued partial functions: \<open>None\<close> is a loop that never returns.
\<close>

type_synonym 'r read_fun = "'r \<Rightarrow> nat \<Rightarrow> bytes \<times> goerror option \<times> 'r"

section \<open>The reader contract\<close>

text \<open>
  \<open>pending r\<close> is the byte sequence the reader has still to deliver, \<open>budget r\<close> bounds the number of
  reads that can succeed, and \<open>safe r n\<close> says that the next \<open>n\<close> bytes arrive without an error and
  without an empty read. How many bytes one read delivers is left open: the laws hold for every
  way the network cuts the stream into segments.
\<close>

locale io_reader =
  fixes read :: "'r read_fun"
    and pending :: "'r \<Rightarrow> bytes"
    and budget :: "'r \<Rightarrow> nat"
    and safe :: "'r \<Rightarrow> nat \<Rightarrow> bool"
  assumes read_bound: "read r k = (d, e, r') \<Longrightarrow> length d \<le> k"
    and read_pending: "read r k = (d, e, r') \<Longrightarrow> pending r = d @ pending r'"
    and read_budget: "read r k = (d, e, r') \<Longrightarrow> 0 < k \<Longrightarrow> e = None \<or> d \<noteq> [] \<Longrightarrow>
      budget r' + length d < budget r"
    and read_budget_le: "read r k = (d, e, r') \<Longrightarrow> budget r' \<le> budget r"
    and read_safe: "safe r n \<Longrightarrow> 0 < n \<Longrightarrow> 0 < k \<Longrightarrow> read r k = (d, e, r') \<Longrightarrow>
      d \<noteq> [] \<and> e = None \<and> safe r' (n - length d)"
    and safe_pending: "safe r n \<Longrightarrow> n \<le> length (pending r)"
    and safe_mono: "safe r n \<Longrightarrow> m \<le> n \<Longrightarrow> safe r m"

context io_reader
begin

lemma read_cases:
  assumes "0 < k"
  obtains (data) d r' where "read r k = (d, None, r')" "length d \<le> k" "pending r = d @ pending r'"
      "budget r' + length d < budget r"
  | (fail) d e r' where "read r k = (d, Some e, r')" "length d \<le> k" "pending r = d @ pending r'"
      "budget r' \<le> budget r"
proof -
  obtain d e r' where r: "read r k = (d, e, r')" by (cases "read r k") auto
  show ?thesis
    using that r assms read_bound [OF r] read_pending [OF r] read_budget [OF r] read_budget_le [OF r]
    by (cases e) auto
qed

lemma read_safe_cases:
  assumes "safe r n" "0 < n" "0 < k"
  obtains d r' where "read r k = (d, None, r')" "d \<noteq> []" "length d \<le> k"
    "pending r = d @ pending r'" "safe r' (n - length d)" "budget r' + length d < budget r"
proof -
  obtain d e r' where r: "read r k = (d, e, r')" by (cases "read r k") auto
  show ?thesis
    using that r read_safe [OF assms r] read_bound [OF r] read_pending [OF r]
      read_budget [OF r assms(3)] by auto
qed

end

section \<open>A network connection\<close>

text \<open>
  What a peer does to a connection is a script: \<open>nc_in\<close> lists the results of the reads to come
  (data, and possibly an error with it), \<open>nc_wr\<close> the results of the writes (None is a complete
  write; \<open>Some (n, e)\<close> a write that fails with \<open>e\<close> after at most \<open>n\<close> bytes). A read with a buffer
  shorter than the next segment leaves the rest of it; after the last segment the peer has
  closed its side. \<open>nc_out\<close> is what the package wrote.
\<close>

record netconn =
  nc_in :: "(bytes \<times> goerror option) list"
  nc_wr :: "(nat \<times> goerror) option list"
  nc_out :: bytes
  nc_closed :: bool

definition closed_error :: goerror where
  "closed_error = NetError False ''use of closed network connection''"

definition conn_Read :: "netconn read_fun" where
  "conn_Read c k =
     (if nc_closed c then ([], Some closed_error, c)
      else case nc_in c of
        [] \<Rightarrow> ([], Some EOF, c)
      | (d, e) # s \<Rightarrow>
          if k < length d then (take k d, None, c\<lparr>nc_in := (drop k d, e) # s\<rparr>)
          else (d, e, c\<lparr>nc_in := s\<rparr>))"

definition conn_Write :: "netconn \<Rightarrow> bytes \<Rightarrow> nat \<times> goerror option \<times> netconn" where
  "conn_Write c p =
     (if nc_closed c then (0, Some closed_error, c)
      else case nc_wr c of
        [] \<Rightarrow> (length p, None, c\<lparr>nc_out := nc_out c @ p\<rparr>)
      | None # s \<Rightarrow> (length p, None, c\<lparr>nc_out := nc_out c @ p, nc_wr := s\<rparr>)
      | Some (n, e) # s \<Rightarrow>
          (min n (length p), Some e, c\<lparr>nc_out := nc_out c @ take n p, nc_wr := s\<rparr>))"

text \<open>SetReadDeadline, SetWriteDeadline and SetDeadline fail on a closed connection only.\<close>

definition conn_SetDeadline :: "netconn \<Rightarrow> goerror option" where
  "conn_SetDeadline c = (if nc_closed c then Some closed_error else None)"

definition conn_Close :: "netconn \<Rightarrow> netconn" where
  "conn_Close c = c\<lparr>nc_closed := True\<rparr>"

definition conn_pending :: "netconn \<Rightarrow> bytes" where
  "conn_pending c = concat (map fst (nc_in c))"

definition conn_budget :: "netconn \<Rightarrow> nat" where
  "conn_budget c = (\<Sum>(d, e) \<leftarrow> nc_in c. 2 * length d + 1)"

fun script_safe :: "(bytes \<times> goerror option) list \<Rightarrow> nat \<Rightarrow> bool" where
  "script_safe [] n = (n = 0)"
| "script_safe ((d, e) # s) n = (n = 0 \<or> d \<noteq> [] \<and> e = None \<and> script_safe s (n - length d))"

definition conn_safe :: "netconn \<Rightarrow> nat \<Rightarrow> bool" where
  "conn_safe c n \<longleftrightarrow> \<not> nc_closed c \<and> script_safe (nc_in c) n"

lemma script_safe_0 [simp]: "script_safe s 0"
  by (cases s) auto

lemma script_safe_mono: "script_safe s n \<Longrightarrow> m \<le> n \<Longrightarrow> script_safe s m"
proof (induction s n arbitrary: m rule: script_safe.induct)
  case (2 d e s n)
  then show ?case
  proof (cases "m = 0")
    case False
    with 2 have "d \<noteq> []" "e = None" "script_safe s (n - length d)" by auto
    with 2 have "script_safe s (m - length d)" by auto
    with \<open>d \<noteq> []\<close> \<open>e = None\<close> show ?thesis by simp
  qed simp
qed simp

lemma script_safe_length: "script_safe s n \<Longrightarrow> n \<le> length (concat (map fst s))"
  by (induction s n rule: script_safe.induct) auto

interpretation net: io_reader conn_Read conn_pending conn_budget conn_safe
proof (unfold_locales, goal_cases)
  case (1 r k d e r')
  then show ?case by (auto simp: conn_Read_def split: if_splits list.splits)
next
  case (2 r k d e r')
  then show ?case by (auto simp: conn_Read_def conn_pending_def split: if_splits list.splits)
next
  case (3 r k d e r')
  then show ?case by (auto simp: conn_Read_def conn_budget_def split: if_splits list.splits)
next
  case (4 r k d e r')
  then show ?case by (auto simp: conn_Read_def conn_budget_def split: if_splits list.splits)
next
  case (5 r n k d e r')
  then show ?case by (auto simp: conn_Read_def conn_safe_def split: if_splits list.splits)
next
  case (6 r n)
  then show ?case using script_safe_length by (auto simp: conn_safe_def conn_pending_def)
next
  case (7 r n m)
  then show ?case using script_safe_mono by (auto simp: conn_safe_def)
qed

section \<open>bufio.Reader\<close>

text \<open>The unread part of the buffer, the error kept for later, the reader below and the buffer's size.\<close>

record 'r bufio =
  b_buf :: bytes
  b_err :: "goerror option"
  b_rd :: 'r
  b_size :: nat

definition NewReaderSize :: "'r \<Rightarrow> nat \<Rightarrow> 'r bufio" where
  "NewReaderSize rd sz = \<lparr>b_buf = [], b_err = None, b_rd = rd, b_size = max sz 16\<rparr>"

definition bufio_Read :: "'r read_fun \<Rightarrow> 'r bufio read_fun" where
  "bufio_Read read b k =
     (if k = 0 then
        (if b_buf b \<noteq> [] then ([], None, b) else ([], b_err b, b\<lparr>b_err := None\<rparr>))
      else if b_buf b = [] then
        (case b_err b of
           Some e \<Rightarrow> ([], Some e, b\<lparr>b_err := None\<rparr>)
         | None \<Rightarrow>
             if b_size b \<le> k then
               (case read (b_rd b) k of (d, e, rd') \<Rightarrow> (d, e, b\<lparr>b_rd := rd'\<rparr>))
             else
               (case read (b_rd b) (b_size b) of (d, e, rd') \<Rightarrow>
                  if d = [] then ([], e, b\<lparr>b_rd := rd'\<rparr>)
                  else (take k d, None, b\<lparr>b_buf := drop k d, b_rd := rd', b_err := e\<rparr>)))
      else (take k (b_buf b), None, b\<lparr>b_buf := drop k (b_buf b)\<rparr>))"

text \<open>The method fill, called on an empty buffer: at most 100 reads that return nothing.\<close>

fun bufio_fill :: "'r read_fun \<Rightarrow> nat \<Rightarrow> 'r bufio \<Rightarrow> 'r bufio" where
  "bufio_fill read 0 b = b\<lparr>b_err := Some NoProgress\<rparr>"
| "bufio_fill read (Suc i) b =
     (case read (b_rd b) (b_size b - length (b_buf b)) of (d, e, rd') \<Rightarrow>
        let b' = b\<lparr>b_rd := rd', b_buf := b_buf b @ d\<rparr> in
        (case e of
           Some er \<Rightarrow> b'\<lparr>b_err := Some er\<rparr>
         | None \<Rightarrow> if d \<noteq> [] then b' else bufio_fill read i b'))"

text \<open>
  ReadByte loops while the buffer is empty and no error is kept; one call of fill makes one of the
  two true (lemma \<open>bufio_fill_progress\<close>), so the last branch is never taken.
\<close>

definition bufio_ReadByte :: "'r read_fun \<Rightarrow> 'r bufio \<Rightarrow> (goerror + byte) \<times> 'r bufio" where
  "bufio_ReadByte read b =
     (let b1 = (if b_buf b = [] \<and> b_err b = None then bufio_fill read 100 b else b) in
      case b_buf b1 of
        c # cs \<Rightarrow> (Inr c, b1\<lparr>b_buf := cs\<rparr>)
      | [] \<Rightarrow> (case b_err b1 of
                Some e \<Rightarrow> (Inl e, b1\<lparr>b_err := None\<rparr>)
              | None \<Rightarrow> (Inl NoProgress, b1)))"

lemma bufio_fill_progress: "b_buf (bufio_fill read i b) \<noteq> [] \<or> b_err (bufio_fill read i b) \<noteq> None"
proof (induction i arbitrary: b)
  case (Suc i)
  obtain d e rd' where r: "read (b_rd b) (b_size b - length (b_buf b)) = (d, e, rd')"
    by (cases "read (b_rd b) (b_size b - length (b_buf b))") auto
  show ?case
    using Suc.IH by (cases e) (auto simp: r Let_def)
qed simp

definition bufio_pending :: "('r \<Rightarrow> bytes) \<Rightarrow> 'r bufio \<Rightarrow> bytes" where
  "bufio_pending pending b = b_buf b @ pending (b_rd b)"

definition bufio_budget :: "('r \<Rightarrow> nat) \<Rightarrow> 'r bufio \<Rightarrow> nat" where
  "bufio_budget budget b = 2 * length (b_buf b) + 2 * budget (b_rd b)"

definition bufio_safe :: "('r \<Rightarrow> nat \<Rightarrow> bool) \<Rightarrow> 'r bufio \<Rightarrow> nat \<Rightarrow> bool" where
  "bufio_safe safe b n \<longleftrightarrow> 0 < b_size b \<and>
     (n \<le> length (b_buf b) \<or> b_err b = None \<and> safe (b_rd b) (n - length (b_buf b)))"

text \<open>A buffered reader over a reader is a reader: the contract is kept by the buffering.\<close>

locale buffered_reader = io_reader

sublocale buffered_reader \<subseteq> buf: io_reader
  "bufio_Read read" "bufio_pending pending" "bufio_budget budget" "bufio_safe safe"
proof (unfold_locales, goal_cases)
  case (1 r k d e r')
  then show ?case
    by (auto simp: bufio_Read_def split: if_splits option.splits prod.splits dest: read_bound)
next
  case (2 r k d e r')
  then show ?case
    by (auto simp: bufio_Read_def bufio_pending_def split: if_splits option.splits prod.splits
        dest: read_pending)
next
  case (3 r k d e r')
  obtain d2 e2 r2 where fill: "read (b_rd r) (b_size r) = (d2, e2, r2)"
    by (cases "read (b_rd r) (b_size r)") auto
  from 3 read_budget [OF fill] show ?case
    by (cases "b_buf r") (auto simp: bufio_Read_def bufio_budget_def min_def fill
        split: if_splits option.splits prod.splits dest: read_budget)
next
  case (4 r k d e r')
  then show ?case
    by (auto simp: bufio_Read_def bufio_budget_def split: if_splits option.splits prod.splits
        dest: read_budget read_budget_le)
next
  case (5 r n k d e r')
  obtain d2 e2 r2 where fill: "read (b_rd r) (b_size r) = (d2, e2, r2)"
    by (cases "read (b_rd r) (b_size r)") auto
  have whole: "min (length x) k + (length x - k) = length x" for x :: bytes by simp
  obtain d3 e3 r3 where direct: "read (b_rd r) k = (d3, e3, r3)"
    by (cases "read (b_rd r) k") auto
  from 5 read_safe [OF _ _ _ fill, of n] read_safe [OF _ _ 5(3) direct, of n] show ?case
    by (auto simp: bufio_Read_def bufio_safe_def fill direct whole
        split: if_splits option.splits prod.splits)
next
  case (6 r n)
  then show ?case
    by (auto simp: bufio_safe_def bufio_pending_def dest: safe_pending)
next
  case (7 r n m)
  then show ?case
    by (auto simp: bufio_safe_def intro: safe_mono)
qed

context buffered_reader
begin

lemma bufio_fill_inv:
  assumes "length (b_buf b) \<le> b_size b"
  shows "bufio_pending pending (bufio_fill read i b) = bufio_pending pending b \<and>
    bufio_budget budget (bufio_fill read i b) \<le> bufio_budget budget b \<and>
    b_size (bufio_fill read i b) = b_size b"
  using assms
proof (induction i arbitrary: b)
  case (Suc i)
  let ?k = "b_size b - length (b_buf b)"
  obtain d e rd' where r: "read (b_rd b) ?k = (d, e, rd')" by (cases "read (b_rd b) ?k") auto
  let ?b = "b\<lparr>b_rd := rd', b_buf := b_buf b @ d\<rparr>"
  have p: "pending (b_rd b) = d @ pending rd'" and l: "length d \<le> ?k"
    using read_pending [OF r] read_bound [OF r] by auto
  have g: "d \<noteq> [] \<Longrightarrow> budget rd' + length d < budget (b_rd b)"
    using read_budget [OF r] l by (cases "?k = 0") auto
  have b: "2 * length d + 2 * budget rd' \<le> 2 * budget (b_rd b)"
    using g read_budget_le [OF r] by (cases "d = []") auto
  have "length (b_buf ?b) \<le> b_size ?b" using l Suc.prems by simp
  note IH = Suc.IH [OF this]
  show ?case
    using p b l Suc.prems IH by (cases e) (auto simp: r Let_def bufio_pending_def bufio_budget_def)
qed (auto simp: bufio_pending_def bufio_budget_def)

lemma ReadByte_data:
  assumes "bufio_ReadByte read b = (Inr c, b')"
  shows "bufio_pending pending b = c # bufio_pending pending b' \<and>
    bufio_budget budget b' < bufio_budget budget b \<and> b_size b' = b_size b"
  using assms bufio_fill_inv [of b 100]
  by (auto simp: bufio_ReadByte_def Let_def bufio_pending_def bufio_budget_def
      split: if_splits list.splits option.splits)

lemma ReadByte_fail:
  assumes "bufio_ReadByte read b = (Inl e, b')"
  shows "bufio_pending pending b = bufio_pending pending b' \<and>
    bufio_budget budget b' \<le> bufio_budget budget b \<and> b_size b' = b_size b"
  using assms bufio_fill_inv [of b 100]
  by (auto simp: bufio_ReadByte_def Let_def bufio_pending_def bufio_budget_def
      split: if_splits list.splits option.splits)

lemma ReadByte_safe:
  assumes "bufio_safe safe b n" "0 < n"
  obtains c b' where "bufio_ReadByte read b = (Inr c, b')" "bufio_safe safe b' (n - 1)"
    "bufio_pending pending b = c # bufio_pending pending b'" "b_size b' = b_size b"
    "bufio_budget budget b' < bufio_budget budget b"
proof -
  have "\<exists>c b'. bufio_ReadByte read b = (Inr c, b') \<and> bufio_safe safe b' (n - 1)"
  proof (cases "b_buf b")
    case Nil
    with assms have e: "b_err b = None" and s: "safe (b_rd b) n" and z: "0 < b_size b"
      by (auto simp: bufio_safe_def)
    obtain d r' where r: "read (b_rd b) (b_size b) = (d, None, r')" "d \<noteq> []" "safe r' (n - length d)"
      by (rule read_safe_cases [OF s assms(2) z])
    then have fill: "bufio_fill read 100 b = b\<lparr>b_rd := r', b_buf := d\<rparr>"
      using Nil by (simp add: numeral_eq_Suc Let_def)
    from r(2) obtain c cs where "d = c # cs" by (cases d) auto
    with fill r Nil e z show ?thesis
      by (auto simp: bufio_ReadByte_def bufio_safe_def)
  next
    case (Cons c cs)
    with assms show ?thesis by (auto simp: bufio_ReadByte_def bufio_safe_def)
  qed
  then show ?thesis using that ReadByte_data by blast
qed

end

interpretation netbuf: buffered_reader conn_Read conn_pending conn_budget conn_safe
  by unfold_locales

section \<open>A peer that closes after its last byte\<close>

text \<open>
  \<open>closing r\<close> says that the stream delivers all its bytes without an error and then ends: the case in
  which a response may be delimited by the end of the connection.
\<close>

locale closing_reader = io_reader +
  fixes closing :: "'a \<Rightarrow> bool"
  assumes closing_data: "closing r \<Longrightarrow> pending r \<noteq> [] \<Longrightarrow> 0 < k \<Longrightarrow> read r k = (d, e, r') \<Longrightarrow>
      d \<noteq> [] \<and> e = None \<and> closing r'"
    and closing_end: "closing r \<Longrightarrow> pending r = [] \<Longrightarrow> 0 < k \<Longrightarrow> read r k = (d, e, r') \<Longrightarrow> e = Some EOF"

definition conn_closing :: "netconn \<Rightarrow> bool" where
  "conn_closing c \<longleftrightarrow> \<not> nc_closed c \<and> list_all (\<lambda>x. fst x \<noteq> [] \<and> snd x = None) (nc_in c)"

interpretation net_closing: closing_reader conn_Read conn_pending conn_budget conn_safe conn_closing
proof (unfold_locales, goal_cases)
  case (1 r k d e r')
  then show ?case
    by (auto simp: conn_Read_def conn_closing_def conn_pending_def split: if_splits list.splits)
next
  case (2 r k d e r')
  then show ?case
    by (auto simp: conn_Read_def conn_closing_def conn_pending_def split: if_splits list.splits)
qed

definition bufio_closing :: "('r \<Rightarrow> bool) \<Rightarrow> 'r bufio \<Rightarrow> bool" where
  "bufio_closing closing b \<longleftrightarrow> 0 < b_size b \<and> b_err b = None \<and> closing (b_rd b)"

locale buffered_closing_reader = buffered_reader + closing_reader

sublocale buffered_closing_reader \<subseteq> bufc: closing_reader
  "bufio_Read read" "bufio_pending pending" "bufio_budget budget" "bufio_safe safe" "bufio_closing closing"
proof (unfold_locales, goal_cases)
  case (1 r k d e r')
  obtain d2 e2 r2 where fill: "read (b_rd r) (b_size r) = (d2, e2, r2)"
    by (cases "read (b_rd r) (b_size r)") auto
  obtain d3 e3 r3 where direct: "read (b_rd r) k = (d3, e3, r3)"
    by (cases "read (b_rd r) k") auto
  from 1 closing_data [OF _ _ _ fill] closing_data [OF _ _ 1(3) direct] show ?case
    by (auto simp: bufio_Read_def bufio_closing_def bufio_pending_def fill direct split: if_splits)
next
  case (2 r k d e r')
  obtain d2 e2 r2 where fill: "read (b_rd r) (b_size r) = (d2, e2, r2)"
    by (cases "read (b_rd r) (b_size r)") auto
  obtain d3 e3 r3 where direct: "read (b_rd r) k = (d3, e3, r3)"
    by (cases "read (b_rd r) k") auto
  from 2 closing_end [OF _ _ _ fill] closing_end [OF _ _ 2(3) direct] read_pending [OF fill] show ?case
    by (auto simp: bufio_Read_def bufio_closing_def bufio_pending_def fill direct split: if_splits)
qed

interpretation netbuf_closing: buffered_closing_reader conn_Read conn_pending conn_budget conn_safe conn_closing
  by unfold_locales

section \<open>Reading an exact number of bytes\<close>

text \<open>
  The loop shared by io.ReadFull and by \<open>readFull\<close> of \<^verbatim>\<open>socks5.go\<close>: read until \<open>k\<close> bytes have
  arrived or a read fails. The data read so far comes first in the result.
\<close>

partial_function (option) read_loop ::
  "'r read_fun \<Rightarrow> 'r \<Rightarrow> nat \<Rightarrow> bytes \<Rightarrow> (bytes \<times> goerror option \<times> 'r) option" where
  "read_loop read r k acc =
     (if k = 0 then Some (acc, None, r)
      else case read r k of (d, e, r') \<Rightarrow>
        (case e of
           Some er \<Rightarrow> Some (acc @ d, Some er, r')
         | None \<Rightarrow> read_loop read r' (k - length d) (acc @ d)))"

definition readFull :: "'r read_fun \<Rightarrow> 'r \<Rightarrow> nat \<Rightarrow> (bytes \<times> goerror option \<times> 'r) option" where
  "readFull read r k = read_loop read r k []"

text \<open>io.ReadFull drops an error that comes with the last byte and renames an early EOF.\<close>

definition ReadFull :: "'r read_fun \<Rightarrow> 'r \<Rightarrow> nat \<Rightarrow> (bytes \<times> goerror option \<times> 'r) option" where
  "ReadFull read r k =
     (case read_loop read r k [] of
        None \<Rightarrow> None
      | Some (acc, e, r') \<Rightarrow>
          Some (acc,
            (if k \<le> length acc then None
             else if acc \<noteq> [] \<and> e = Some EOF then Some UnexpectedEOF else e), r'))"

context io_reader
begin

text \<open>The loop always returns, and returns what the stream holds.\<close>

lemma read_loop_total:
  "\<exists>d e r'. read_loop read r k acc = Some (acc @ d, e, r') \<and> pending r = d @ pending r' \<and>
     length d \<le> k \<and> budget r' \<le> budget r \<and> (e = None \<longleftrightarrow> e = None \<and> length d = k)"
proof (induction "budget r" arbitrary: r k acc rule: less_induct)
  case less
  show ?case
  proof (cases "k = 0")
    case True
    then show ?thesis by (subst read_loop.simps) auto
  next
    case False
    then have "0 < k" by simp
    then show ?thesis
    proof (cases rule: read_cases [of k r])
      case (data d r')
      then have "budget r' < budget r" by simp
      from less [OF this, of "k - length d" "acc @ d"] obtain d' e r2 where
        *: "read_loop read r' (k - length d) (acc @ d) = Some ((acc @ d) @ d', e, r2)"
        "pending r' = d' @ pending r2" "length d' \<le> k - length d" "budget r2 \<le> budget r'"
        "e = None \<longleftrightarrow> e = None \<and> length d' = k - length d" by blast
      have "read_loop read r k acc = Some (acc @ (d @ d'), e, r2)"
        using False data * by (subst read_loop.simps) simp
      moreover have "e = None \<longleftrightarrow> e = None \<and> length (d @ d') = k"
        using * data by auto
      ultimately show ?thesis
        using * data by (intro exI [of _ "d @ d'"] exI [of _ e] exI [of _ r2]) auto
    next
      case (fail d e r')
      then show ?thesis using False by (subst read_loop.simps) auto
    qed
  qed
qed

lemma read_loop_safe:
  "safe r n \<Longrightarrow> k \<le> n \<Longrightarrow>
   \<exists>r'. read_loop read r k acc = Some (acc @ take k (pending r), None, r') \<and>
     pending r' = drop k (pending r) \<and> safe r' (n - k) \<and> budget r' \<le> budget r"
proof (induction "budget r" arbitrary: r n k acc rule: less_induct)
  case less
  show ?case
  proof (cases "k = 0")
    case True
    then show ?thesis using less.prems by (subst read_loop.simps) auto
  next
    case False
    with less.prems have "0 < k" "0 < n" by auto
    obtain d r' where r: "read r k = (d, None, r')" "d \<noteq> []" "length d \<le> k"
      "pending r = d @ pending r'" "safe r' (n - length d)" "budget r' + length d < budget r"
      by (rule read_safe_cases [OF less.prems(1) \<open>0 < n\<close> \<open>0 < k\<close>])
    then have "budget r' < budget r" by simp
    moreover have "k - length d \<le> n - length d" using less.prems by simp
    ultimately obtain r2 where
      *: "read_loop read r' (k - length d) (acc @ d) =
            Some ((acc @ d) @ take (k - length d) (pending r'), None, r2)"
      "pending r2 = drop (k - length d) (pending r')" "safe r2 (n - length d - (k - length d))"
      "budget r2 \<le> budget r'"
      using less.hyps [OF _ r(5), of "k - length d" "acc @ d"] by blast
    then have "read_loop read r k acc = Some (acc @ take k (pending r), None, r2)"
      using False r by (subst read_loop.simps) simp
    moreover have "n - length d - (k - length d) = n - k" using r(3) less.prems by simp
    ultimately show ?thesis
      using r * by (intro exI [of _ r2]) simp
  qed
qed

lemma ReadFull_total: "\<exists>x. ReadFull read r k = Some x"
  using read_loop_total [of r k "[]"] by (auto simp: ReadFull_def)

lemma ReadFull_safe:
  "safe r n \<Longrightarrow> k \<le> n \<Longrightarrow>
   \<exists>r'. ReadFull read r k = Some (take k (pending r), None, r') \<and>
     pending r' = drop k (pending r) \<and> safe r' (n - k)"
  using read_loop_safe [of r n k "[]"] safe_pending [of r n] by (auto simp: ReadFull_def)

text \<open>Success means exactly \<open>k\<close> bytes, the ones the stream held.\<close>

lemma ReadFull_exact:
  "ReadFull read r k = Some (d, None, r') \<Longrightarrow> length d = k \<and> pending r = d @ pending r'"
  using read_loop_total [of r k "[]"] by (auto simp: ReadFull_def split: if_splits)

end

section \<open>Writing\<close>

partial_function (option) writeAll :: "netconn \<Rightarrow> bytes \<Rightarrow> (goerror option \<times> netconn) option" where
  "writeAll c buf =
     (if buf = [] then Some (None, c)
      else case conn_Write c buf of (n, e, c') \<Rightarrow>
        (case e of Some er \<Rightarrow> Some (Some er, c') | None \<Rightarrow> writeAll c' (drop n buf)))"

text \<open>net.Buffers.WriteTo: the buffers in turn, stopping at the first error.\<close>

fun Buffers_WriteTo :: "netconn \<Rightarrow> bytes list \<Rightarrow> goerror option \<times> netconn" where
  "Buffers_WriteTo c [] = (None, c)"
| "Buffers_WriteTo c (b # bs) =
     (case conn_Write c b of (n, e, c') \<Rightarrow>
        (case e of Some er \<Rightarrow> (Some er, c') | None \<Rightarrow> Buffers_WriteTo c' bs))"

definition writeAllBatched :: "netconn \<Rightarrow> bytes \<Rightarrow> bytes \<Rightarrow> (goerror option \<times> netconn) option" where
  "writeAllBatched c header body =
     (if body = [] then writeAll c header else Some (Buffers_WriteTo c [header, body]))"

lemma conn_Write_None:
  "conn_Write c p = (n, None, c') \<Longrightarrow> n = length p \<and> nc_out c' = nc_out c @ p \<and>
     nc_in c' = nc_in c \<and> nc_closed c' = nc_closed c"
  by (auto simp: conn_Write_def split: if_splits list.splits option.splits)

lemma conn_Write_Some:
  "conn_Write c p = (n, Some e, c') \<Longrightarrow>
     \<exists>q. prefix q p \<and> nc_out c' = nc_out c @ q \<and> nc_in c' = nc_in c \<and> nc_closed c' = nc_closed c"
  by (auto simp: conn_Write_def take_is_prefix split: if_splits list.splits option.splits)

text \<open>writeAll returns on every connection, and without an error it has written the whole slice.\<close>

lemma writeAll_result:
  "\<exists>e c' q. writeAll c buf = Some (e, c') \<and> nc_out c' = nc_out c @ q \<and> prefix q buf \<and>
     (e = None \<longrightarrow> q = buf) \<and> nc_in c' = nc_in c \<and> nc_closed c' = nc_closed c"
proof (cases "buf = []")
  case True
  then show ?thesis by (subst writeAll.simps) auto
next
  case False
  obtain n e c' where w: "conn_Write c buf = (n, e, c')" by (cases "conn_Write c buf") auto
  show ?thesis
  proof (cases e)
    case None
    with w conn_Write_None have *: "n = length buf" "nc_out c' = nc_out c @ buf"
      "nc_in c' = nc_in c" "nc_closed c' = nc_closed c" by blast+
    have "writeAll c' [] = Some (None, c')" by (subst writeAll.simps) simp
    then have "writeAll c buf = Some (None, c')"
      using False w None * by (subst writeAll.simps) simp
    with * show ?thesis by auto
  next
    case (Some er)
    with w conn_Write_Some obtain q where "prefix q buf" "nc_out c' = nc_out c @ q"
      "nc_in c' = nc_in c" "nc_closed c' = nc_closed c" by blast
    moreover have "writeAll c buf = Some (Some er, c')"
      using False w Some by (subst writeAll.simps) simp
    ultimately show ?thesis by auto
  qed
qed

lemma Buffers_WriteTo_result:
  "\<exists>e c' q. Buffers_WriteTo c bs = (e, c') \<and> nc_out c' = nc_out c @ q \<and> prefix q (concat bs) \<and>
     (e = None \<longrightarrow> q = concat bs) \<and> nc_in c' = nc_in c \<and> nc_closed c' = nc_closed c"
proof (induction bs arbitrary: c)
  case (Cons b bs)
  obtain n e c' where w: "conn_Write c b = (n, e, c')" by (cases "conn_Write c b") auto
  show ?case
  proof (cases e)
    case None
    with w conn_Write_None have *: "nc_out c' = nc_out c @ b"
      "nc_in c' = nc_in c" "nc_closed c' = nc_closed c" by blast+
    from Cons.IH [of c'] obtain e2 c2 q where
      "Buffers_WriteTo c' bs = (e2, c2)" "nc_out c2 = nc_out c' @ q" "prefix q (concat bs)"
      "e2 = None \<longrightarrow> q = concat bs" "nc_in c2 = nc_in c'" "nc_closed c2 = nc_closed c'" by blast
    with * w None show ?thesis by (intro exI [of _ e2] exI [of _ c2] exI [of _ "b @ q"]) auto
  next
    case (Some er)
    with w conn_Write_Some obtain q where "prefix q b" "nc_out c' = nc_out c @ q"
      "nc_in c' = nc_in c" "nc_closed c' = nc_closed c" by blast
    with w Some show ?thesis by auto
  qed
qed simp

text \<open>On a connection that accepts every write the output is the concatenation.\<close>

definition writable :: "netconn \<Rightarrow> bool" where
  "writable c \<longleftrightarrow> \<not> nc_closed c \<and> (\<forall>w \<in> set (nc_wr c). w = None)"

lemma conn_Write_writable:
  "writable c \<Longrightarrow> \<exists>c'. conn_Write c p = (length p, None, c') \<and> nc_out c' = nc_out c @ p \<and>
     nc_in c' = nc_in c \<and> writable c'"
  by (auto simp: conn_Write_def writable_def split: list.splits option.splits)

lemma Buffers_WriteTo_writable:
  "writable c \<Longrightarrow> \<exists>c'. Buffers_WriteTo c bs = (None, c') \<and> nc_out c' = nc_out c @ concat bs \<and>
     nc_in c' = nc_in c \<and> writable c'"
proof (induction bs arbitrary: c)
  case (Cons b bs)
  from conn_Write_writable [OF Cons.prems, of b] obtain c' where
    c': "conn_Write c b = (length b, None, c')" "nc_out c' = nc_out c @ b" "nc_in c' = nc_in c"
    "writable c'" by blast
  from Cons.IH [OF c'(4)] c' show ?case by auto
qed simp

lemma writeAll_writable:
  "writable c \<Longrightarrow> \<exists>c'. writeAll c p = Some (None, c') \<and> nc_out c' = nc_out c @ p \<and>
     nc_in c' = nc_in c \<and> writable c'"
proof (cases "p = []")
  case False
  assume "writable c"
  from conn_Write_writable [OF this, of p] obtain c' where
    c': "conn_Write c p = (length p, None, c')" "nc_out c' = nc_out c @ p" "nc_in c' = nc_in c"
    "writable c'" by blast
  have "writeAll c' [] = Some (None, c')" by (subst writeAll.simps) simp
  then have "writeAll c p = Some (None, c')"
    using False c' by (subst writeAll.simps) simp
  with c' show ?thesis by blast
next
  case True
  assume "writable c"
  with True show ?thesis by (auto simp: writeAll.simps [of c "[]"])
qed

end
