(* ===== verification/Receive.thy ===== *)
theory Receive
  imports Parser NetIO
begin

text \<open>
  The reading half of \<^verbatim>\<open>parser.go\<close>: a response taken off a reader, in the sequential form
  \<open>readResponse\<close> (which may read past the response) and in the pipelined form
  \<open>readResponseBuffered\<close> (which must not), with the three ways a body is delimited.
  A result is \<open>None\<close> if the code never returns, \<open>Some Panic\<close> if it panics (a slice expression out of
  range), and otherwise \<open>Some (Done (err, resp, r))\<close>: the error returned (None is nil), the Response
  object as the call leaves it and the reader afterwards.
\<close>

section \<open>Header block, sequential\<close>

text \<open>\<open>acc\<close> is \<open>buf[:total]\<close>; \<open>blen\<close> is \<open>len(buf)\<close>. The result pairs \<open>buf[:total]\<close> with headerEnd.\<close>

partial_function (option) read_header ::
  "'r read_fun \<Rightarrow> 'r \<Rightarrow> nat \<Rightarrow> nat \<Rightarrow> bytes \<Rightarrow> ((goerror + bytes \<times> nat) \<times> 'r) option" where
  "read_header read r blen readSize acc =
     (if blen \<le> length acc then Some (Inl ErrHeaderTooLarge, r)
      else case read r (min (blen - length acc) readSize) of (d, e, r') \<Rightarrow>
        (case e of
           Some er \<Rightarrow> Some (Inl er, r')
         | None \<Rightarrow>
             if d = [] then Some (Inl EOF, r')
             else if findHeaderEnd (acc @ d) < 0 then read_header read r' blen readSize (acc @ d)
             else Some (Inr (acc @ d, nat (findHeaderEnd (acc @ d))), r')))"

section \<open>Body of known length\<close>

partial_function (option) read_body ::
  "'r read_fun \<Rightarrow> 'r \<Rightarrow> bytes \<Rightarrow> nat \<Rightarrow> nat \<Rightarrow> nat \<Rightarrow> (goerror option \<times> bytes \<times> nat \<times> 'r) option" where
  "read_body read r buf offset remaining readSize =
     (if remaining = 0 then Some (None, buf, offset, r)
      else case read r (min remaining readSize) of (d, e, r') \<Rightarrow>
        (case e of
           Some er \<Rightarrow> Some (Some er, blit buf offset d, offset, r')
         | None \<Rightarrow>
             if d = [] then Some (Some EOF, buf, offset, r')
             else read_body read r' (blit buf offset d) (offset + length d) (remaining - length d) readSize))"

section \<open>Chunked body\<close>

text \<open>
  The closures of readChunkedBody share the reader and the bytes \<open>lo\<close> that came with the header
  block and have not been used yet.
\<close>

partial_function (option) read_byte_loop :: "'r read_fun \<Rightarrow> 'r \<Rightarrow> ((goerror + byte) \<times> 'r) option" where
  "read_byte_loop read r =
     (case read r 1 of (d, e, r') \<Rightarrow>
        (case d of
           b # _ \<Rightarrow> Some (Inr b, r')
         | [] \<Rightarrow> (case e of Some er \<Rightarrow> Some (Inl er, r') | None \<Rightarrow> read_byte_loop read r')))"

definition readByte :: "'r read_fun \<Rightarrow> 'r \<Rightarrow> bytes \<Rightarrow> ((goerror + byte) \<times> bytes \<times> 'r) option" where
  "readByte read r lo =
     (case lo of
        b # bs \<Rightarrow> Some (Inr b, bs, r)
      | [] \<Rightarrow> map_option (\<lambda>(x, r'). (x, [], r')) (read_byte_loop read r))"

text \<open>\<open>lineBuf\<close> holds 64 bytes; what does not fit is dropped.\<close>

definition strip_cr :: "bytes \<Rightarrow> bytes" where
  "strip_cr l = (if l \<noteq> [] \<and> last l = CR then butlast l else l)"

partial_function (option) readLine ::
  "'r read_fun \<Rightarrow> 'r \<Rightarrow> bytes \<Rightarrow> bytes \<Rightarrow> ((goerror + bytes) \<times> bytes \<times> 'r) option" where
  "readLine read r lo line =
     Option.bind (readByte read r lo) (\<lambda>(x, lo', r').
       case x of
         Inl er \<Rightarrow> Some (Inl er, lo', r')
       | Inr b \<Rightarrow>
           if b = LF then Some (Inr (strip_cr line), lo', r')
           else readLine read r' lo' (if length line < 64 then line @ [b] else line))"

partial_function (option) read_exact_loop ::
  "'r read_fun \<Rightarrow> 'r \<Rightarrow> nat \<Rightarrow> bytes \<Rightarrow> (goerror option \<times> bytes \<times> 'r) option" where
  "read_exact_loop read r k acc =
     (if k = 0 then Some (None, acc, r)
      else case read r k of (d, e, r') \<Rightarrow>
        if d \<noteq> [] then read_exact_loop read r' (k - length d) (acc @ d)
        else (case e of Some er \<Rightarrow> Some (Some er, acc, r') | None \<Rightarrow> read_exact_loop read r' k acc))"

definition readExact ::
  "'r read_fun \<Rightarrow> 'r \<Rightarrow> bytes \<Rightarrow> nat \<Rightarrow> (goerror option \<times> bytes \<times> bytes \<times> 'r) option" where
  "readExact read r lo k =
     map_option (\<lambda>(e, d, r'). (e, d, drop k lo, r'))
       (read_exact_loop read r (k - length lo) (take k lo))"

text \<open>Trailers are read to the blank line; an error ends the loop and is dropped.\<close>

partial_function (option) drain_trailers :: "'r read_fun \<Rightarrow> 'r \<Rightarrow> bytes \<Rightarrow> (bytes \<times> 'r) option" where
  "drain_trailers read r lo =
     Option.bind (readLine read r lo []) (\<lambda>(x, lo', r').
       case x of
         Inl _ \<Rightarrow> Some (lo', r')
       | Inr line \<Rightarrow> if line = [] then Some (lo', r') else drain_trailers read r' lo')"

definition chunk_line :: "bytes \<Rightarrow> int option" where
  "chunk_line line = ParseInt 16 (takeWhile (\<lambda>c. c \<noteq> CHR '';'') line)"

definition invalid_chunk :: goerror where
  "invalid_chunk = WrapError ErrorTypeProtocol ''invalid chunk size'' ErrInvalidResponse"

text \<open>
  The chunk loop. \<open>hi\<close> is the 64-bit sum \<open>bodyLen+chunkSize\<close>; the slice \<open>bodyBuf[bodyLen:hi]\<close> panics
  unless \<open>bodyLen \<le> hi \<le> len(bodyBuf)\<close>.
\<close>

partial_function (option) chunk_loop ::
  "'r read_fun \<Rightarrow> 'r \<Rightarrow> bytes \<Rightarrow> Response \<Rightarrow> nat \<Rightarrow> int \<Rightarrow>
   (goerror option \<times> nat \<times> Response \<times> 'r) outcome option" where
  "chunk_loop read r lo resp bodyLen maxBody =
     Option.bind (readLine read r lo []) (\<lambda>(x, lo1, r1).
       case x of
         Inl er \<Rightarrow> Some (Done (Some er, bodyLen, resp, r1))
       | Inr line \<Rightarrow>
         (case chunk_line line of
            None \<Rightarrow> Some (Done (Some invalid_chunk, bodyLen, resp, r1))
          | Some chunkSize \<Rightarrow>
              if chunkSize < 0 then Some (Done (Some invalid_chunk, bodyLen, resp, r1))
              else if chunkSize = 0 then
                Option.bind (drain_trailers read r1 lo1) (\<lambda>(lo2, r2).
                  Some (Done (None, bodyLen, resp, r2)))
              else
                (let hi = i64 (int bodyLen + chunkSize) in
                 if maxBody > 0 \<and> hi > maxBody then
                   Some (Done (Some ErrResponseTooLarge, bodyLen, resp, r1))
                 else
                   (case ensureBufferSize resp hi of (ok, resp1) \<Rightarrow>
                      if \<not> ok then Some (Done (Some ErrResponseTooLarge, bodyLen, resp1, r1))
                      else if hi < int bodyLen \<or> int (length (bodyBuf resp1)) < hi then Some Panic
                      else
                        Option.bind (readExact read r1 lo1 (nat chunkSize)) (\<lambda>(e, d, lo2, r2).
                          let resp2 = resp1\<lparr>bodyBuf := blit (bodyBuf resp1) bodyLen d\<rparr> in
                          case e of
                            Some er \<Rightarrow> Some (Done (Some er, bodyLen, resp2, r2))
                          | None \<Rightarrow>
                              Option.bind (readLine read r2 lo2 []) (\<lambda>(_, lo3, r3).
                                chunk_loop read r3 lo3 resp2 (bodyLen + nat chunkSize) maxBody))))))"

definition readChunkedBody ::
  "'r read_fun \<Rightarrow> 'r \<Rightarrow> bytes \<Rightarrow> Response \<Rightarrow> int \<Rightarrow> (goerror option \<times> Response \<times> 'r) outcome option" where
  "readChunkedBody read r leftover resp maxBody =
     map_option (\<lambda>out.
       case out of
         Panic \<Rightarrow> Panic
       | Done (Some e, _, resp1, r1) \<Rightarrow> Done (Some e, resp1, r1)
       | Done (None, bodyLen, resp1, r1) \<Rightarrow>
           Done (None, resp1\<lparr>ContentLength := int bodyLen, Body := OwnBuf bodyLen\<rparr>, r1))
     (chunk_loop read r leftover resp 0 maxBody)"

section \<open>Body delimited by the end of the stream\<close>

definition eof_required :: "nat \<Rightarrow> nat \<Rightarrow> int \<Rightarrow> int" where
  "eof_required offset readSize maxBody =
     (let requiredSize = i64 (int offset + int readSize)
      in if maxBody > 0 \<and> requiredSize > maxBody then maxBody else requiredSize)"

definition eof_to_read :: "nat \<Rightarrow> nat \<Rightarrow> nat \<Rightarrow> int \<Rightarrow> nat" where
  "eof_to_read len offset readSize maxBody =
     (let toRead = min (len - offset) readSize
      in if maxBody > 0 \<and> int toRead > maxBody - int offset then nat (maxBody - int offset) else toRead)"

partial_function (option) until_eof_loop ::
  "'r read_fun \<Rightarrow> 'r \<Rightarrow> Response \<Rightarrow> nat \<Rightarrow> int \<Rightarrow> nat \<Rightarrow>
   (goerror option \<times> nat \<times> Response \<times> 'r) option" where
  "until_eof_loop read r resp offset maxBody readSize =
     (if maxBody > 0 \<and> int offset \<ge> maxBody then Some (Some ErrResponseTooLarge, offset, resp, r)
      else
        (case ensureBufferSize resp (eof_required offset readSize maxBody) of (ok, resp1) \<Rightarrow>
           if \<not> ok \<and> length (bodyBuf resp1) \<le> offset then
             Some (Some ErrResponseTooLarge, offset, resp1, r)
           else if eof_to_read (length (bodyBuf resp1)) offset readSize maxBody = 0 then
             Some (None, offset, resp1, r)
           else
             (case read r (eof_to_read (length (bodyBuf resp1)) offset readSize maxBody) of (d, e, r') \<Rightarrow>
                (let resp2 = resp1\<lparr>bodyBuf := blit (bodyBuf resp1) offset d\<rparr> in
                 case e of
                   Some er \<Rightarrow>
                     if er = EOF then Some (None, offset, resp2, r')
                     else Some (Some er, offset, resp2, r')
                 | None \<Rightarrow>
                     if d = [] then Some (None, offset, resp2, r')
                     else until_eof_loop read r' resp2 (offset + length d) maxBody readSize))))"

definition body_read_size :: "int \<Rightarrow> nat" where
  "body_read_size n = (if n \<le> 0 then 65536 else nat n)"

definition readResponseUntilEOF ::
  "'r read_fun \<Rightarrow> 'r \<Rightarrow> bytes \<Rightarrow> bytes \<Rightarrow> Response \<Rightarrow> int \<Rightarrow> int \<Rightarrow>
   (goerror option \<times> Response \<times> 'r) option" where
  "readResponseUntilEOF read r head leftover resp maxBody bodyReadSize =
     (let resp0 = parseHeaders head (resp\<lparr>StatusCode := fst (parseStatusCode head)\<rparr>);
          (resp1, bodyInBuf) =
            (if leftover \<noteq> [] then
               (case ensureBufferSize resp0 (int (length leftover)) of (ok, resp1) \<Rightarrow>
                  let n = (if ok then length leftover else length (bodyBuf resp1))
                  in (resp1\<lparr>bodyBuf := blit (bodyBuf resp1) 0 (take n leftover)\<rparr>, n))
             else (resp0, 0))
      in map_option (\<lambda>(e, offset, resp2, r').
           case e of
             Some er \<Rightarrow> (Some er, resp2, r')
           | None \<Rightarrow> (None, resp2\<lparr>ContentLength := int offset, Body := OwnBuf offset\<rparr>, r'))
         (until_eof_loop read r resp1 bodyInBuf maxBody (body_read_size bodyReadSize)))"

section \<open>Decompression\<close>

text \<open>
  compress/gzip is a parameter: what \<open>gzip.NewReader\<close> and \<open>io.ReadAll\<close> make of the compressed bytes.
\<close>

datatype gunzip_result = GzInitErr goerror | GzReadErr goerror | GzOk bytes

text \<open>
  strings.EqualFold against these two names is ASCII folding: simple Unicode folding adds code points
  only to the letters k and s, which neither name contains.
\<close>

definition is_gzip :: "Header list \<Rightarrow> bool" where
  "is_gzip hs \<longleftrightarrow> list_ex (\<lambda>h. fold_eq (Key h) ''Content-Encoding'' \<and> fold_eq (TrimSpace (Value h)) ''gzip'') hs"

definition decompressBody :: "(bytes \<Rightarrow> gunzip_result) \<Rightarrow> Response \<Rightarrow> goerror option \<times> Response" where
  "decompressBody gunzip resp =
     (if Body_bytes resp = [] then (None, resp)
      else if \<not> is_gzip (Headers resp) then (None, resp)
      else
        (case gunzip (Body_bytes resp) of
           GzInitErr e \<Rightarrow> (Some (WrapError ErrorTypeProtocol ''gzip reader init failed'' e), resp)
         | GzReadErr e \<Rightarrow> (Some (WrapError ErrorTypeProtocol ''gzip decompression failed'' e), resp)
         | GzOk decompressed \<Rightarrow>
             (case ensureBufferSize resp (int (length decompressed)) of (ok, resp1) \<Rightarrow>
                let decompressed = (if ok then decompressed else take (length (bodyBuf resp1)) decompressed)
                in (None, resp1\<lparr>bodyBuf := blit (bodyBuf resp1) 0 decompressed,
                          Body := OwnBuf (length decompressed),
                          ContentLength := int (length decompressed)\<rparr>))))"

section \<open>readResponse\<close>

definition bad_status :: goerror where
  "bad_status = WrapError ErrorTypeProtocol ''failed to parse status code'' ErrInvalidResponse"

definition incomplete_body :: goerror where
  "incomplete_body = WrapError ErrorTypeProtocol ''incomplete body read'' ErrInvalidResponse"

text \<open>Responses that have no body whatever their headers say.\<close>

definition no_body :: "bytes \<Rightarrow> int \<Rightarrow> bool" where
  "no_body meth status \<longleftrightarrow> meth = ''HEAD'' \<or> status = 204 \<or> status = 304 \<or> status = 101"

definition finish_no_body :: "bytes \<Rightarrow> int \<Rightarrow> Response \<Rightarrow> Response" where
  "finish_no_body head status resp =
     (parseHeaders head (resp\<lparr>StatusCode := status, ContentLength := 0\<rparr>))\<lparr>Body := OwnBuf 0\<rparr>"

text \<open>The Content-Length branch of readResponse, from the comparison with maxBody on.\<close>

definition read_sized_body ::
  "'r read_fun \<Rightarrow> 'r \<Rightarrow> bytes \<Rightarrow> bytes \<Rightarrow> int \<Rightarrow> int \<Rightarrow> Response \<Rightarrow> int \<Rightarrow> int \<Rightarrow>
   (goerror option \<times> Response \<times> 'r) outcome option" where
  "read_sized_body read r head leftover status len resp maxBody bodyReadSize =
     (if len > maxBody then Some (Done (Some ErrResponseTooLarge, resp, r))
      else
        (let resp0 = parseHeaders head (resp\<lparr>StatusCode := status, ContentLength := len\<rparr>) in
         if len = 0 then Some (Done (None, resp0\<lparr>Body := OwnBuf 0\<rparr>, r))
         else
           (case ensureBufferSize resp0 len of (ok, resp1) \<Rightarrow>
              if \<not> ok then Some (Done (Some ErrResponseTooLarge, resp1, r))
              else if len < 0 then Some Panic
              else
                (let resp2 = resp1\<lparr>Body := OwnBuf (nat len)\<rparr>;
                     inBuf = min (length leftover) (nat len);
                     buf = blit (bodyBuf resp2) 0 (take inBuf leftover)
                 in map_option (\<lambda>(e, buf', offset, r').
                      Done (case e of
                              Some er \<Rightarrow> Some er
                            | None \<Rightarrow> if int offset \<noteq> len then Some incomplete_body else None,
                            resp2\<lparr>bodyBuf := buf'\<rparr>, r'))
                    (read_body read r buf inBuf (nat len - inBuf) (body_read_size bodyReadSize))))))"

definition readResponse ::
  "'r read_fun \<Rightarrow> 'r \<Rightarrow> nat \<Rightarrow> Response \<Rightarrow> int \<Rightarrow> bytes \<Rightarrow> int \<Rightarrow> int \<Rightarrow>
   (goerror option \<times> Response \<times> 'r) outcome option" where
  "readResponse read r blen resp maxBody meth headerReadSize bodyReadSize =
     (if headerReadSize < 0 \<and> 0 < blen then Some Panic
      else Option.bind (read_header read r blen (nat headerReadSize) []) (\<lambda>(x, r1).
        case x of
          Inl er \<Rightarrow> Some (Done (Some er, resp, r1))
        | Inr (buf, headerEnd) \<Rightarrow>
            (let head = take headerEnd buf;
                 leftover = drop headerEnd buf;
                 (status, ok) = parseStatusCode head
             in
             if \<not> ok then Some (Done (Some bad_status, resp, r1))
             else if no_body meth status then Some (Done (None, finish_no_body head status resp, r1))
             else if parseTransferEncoding head then
               readChunkedBody read r1 leftover (parseHeaders head (resp\<lparr>StatusCode := status\<rparr>)) maxBody
             else
               (case parseContentLength head of (len, hasLen) \<Rightarrow>
                  if \<not> hasLen then
                    map_option Done (readResponseUntilEOF read r1 head leftover resp maxBody bodyReadSize)
                  else read_sized_body read r1 head leftover status len resp maxBody bodyReadSize))))"

section \<open>readResponseBuffered\<close>

text \<open>
  The byte-wise header loop: \<open>scratch[:total]\<close> is \<open>acc\<close>, \<open>slen\<close> is \<open>len(scratch)\<close>. It reads no further than the
  blank line, so that the next response of a pipelined connection stays in the reader.
\<close>

definition ends_header :: "bytes \<Rightarrow> bool" where
  "ends_header s \<longleftrightarrow> 4 \<le> length s \<and> drop (length s - 4) s = [CR, LF, CR, LF]"

partial_function (option) scan_header ::
  "'r read_fun \<Rightarrow> 'r bufio \<Rightarrow> nat \<Rightarrow> bytes \<Rightarrow> ((goerror + bytes) \<times> 'r bufio) option" where
  "scan_header read br slen acc =
     (if slen \<le> length acc then Some (Inl ErrHeaderTooLarge, br)
      else case bufio_ReadByte read br of (x, br') \<Rightarrow>
        (case x of
           Inl er \<Rightarrow> Some (Inl er, br')
         | Inr b \<Rightarrow>
             if ends_header (acc @ [b]) then Some (Inr (acc @ [b]), br')
             else scan_header read br' slen (acc @ [b])))"

text \<open>The tail shared by the three branches: decompress if the body was read without error.\<close>

definition then_decompress ::
  "(bytes \<Rightarrow> gunzip_result) \<Rightarrow> goerror option \<times> Response \<times> 'r \<Rightarrow> goerror option \<times> Response \<times> 'r" where
  "then_decompress gunzip x =
     (case x of
        (Some e, resp, r) \<Rightarrow> (Some e, resp, r)
      | (None, resp, r) \<Rightarrow> (case decompressBody gunzip resp of (e, resp') \<Rightarrow> (e, resp', r)))"

fun outcome_map :: "('a \<Rightarrow> 'b) \<Rightarrow> 'a outcome \<Rightarrow> 'b outcome" where
  "outcome_map f (Done x) = Done (f x)"
| "outcome_map f Panic = Panic"

definition read_sized_buffered ::
  "'r read_fun \<Rightarrow> (bytes \<Rightarrow> gunzip_result) \<Rightarrow> 'r bufio \<Rightarrow> bytes \<Rightarrow> int \<Rightarrow> int \<Rightarrow> Response \<Rightarrow> int \<Rightarrow>
   (goerror option \<times> Response \<times> 'r bufio) outcome option" where
  "read_sized_buffered read gunzip br head status len resp maxBody =
     (if maxBody > 0 \<and> len > maxBody then Some (Done (Some ErrResponseTooLarge, resp, br))
      else
        (let resp0 = parseHeaders head (resp\<lparr>StatusCode := status, ContentLength := len\<rparr>) in
         if len = 0 then Some (Done (None, resp0\<lparr>Body := OwnBuf 0\<rparr>, br))
         else
           (case ensureBufferSize resp0 len of (ok, resp1) \<Rightarrow>
              if \<not> ok then Some (Done (Some ErrResponseTooLarge, resp1, br))
              else if len < 0 then Some Panic
              else
                map_option (\<lambda>(d, e, br').
                  Done (then_decompress gunzip
                    (e, resp1\<lparr>Body := OwnBuf (nat len), bodyBuf := blit (bodyBuf resp1) 0 d\<rparr>, br')))
                (ReadFull (bufio_Read read) br (nat len)))))"

definition readResponseBuffered ::
  "'r read_fun \<Rightarrow> (bytes \<Rightarrow> gunzip_result) \<Rightarrow> 'r bufio \<Rightarrow> nat \<Rightarrow> Response \<Rightarrow> int \<Rightarrow> bytes \<Rightarrow>
   (goerror option \<times> Response \<times> 'r bufio) outcome option" where
  "readResponseBuffered read gunzip br slen resp maxBody meth =
     Option.bind (scan_header read br slen []) (\<lambda>(x, br1).
       case x of
         Inl er \<Rightarrow> Some (Done (Some er, resp, br1))
       | Inr head \<Rightarrow>
           (case parseStatusCode head of (status, ok) \<Rightarrow>
              if \<not> ok then Some (Done (Some bad_status, resp, br1))
              else if no_body meth status then Some (Done (None, finish_no_body head status resp, br1))
              else if parseTransferEncoding head then
                map_option (outcome_map (then_decompress gunzip))
                  (readChunkedBody (bufio_Read read) br1 [] (parseHeaders head (resp\<lparr>StatusCode := status\<rparr>)) maxBody)
              else
                (case parseContentLength head of (len, hasLen) \<Rightarrow>
                   if \<not> hasLen then
                     map_option (\<lambda>x. Done (then_decompress gunzip x))
                       (readResponseUntilEOF (bufio_Read read) br1 head [] resp maxBody 65536)
                   else read_sized_buffered read gunzip br1 head status len resp maxBody)))"

end
