(* ===== verification/Framing.thy ===== *)
theory Framing
  imports Receive
begin

text \<open>
  What the reading half of \<^verbatim>\<open>parser.go\<close> guarantees, over any reader that satisfies the contract
  \<open>io_reader\<close>: every loop returns, and on a stream that holds a well-formed response the loops deliver
  exactly that response, however the network cuts it into segments. The reader's unread bytes are
  \<open>lo @ pending r\<close>, the bytes left over from the header block followed by those of the stream.
\<close>

context io_reader
begin

section \<open>Every loop returns\<close>

lemma read_header_total: "\<exists>x. read_header read r blen k acc = Some x"
proof (induction "budget r" arbitrary: r acc rule: less_induct)
  case less
  show ?case
  proof (cases "length acc < blen \<and> 0 < k")
    case True
    then have "0 < min (blen - length acc) k" by simp
    then show ?thesis
    proof (cases rule: read_cases [of _ r])
      case (data d r')
      then have "budget r' < budget r" by simp
      from less [OF this] data show ?thesis by (subst read_header.simps) auto
    next
      case (fail d e r')
      then show ?thesis by (subst read_header.simps) auto
    qed
  next
    case False
    obtain d e r' where r: "read r 0 = (d, e, r')" by (cases "read r 0") auto
    then have "d = []" using read_bound [OF r] by simp
    with False r show ?thesis by (subst read_header.simps) (auto split: option.splits)
  qed
qed

lemma read_body_total: "0 < k \<Longrightarrow> \<exists>x. read_body read r buf off rem k = Some x"
proof (induction "budget r" arbitrary: r buf off rem rule: less_induct)
  case less
  show ?case
  proof (cases "0 < min rem k")
    case True
    then show ?thesis
    proof (cases rule: read_cases [of _ r])
      case (data d r')
      then have "budget r' < budget r" by simp
      from less.hyps [OF this less.prems] data show ?thesis by (subst read_body.simps) auto
    next
      case (fail d e r')
      then show ?thesis by (subst read_body.simps) auto
    qed
  next
    case False
    with less.prems show ?thesis by (subst read_body.simps) auto
  qed
qed

lemma read_byte_loop_total:
  "\<exists>x r'. read_byte_loop read r = Some (x, r') \<and> budget r' \<le> budget r \<and>
     (\<forall>b. x = Inr b \<longrightarrow> pending r = b # pending r' \<and> budget r' < budget r)"
proof (induction "budget r" arbitrary: r rule: less_induct)
  case less
  obtain d e r' where r: "read r 1 = (d, e, r')" by (cases "read r 1") auto
  note facts = read_bound [OF r] read_pending [OF r] read_budget [OF r] read_budget_le [OF r]
  consider (byte) b where "d = [b]" | (none) "d = []"
    using facts(1) by (cases d) auto
  then show ?case
  proof cases
    case byte
    with r facts show ?thesis by (subst read_byte_loop.simps) auto
  next
    case none
    show ?thesis
    proof (cases e)
      case None
      with facts have "budget r' < budget r" by auto
      from less [OF this] obtain x r2 where
        "read_byte_loop read r' = Some (x, r2)" "budget r2 \<le> budget r'"
        "\<forall>b. x = Inr b \<longrightarrow> pending r' = b # pending r2 \<and> budget r2 < budget r'" by blast
      with none None r facts show ?thesis by (subst read_byte_loop.simps) auto
    next
      case (Some er)
      with none r facts show ?thesis by (subst read_byte_loop.simps) auto
    qed
  qed
qed

lemma readByte_total:
  "\<exists>x lo' r'. readByte read r lo = Some (x, lo', r') \<and>
     length lo' + budget r' \<le> length lo + budget r \<and>
     (\<forall>b. x = Inr b \<longrightarrow> lo @ pending r = b # lo' @ pending r' \<and>
        length lo' + budget r' < length lo + budget r)"
proof (cases lo)
  case Nil
  obtain x r' where "read_byte_loop read r = Some (x, r')" "budget r' \<le> budget r"
    "\<forall>b. x = Inr b \<longrightarrow> pending r = b # pending r' \<and> budget r' < budget r"
    using read_byte_loop_total by blast
  with Nil show ?thesis by (simp add: readByte_def)
qed (simp add: readByte_def)

lemma readLine_total:
  "\<exists>x lo' r'. readLine read r lo line = Some (x, lo', r') \<and>
     length lo' + budget r' \<le> length lo + budget r \<and>
     (\<forall>l. x = Inr l \<longrightarrow> length lo' + budget r' < length lo + budget r)"
proof (induction "length lo + budget r" arbitrary: lo r line rule: less_induct)
  case less
  obtain x lo' r' where b: "readByte read r lo = Some (x, lo', r')"
    "length lo' + budget r' \<le> length lo + budget r"
    "\<forall>b. x = Inr b \<longrightarrow> length lo' + budget r' < length lo + budget r"
    using readByte_total by blast
  show ?case
  proof (cases x)
    case (Inl e)
    with b show ?thesis by (subst readLine.simps) simp
  next
    case (Inr c)
    with b have "length lo' + budget r' < length lo + budget r" by simp
    note IH = less [OF this, of "if length line < 64 then line @ [c] else line"]
    show ?thesis
    proof (cases "c = LF")
      case True
      with Inr b show ?thesis by (subst readLine.simps) simp
    next
      case False
      from IH obtain x2 lo2 r2 where
        "readLine read r' lo' (if length line < 64 then line @ [c] else line) = Some (x2, lo2, r2)"
        "length lo2 + budget r2 \<le> length lo' + budget r'" by blast
      with False Inr b show ?thesis by (subst readLine.simps) auto
    qed
  qed
qed

lemma read_exact_loop_total:
  "\<exists>e d r'. read_exact_loop read r k acc = Some (e, acc @ d, r') \<and> budget r' \<le> budget r \<and>
     length d \<le> k \<and> pending r = d @ pending r' \<and> (e = None \<longrightarrow> length d = k)"
proof (induction "budget r" arbitrary: r k acc rule: less_induct)
  case less
  show ?case
  proof (cases "k = 0")
    case True
    then show ?thesis by (subst read_exact_loop.simps) auto
  next
    case False
    obtain d e r' where r: "read r k = (d, e, r')" by (cases "read r k") auto
    note facts = read_bound [OF r] read_pending [OF r] read_budget [OF r] read_budget_le [OF r]
    show ?thesis
    proof (cases "d = [] \<and> e \<noteq> None")
      case True
      with False r facts show ?thesis by (subst read_exact_loop.simps) auto
    next
      case go: False
      with False facts have "budget r' < budget r" by auto
      from less [OF this, of "k - length d" "acc @ d"] obtain e2 d2 r2 where
        "read_exact_loop read r' (k - length d) (acc @ d) = Some (e2, (acc @ d) @ d2, r2)"
        "budget r2 \<le> budget r'" "length d2 \<le> k - length d" "pending r' = d2 @ pending r2"
        "e2 = None \<longrightarrow> length d2 = k - length d" by blast
      with go False r facts show ?thesis
        by (subst read_exact_loop.simps)
          (auto intro!: exI [of _ "d @ d2"] split: option.splits)
    qed
  qed
qed

lemma readExact_total:
  "\<exists>e d lo' r'. readExact read r lo k = Some (e, d, lo', r') \<and> length d \<le> k \<and>
     length lo' + budget r' \<le> length lo + budget r \<and> (e = None \<longrightarrow> length d = k) \<and>
     lo @ pending r = d @ lo' @ pending r'"
proof -
  obtain e d r' where "read_exact_loop read r (k - length lo) (take k lo) = Some (e, take k lo @ d, r')"
    "budget r' \<le> budget r" "length d \<le> k - length lo" "pending r = d @ pending r'"
    "e = None \<longrightarrow> length d = k - length lo"
    using read_exact_loop_total by blast
  moreover from this have "drop k lo = [] \<or> d = []" by (cases "k \<le> length lo") auto
  ultimately show ?thesis
    by (auto simp: readExact_def simp flip: append_assoc)
qed

lemma drain_trailers_total: "\<exists>x. drain_trailers read r lo = Some x"
proof (induction "length lo + budget r" arbitrary: lo r rule: less_induct)
  case less
  obtain x lo' r' where l: "readLine read r lo [] = Some (x, lo', r')"
    "\<forall>l. x = Inr l \<longrightarrow> length lo' + budget r' < length lo + budget r"
    using readLine_total by blast
  show ?case
  proof (cases x)
    case (Inr line)
    with l have "length lo' + budget r' < length lo + budget r" by simp
    from less [OF this] Inr l show ?thesis by (subst drain_trailers.simps) auto
  qed (use l in \<open>subst drain_trailers.simps, auto\<close>)
qed

lemma chunk_loop_total: "\<exists>x. chunk_loop read r lo resp n maxBody = Some x"
proof (induction "length lo + budget r" arbitrary: lo r resp n rule: less_induct)
  case less
  obtain x lo1 r1 where l: "readLine read r lo [] = Some (x, lo1, r1)"
    "\<forall>l. x = Inr l \<longrightarrow> length lo1 + budget r1 < length lo + budget r"
    using readLine_total by blast
  have next_chunk: "\<exists>y. Option.bind (readExact read r1 lo1 k) (\<lambda>(e, d, lo2, r2).
      let resp2 = resp1\<lparr>bodyBuf := blit (bodyBuf resp1) n d\<rparr> in
      case e of
        Some er \<Rightarrow> Some (Done (Some er, n, resp2, r2))
      | None \<Rightarrow> Option.bind (readLine read r2 lo2 []) (\<lambda>(_, lo3, r3).
          chunk_loop read r3 lo3 resp2 (n + k) maxBody)) = Some y"
    if "length lo1 + budget r1 < length lo + budget r" for k resp1
  proof -
    obtain e d lo2 r2 where x: "readExact read r1 lo1 k = Some (e, d, lo2, r2)"
      "length lo2 + budget r2 \<le> length lo1 + budget r1" using readExact_total by blast
    obtain y lo3 r3 where y: "readLine read r2 lo2 [] = Some (y, lo3, r3)"
      "length lo3 + budget r3 \<le> length lo2 + budget r2" using readLine_total by blast
    have "length lo3 + budget r3 < length lo + budget r" using that x y by simp
    from less [OF this] show ?thesis using x y by (cases e) (auto simp: Let_def)
  qed
  show ?case
  proof (cases x)
    case (Inl e)
    with l show ?thesis by (subst chunk_loop.simps) simp
  next
    case (Inr line)
    with l(2) next_chunk drain_trailers_total [of r1 lo1] show ?thesis
      by (subst chunk_loop.simps)
        (auto simp: l(1) Let_def split: option.splits prod.splits sum.splits)
  qed
qed

lemma until_eof_loop_total: "\<exists>x. until_eof_loop read r resp off maxBody k = Some x"
proof (induction "budget r" arbitrary: r resp off rule: less_induct)
  case less
  obtain ok resp1 where e: "ensureBufferSize resp (eof_required off k maxBody) = (ok, resp1)"
    by (cases "ensureBufferSize resp (eof_required off k maxBody)")
  let ?n = "eof_to_read (length (bodyBuf resp1)) off k maxBody"
  show ?case
  proof (cases "0 < ?n")
    case True
    then show ?thesis
    proof (cases rule: read_cases [of _ r])
      case (data d r')
      then have "budget r' < budget r" by simp
      from less [OF this] data e show ?thesis by (subst until_eof_loop.simps) (simp add: Let_def)
    next
      case (fail d er r')
      with e show ?thesis by (subst until_eof_loop.simps) (simp add: Let_def)
    qed
  next
    case False
    with e show ?thesis by (subst until_eof_loop.simps) simp
  qed
qed

lemma readChunkedBody_total: "readChunkedBody read r lo resp maxBody \<noteq> None"
  using chunk_loop_total [of r lo resp 0 maxBody] by (auto simp: readChunkedBody_def)

lemma readResponseUntilEOF_total: "readResponseUntilEOF read r head lo resp maxBody k \<noteq> None"
proof -
  have "until_eof_loop read r resp1 n maxBody (body_read_size k) \<noteq> None" for resp1 n
    using until_eof_loop_total [of r resp1 n maxBody "body_read_size k"] by auto
  then show ?thesis
    by (simp add: readResponseUntilEOF_def Let_def split: prod.split del: not_None_eq)
qed

lemma read_sized_body_total:
  "read_sized_body read r head lo status len resp maxBody bsize \<noteq> None"
proof -
  have "0 < body_read_size bsize" by (simp add: body_read_size_def)
  then have "read_body read r buf off rem (body_read_size bsize) \<noteq> None" for buf off rem
    using read_body_total [of "body_read_size bsize" r buf off rem] by auto
  then show ?thesis
    by (simp add: read_sized_body_def Let_def split: prod.split del: not_None_eq)
qed

lemma readResponse_total: "readResponse read r blen resp maxBody meth hsize bsize \<noteq> None"
proof -
  obtain x r1 where "read_header read r blen (nat hsize) [] = Some (x, r1)"
    using read_header_total [of r blen "nat hsize" "[]"] by auto
  then show ?thesis
    using readChunkedBody_total readResponseUntilEOF_total read_sized_body_total
    by (simp add: readResponse_def Let_def split: prod.split sum.split del: not_None_eq)
qed

end

context buffered_reader
begin

lemma scan_header_total: "\<exists>x. scan_header read b slen acc = Some x"
proof (induction "bufio_budget budget b" arbitrary: b acc rule: less_induct)
  case less
  obtain x b' where b: "bufio_ReadByte read b = (x, b')" by (cases "bufio_ReadByte read b") auto
  show ?case
  proof (cases x)
    case (Inr c)
    with b have "bufio_budget budget b' < bufio_budget budget b" using ReadByte_data by blast
    from less [OF this] Inr b show ?thesis by (subst scan_header.simps) auto
  qed (use b in \<open>subst scan_header.simps, auto\<close>)
qed

lemma readResponseBuffered_total:
  "readResponseBuffered read gunzip b slen resp maxBody meth \<noteq> None"
proof -
  have "ReadFull (bufio_Read read) c k \<noteq> None" for c k
    using buf.ReadFull_total [of c k] by auto
  then have "read_sized_buffered read gunzip c head status len resp maxBody \<noteq> None"
    for c head status len
    by (simp add: read_sized_buffered_def Let_def split: prod.split del: not_None_eq)
  moreover obtain x b1 where "scan_header read b slen [] = Some (x, b1)"
    using scan_header_total [of b slen "[]"] by auto
  ultimately show ?thesis
    using buf.readChunkedBody_total buf.readResponseUntilEOF_total
    by (simp add: readResponseBuffered_def Let_def split: prod.split sum.split del: not_None_eq)
qed

end

section \<open>Complete header blocks\<close>

text \<open>A header block as the wire carries it: it ends with the first blank line.\<close>

definition header_block :: "bytes \<Rightarrow> bool" where
  "header_block head \<longleftrightarrow> findHeaderEnd head = int (length head)"

lemma header_block_iff:
  "header_block head \<longleftrightarrow> 4 \<le> length head \<and> first_occ [CR, LF, CR, LF] head = Some (length head - 4)"
  by (cases "first_occ [CR, LF, CR, LF] head") (auto simp: header_block_def findHeaderEnd_first_occ)

lemma prefix_append_long: "length pat \<le> length s \<Longrightarrow> prefix pat (s @ t) \<longleftrightarrow> prefix pat s"
  by (auto simp: prefix_def append_eq_append_conv2)

text \<open>On a prefix of the stream the search finds the end exactly when the block is complete.\<close>

lemma findHeaderEnd_prefix:
  assumes "header_block head" "prefix p (head @ rest)"
  shows "findHeaderEnd p = (if length head \<le> length p then int (length head) else -1)"
proof -
  let ?pat = "[CR, LF, CR, LF]" and ?i = "length head - 4"
  have h: "4 \<le> length head" "prefix ?pat (drop ?i head)" "\<forall>j < ?i. \<not> prefix ?pat (drop j head)"
    using assms(1) by (auto simp: header_block_iff first_occ_Some)
  have "first_occ ?pat p = (if length head \<le> length p then Some ?i else None)"
  proof (cases "length head \<le> length p")
    case True
    with assms(2) obtain x where p: "p = head @ x"
      by (auto simp: prefix_def append_eq_append_conv2)
    have "\<forall>j < ?i. \<not> prefix ?pat (drop j p)"
      using h(3) by (auto simp: p prefix_append_long)
    moreover have "prefix ?pat (drop ?i p)"
      using h(1,2) by (simp add: p prefix_append_long)
    ultimately show ?thesis using True h(1) by (simp add: first_occ_Some)
  next
    case False
    with assms(2) obtain x where x: "head = p @ x"
      by (auto simp: prefix_def append_eq_append_conv2)
    have "\<not> prefix ?pat (drop i p)" for i
    proof
      assume a: "prefix ?pat (drop i p)"
      then have "4 \<le> length p - i" using prefix_length_le by fastforce
      moreover have "length p < length head" using False by simp
      ultimately have "i < ?i" and "drop i head = drop i p @ x" unfolding x by (linarith, simp)
      with a h(3) show False by (metis prefix_append_long prefix_length_le)
    qed
    then have "first_occ ?pat p = None" by (simp only: first_occ_None) blast
    with False show ?thesis by simp
  qed
  then show ?thesis using h(1) by (simp add: findHeaderEnd_first_occ)
qed

lemma ends_header_prefix:
  assumes "header_block head" "prefix p head"
  shows "ends_header p \<longleftrightarrow> p = head"
proof
  let ?pat = "[CR, LF, CR, LF]"
  have h: "4 \<le> length head" "prefix ?pat (drop (length head - 4) head)"
    "\<forall>j < length head - 4. \<not> prefix ?pat (drop j head)"
    using assms(1) by (auto simp: header_block_iff first_occ_Some)
  {
    assume "ends_header p"
    then have e: "4 \<le> length p" "drop (length p - 4) p = ?pat" by (auto simp: ends_header_def)
    obtain x where x: "head = p @ x" using assms(2) by (auto simp: prefix_def)
    have "prefix ?pat (drop (length p - 4) head)" using e by (simp add: x)
    with h(3) have "\<not> length p - 4 < length head - 4" by blast
    then have "length head \<le> length p" using e(1) h(1) by linarith
    with x show "p = head" by simp
  next
    assume p: "p = head"
    obtain z where z: "drop (length head - 4) head = ?pat @ z" using h(2) by (auto simp: prefix_def)
    then have "length (?pat @ z) = 4" using h(1) by (metis diff_diff_cancel length_drop)
    with z p h(1) show "ends_header p" by (simp add: ends_header_def)
  }
qed

text \<open>The header fields of a block.\<close>

definition head_fields :: "bytes \<Rightarrow> Header list" where
  "head_fields head =
     (case split_crlf head of None \<Rightarrow> [] | Some (_, rest) \<Rightarrow> parse_headers_loop rest [])"

lemma split_crlf_exists: "\<exists>l r. split_crlf (a @ CRLF @ b) = Some (l, r) \<and> length b \<le> length r"
proof (induction a)
  case (Cons x a)
  then show ?case
    by (cases a) (auto split: if_splits)
qed simp

lemma parseHeaders_block:
  assumes "header_block head"
  shows "parseHeaders head resp = resp\<lparr>rawHeaderBuf := head, Headers := head_fields head\<rparr>"
proof -
  have "ends_header head" using assms by (simp add: ends_header_prefix)
  then have "head = take (length head - 4) head @ CRLF @ CRLF"
    by (metis append.assoc append_Cons append_Nil append_take_drop_id ends_header_def)
  then obtain l r where "split_crlf head = Some (l, r)" "length CRLF \<le> length r"
    using split_crlf_exists by metis
  then show ?thesis by (auto simp: parseHeaders_def head_fields_def Let_def)
qed

section \<open>Reading from a stream that delivers\<close>

context io_reader
begin

lemma read_header_ready:
  assumes "header_block head" "length head \<le> blen" "0 < k"
  shows "acc @ pending r = head @ rest \<Longrightarrow> length acc < length head \<Longrightarrow> safe r n \<Longrightarrow>
    length head \<le> length acc + n \<Longrightarrow>
    \<exists>lo r'. read_header read r blen k acc = Some (Inr (head @ lo, length head), r') \<and>
      lo @ pending r' = rest \<and> safe r' (length acc + n - length head - length lo)"
proof (induction "budget r" arbitrary: r acc n rule: less_induct)
  case less
  then have "0 < n" "0 < min (blen - length acc) k" using assms by auto
  then obtain d r' where r: "read r (min (blen - length acc) k) = (d, None, r')" "d \<noteq> []"
    "pending r = d @ pending r'" "safe r' (n - length d)" "budget r' + length d < budget r"
    by (elim read_safe_cases [OF less.prems(3)]) blast
  have p: "(acc @ d) @ pending r' = head @ rest" using r less.prems by simp
  then have "prefix (acc @ d) (head @ rest)" by (metis prefixI)
  note fhe = findHeaderEnd_prefix [OF assms(1) this]
  show ?case
  proof (cases "length head \<le> length (acc @ d)")
    case True
    then have "take (length head) (acc @ d) = head"
      using arg_cong [OF p, of "take (length head)"] by simp
    then obtain lo where lo: "acc @ d = head @ lo" by (metis append_take_drop_id)
    with p have "lo @ pending r' = rest" by simp
    note lo = lo this
    have "length (acc @ d) = length head + length lo" using lo(1) by simp
    then have "length acc + n - length head - length lo = n - length d" using less.prems by simp
    then have "safe r' (length acc + n - length head - length lo)" using r(4) by simp
    with True fhe lo r less.prems assms show ?thesis
      by (subst read_header.simps) auto
  next
    case False
    have "\<exists>lo r2. read_header read r' blen k (acc @ d) = Some (Inr (head @ lo, length head), r2) \<and>
      lo @ pending r2 = rest \<and> safe r2 (length (acc @ d) + (n - length d) - length head - length lo)"
      using False r p less.prems by (intro less.hyps) auto
    moreover have "length d \<le> n" using False less.prems by simp
    ultimately show ?thesis using False fhe r less.prems assms
      by (subst read_header.simps) auto
  qed
qed

lemma read_body_ready:
  "0 < k \<Longrightarrow> safe r n \<Longrightarrow> rem \<le> n \<Longrightarrow> off + rem \<le> length buf \<Longrightarrow>
   \<exists>r'. read_body read r buf off rem k =
       Some (None, blit buf off (take rem (pending r)), off + rem, r') \<and>
     pending r' = drop rem (pending r) \<and> safe r' (n - rem)"
proof (induction "budget r" arbitrary: r n buf off rem rule: less_induct)
  case less
  show ?case
  proof (cases "rem = 0")
    case True
    with less.prems show ?thesis by (subst read_body.simps) simp
  next
    case False
    with less.prems have "0 < n" "0 < min rem k" by auto
    then obtain d r' where r: "read r (min rem k) = (d, None, r')" "d \<noteq> []" "length d \<le> min rem k"
      "pending r = d @ pending r'" "safe r' (n - length d)" "budget r' + length d < budget r"
      by (elim read_safe_cases [OF less.prems(2)]) blast
    have "\<exists>r2. read_body read r' (blit buf off d) (off + length d) (rem - length d) k =
        Some (None, blit (blit buf off d) (off + length d) (take (rem - length d) (pending r')),
          off + length d + (rem - length d), r2) \<and>
      pending r2 = drop (rem - length d) (pending r') \<and> safe r2 (n - length d - (rem - length d))"
      using r less.prems by (intro less.hyps) auto
    moreover have "length d \<le> rem" using r(3) by simp
    moreover from this have "blit (blit buf off d) (off + length d) (take (rem - length d) (pending r')) =
        blit buf off (d @ take (rem - length d) (pending r'))"
      using less.prems by (intro blit_blit) (auto simp: min_def)
    ultimately show ?thesis using False r less.prems
      by (subst read_body.simps) (auto simp: diff_diff_add)
  qed
qed

lemma readByte_ready:
  assumes "safe r (n - length lo)" "0 < n" "lo @ pending r = b # s"
  shows "\<exists>lo' r'. readByte read r lo = Some (Inr b, lo', r') \<and> lo' @ pending r' = s \<and>
    suffix lo' lo \<and> safe r' (n - 1 - length lo')"
proof (cases lo)
  case Nil
  with assms(1) have s: "safe r n" by simp
  obtain d r' where r: "read r 1 = (d, None, r')" "d \<noteq> []" "length d \<le> 1"
    "pending r = d @ pending r'" "safe r' (n - length d)"
    by (rule read_safe_cases [OF s assms(2) zero_less_one])
  then obtain c where d: "d = [c]" by (cases d) auto
  then have "read_byte_loop read r = Some (Inr b, r')"
    using r Nil assms(3) by (subst read_byte_loop.simps) simp
  with Nil r d assms(3) show ?thesis by (simp add: readByte_def)
qed (use assms in \<open>auto simp: readByte_def suffix_Cons\<close>)

lemma readLine_ready:
  "LF \<notin> set l \<Longrightarrow> lo @ pending r = l @ LF # s \<Longrightarrow> length l < n \<Longrightarrow> safe r (n - length lo) \<Longrightarrow>
   length acc \<le> 64 \<Longrightarrow>
   \<exists>lo' r'. readLine read r lo acc = Some (Inr (strip_cr (take 64 (acc @ l))), lo', r') \<and>
     lo' @ pending r' = s \<and> suffix lo' lo \<and> safe r' (n - Suc (length l) - length lo')"
proof (induction l arbitrary: lo r acc n)
  case Nil
  then obtain lo' r' where "readByte read r lo = Some (Inr LF, lo', r')" "lo' @ pending r' = s"
    "suffix lo' lo" "safe r' (n - 1 - length lo')"
    using readByte_ready [of r n lo LF s] by auto
  with Nil show ?case by (subst readLine.simps) auto
next
  case (Cons c l)
  then obtain lo' r' where b: "readByte read r lo = Some (Inr c, lo', r')"
    "lo' @ pending r' = l @ LF # s" "suffix lo' lo" "safe r' (n - 1 - length lo')"
    using readByte_ready [of r n lo c "l @ LF # s"] by auto
  let ?acc = "if length acc < 64 then acc @ [c] else acc"
  have "\<exists>lo2 r2. readLine read r' lo' ?acc = Some (Inr (strip_cr (take 64 (?acc @ l))), lo2, r2) \<and>
    lo2 @ pending r2 = s \<and> suffix lo2 lo' \<and> safe r2 (n - 1 - Suc (length l) - length lo2)"
    using Cons.prems b by (intro Cons.IH) auto
  moreover have "take 64 (?acc @ l) = take 64 (acc @ c # l)"
    using Cons.prems by (auto simp: take_Cons')
  ultimately show ?case using b Cons.prems
    by (subst readLine.simps) (auto intro: suffix_order.trans)
qed

lemma read_exact_loop_ready:
  "safe r n \<Longrightarrow> k \<le> n \<Longrightarrow>
   \<exists>r'. read_exact_loop read r k acc = Some (None, acc @ take k (pending r), r') \<and>
     pending r' = drop k (pending r) \<and> safe r' (n - k)"
proof (induction "budget r" arbitrary: r n k acc rule: less_induct)
  case less
  show ?case
  proof (cases "k = 0")
    case True
    with less.prems show ?thesis by (subst read_exact_loop.simps) simp
  next
    case False
    with less.prems have "0 < k" "0 < n" by auto
    then obtain d r' where r: "read r k = (d, None, r')" "d \<noteq> []" "length d \<le> k"
      "pending r = d @ pending r'" "safe r' (n - length d)" "budget r' + length d < budget r"
      by (elim read_safe_cases [OF less.prems(1)]) blast
    have "\<exists>r2. read_exact_loop read r' (k - length d) (acc @ d) =
        Some (None, (acc @ d) @ take (k - length d) (pending r'), r2) \<and>
      pending r2 = drop (k - length d) (pending r') \<and> safe r2 (n - length d - (k - length d))"
      using r less.prems by (intro less.hyps) auto
    then show ?thesis using False r less.prems
      by (subst read_exact_loop.simps) (auto simp: diff_diff_add)
  qed
qed

lemma readExact_ready:
  assumes "safe r (n - length lo)" "length c \<le> n" "lo @ pending r = c @ s"
  shows "\<exists>lo' r'. readExact read r lo (length c) = Some (None, c, lo', r') \<and> lo' @ pending r' = s \<and>
    suffix lo' lo \<and> safe r' (n - length c - length lo')"
proof -
  have "length c - length lo \<le> n - length lo" using assms(2) by simp
  from read_exact_loop_ready [OF assms(1) this] obtain r' where
    r: "read_exact_loop read r (length c - length lo) (take (length c) lo) =
        Some (None, take (length c) lo @ take (length c - length lo) (pending r), r')"
    "pending r' = drop (length c - length lo) (pending r)"
    "safe r' (n - length lo - (length c - length lo))" by blast
  have "take (length c) (lo @ pending r) = c" "drop (length c) (lo @ pending r) = s"
    unfolding assms(3) by simp_all
  moreover have "n - length lo - (length c - length lo) = n - length c - length (drop (length c) lo)"
    by auto
  ultimately show ?thesis using r
    by (auto simp: readExact_def suffix_drop)
qed

end

section \<open>Chunked bodies on the wire\<close>

text \<open>
  A chunked body as RFC 7230 section 4.1 frames it: chunks, each with its size line (which may carry
  extensions), the line of the last chunk and the trailer lines.
\<close>

type_synonym chunk = "bytes \<times> bytes"

definition size_line :: "bytes \<Rightarrow> nat \<Rightarrow> bool" where
  "size_line l n \<longleftrightarrow> CR \<notin> set l \<and> LF \<notin> set l \<and> length l \<le> 64 \<and> chunk_line l = Some (int n)"

definition render_chunk :: "chunk \<Rightarrow> bytes" where
  "render_chunk c = fst c @ CRLF @ snd c @ CRLF"

definition render_chunked :: "chunk list \<Rightarrow> bytes \<Rightarrow> bytes list \<Rightarrow> bytes" where
  "render_chunked cs final trailers =
     concat (map render_chunk cs) @ final @ CRLF @ concat (map (\<lambda>t. t @ CRLF) trailers) @ CRLF"

definition chunked_ok :: "chunk list \<Rightarrow> bytes \<Rightarrow> bytes list \<Rightarrow> bool" where
  "chunked_ok cs final trailers \<longleftrightarrow>
     (\<forall>(l, c) \<in> set cs. c \<noteq> [] \<and> size_line l (length c)) \<and> size_line final 0 \<and>
     (\<forall>t \<in> set trailers. t \<noteq> [] \<and> CR \<notin> set t \<and> LF \<notin> set t)"

definition chunk_data :: "chunk list \<Rightarrow> bytes" where
  "chunk_data cs = concat (map snd cs)"

lemma strip_cr_line:
  assumes "CR \<notin> set l"
  shows "strip_cr (take 64 (l @ [CR])) = take 64 l"
proof (cases "length l < 64")
  case False
  have "CR \<notin> set (take 64 l)" using assms by (meson in_set_takeD)
  then have "strip_cr (take 64 l) = take 64 l" by (metis last_in_set strip_cr_def)
  with False show ?thesis by simp
qed (simp add: strip_cr_def)

context io_reader
begin

text \<open>A line that ends in CRLF, up to the 64 bytes the line buffer keeps.\<close>

lemma readLine_crlf:
  assumes "CR \<notin> set l" "LF \<notin> set l" "lo @ pending r = l @ CRLF @ s" "length l + 2 \<le> n"
    "safe r (n - length lo)"
  shows "\<exists>lo' r'. readLine read r lo [] = Some (Inr (take 64 l), lo', r') \<and>
     lo' @ pending r' = s \<and> suffix lo' lo \<and> safe r' (n - (length l + 2) - length lo')"
  using readLine_ready [of "l @ [CR]" lo r s n "[]"] assms by (simp add: strip_cr_line del: take_append)

lemma drain_trailers_ready:
  "\<forall>t \<in> set ts. t \<noteq> [] \<and> CR \<notin> set t \<and> LF \<notin> set t \<Longrightarrow>
   lo @ pending r = concat (map (\<lambda>t. t @ CRLF) ts) @ CRLF @ s \<Longrightarrow>
   length (concat (map (\<lambda>t. t @ CRLF) ts)) + 2 \<le> n \<Longrightarrow> safe r (n - length lo) \<Longrightarrow>
   \<exists>lo' r'. drain_trailers read r lo = Some (lo', r') \<and> lo' @ pending r' = s \<and> suffix lo' lo \<and>
     safe r' (n - (length (concat (map (\<lambda>t. t @ CRLF) ts)) + 2) - length lo')"
proof (induction ts arbitrary: lo r n)
  case Nil
  with readLine_crlf [of "[]" lo r s n] show ?case by (subst drain_trailers.simps) auto
next
  case (Cons t ts)
  let ?s = "concat (map (\<lambda>t. t @ CRLF) ts) @ CRLF @ s"
  obtain lo1 r1 where l: "readLine read r lo [] = Some (Inr (take 64 t), lo1, r1)"
    "lo1 @ pending r1 = ?s" "suffix lo1 lo" "safe r1 (n - (length t + 2) - length lo1)"
    using readLine_crlf [of t lo r ?s n] Cons.prems by auto
  have "\<exists>lo' r'. drain_trailers read r1 lo1 = Some (lo', r') \<and> lo' @ pending r' = s \<and> suffix lo' lo1 \<and>
     safe r' (n - (length t + 2) - (length (concat (map (\<lambda>t. t @ CRLF) ts)) + 2) - length lo')"
    using Cons.prems l by (intro Cons.IH) auto
  with l Cons.prems show ?case
    by (subst drain_trailers.simps) (auto intro: suffix_order.trans simp: diff_diff_add add.assoc)
qed

text \<open>One chunk, with the buffer grown for it if need be.\<close>

lemma chunk_step:
  assumes "c \<noteq> []" "size_line l (length c)" "lo @ pending r = render_chunk (l, c) @ s"
    "safe r (n - length lo)" "length (render_chunk (l, c)) \<le> n" "int (m + length c) < 2 ^ 63"
    "maxBody \<le> 0 \<or> int (m + length c) \<le> maxBody"
    "ensureBufferSize resp (int (m + length c)) = (True, resp1)"
  shows "\<exists>lo' r'. chunk_loop read r lo resp m maxBody =
      chunk_loop read r' lo' (resp1\<lparr>bodyBuf := blit (bodyBuf resp1) m c\<rparr>) (m + length c) maxBody \<and>
    lo' @ pending r' = s \<and> suffix lo' lo \<and> safe r' (n - length (render_chunk (l, c)) - length lo')"
proof -
  let ?k = "length c"
  have c: "CR \<notin> set l" "LF \<notin> set l" "length l \<le> 64" "chunk_line l = Some (int ?k)"
    using assms(2) by (auto simp: size_line_def)
  have wire: "lo @ pending r = l @ CRLF @ c @ CRLF @ s" and len: "length l + ?k + 4 \<le> n"
    using assms(3,5) by (auto simp: render_chunk_def)
  then obtain lo1 r1 where 1: "readLine read r lo [] = Some (Inr l, lo1, r1)"
    "lo1 @ pending r1 = c @ CRLF @ s" "suffix lo1 lo" "safe r1 (n - (length l + 2) - length lo1)"
    using readLine_crlf [of l lo r "c @ CRLF @ s" n] assms(4) c by auto
  have "?k \<le> n - (length l + 2)" using len by simp
  then obtain lo2 r2 where 2: "readExact read r1 lo1 ?k = Some (None, c, lo2, r2)"
    "lo2 @ pending r2 = CRLF @ s" "suffix lo2 lo1" "safe r2 (n - (length l + 2) - ?k - length lo2)"
    using readExact_ready [of r1 "n - (length l + 2)" lo1 c "CRLF @ s"] 1 by auto
  have "2 \<le> n - (length l + 2) - ?k" using len by simp
  then obtain lo3 r3 where 3: "readLine read r2 lo2 [] = Some (Inr [], lo3, r3)"
    "lo3 @ pending r3 = s" "suffix lo3 lo2" "safe r3 (n - (length l + 2) - ?k - 2 - length lo3)"
    using readLine_crlf [of "[]" lo2 r2 s "n - (length l + 2) - ?k"] 2 by auto
  have "i64 (int m + int ?k) = int (m + ?k)" "\<not> (maxBody > 0 \<and> int (m + ?k) > maxBody)"
    "m + ?k \<le> length (bodyBuf resp1)"
    using assms(6,7) ensureBufferSize_result(2) [OF assms(8)] by (auto simp: i64_id)
  then have "chunk_loop read r lo resp m maxBody =
      chunk_loop read r3 lo3 (resp1\<lparr>bodyBuf := blit (bodyBuf resp1) m c\<rparr>) (m + ?k) maxBody"
    using 1(1) 2(1) 3(1) c assms(1,8) by (subst chunk_loop.simps) (auto simp: Let_def)
  moreover have "n - (length l + 2) - ?k - 2 = n - length (render_chunk (l, c))"
    by (simp add: render_chunk_def)
  moreover have "suffix lo3 lo" using 1(3) 2(3) 3(3) by (meson suffix_order.trans)
  ultimately show ?thesis using 3(2,4) by metis
qed

text \<open>The last chunk and the trailers.\<close>

lemma chunk_last:
  assumes "size_line final 0" "\<forall>t \<in> set ts. t \<noteq> [] \<and> CR \<notin> set t \<and> LF \<notin> set t"
    "lo @ pending r = render_chunked [] final ts @ s" "safe r (n - length lo)"
    "length (render_chunked [] final ts) \<le> n"
  shows "\<exists>lo' r'. chunk_loop read r lo resp m maxBody = Some (Done (None, m, resp, r')) \<and>
    lo' @ pending r' = s \<and> suffix lo' lo \<and>
    safe r' (n - length (render_chunked [] final ts) - length lo')"
proof -
  let ?s = "concat (map (\<lambda>t. t @ CRLF) ts) @ CRLF @ s"
  obtain lo1 r1 where l: "readLine read r lo [] = Some (Inr (take 64 final), lo1, r1)"
    "lo1 @ pending r1 = ?s" "suffix lo1 lo" "safe r1 (n - (length final + 2) - length lo1)"
    using readLine_crlf [of final lo r ?s n] assms by (auto simp: render_chunked_def size_line_def)
  have "\<exists>lo' r'. drain_trailers read r1 lo1 = Some (lo', r') \<and> lo' @ pending r' = s \<and> suffix lo' lo1 \<and>
     safe r' (n - (length final + 2) - (length (concat (map (\<lambda>t. t @ CRLF) ts)) + 2) - length lo')"
    using l assms by (intro drain_trailers_ready) (auto simp: render_chunked_def)
  then show ?thesis
    using l assms(1)
    by (subst chunk_loop.simps)
      (auto intro: suffix_order.trans simp: size_line_def render_chunked_def diff_diff_add add.assoc)
qed

text \<open>
  The chunk loop delivers the concatenated chunks, provided the buffer already has room for all of
  them: growing it would drop what was read before.
\<close>

lemma chunk_loop_ready:
  assumes "size_line final 0" "\<forall>t \<in> set ts. t \<noteq> [] \<and> CR \<notin> set t \<and> LF \<notin> set t"
  shows "\<forall>(l, c) \<in> set cs. c \<noteq> [] \<and> size_line l (length c) \<Longrightarrow>
   lo @ pending r = render_chunked cs final ts @ s \<Longrightarrow>
   safe r (n - length lo) \<Longrightarrow> length (render_chunked cs final ts) \<le> n \<Longrightarrow>
   m + length (chunk_data cs) \<le> length (bodyBuf resp) \<Longrightarrow> int (length (bodyBuf resp)) < 2 ^ 63 \<Longrightarrow>
   maxBody \<le> 0 \<or> int (m + length (chunk_data cs)) \<le> maxBody \<Longrightarrow>
   \<exists>lo' r'. chunk_loop read r lo resp m maxBody =
       Some (Done (None, m + length (chunk_data cs),
         resp\<lparr>bodyBuf := blit (bodyBuf resp) m (chunk_data cs)\<rparr>, r')) \<and>
     lo' @ pending r' = s \<and> suffix lo' lo \<and>
     safe r' (n - length (render_chunked cs final ts) - length lo')"
proof (induction cs arbitrary: lo r n m resp)
  case Nil
  with chunk_last [OF assms, of lo r s n resp m maxBody] show ?case by (simp add: chunk_data_def)
next
  case (Cons lc cs)
  obtain l c where lc: "lc = (l, c)" by (cases lc)
  let ?rest = "render_chunked cs final ts @ s"
  let ?resp = "resp\<lparr>bodyBuf := blit (bodyBuf resp) m c\<rparr>"
  have data: "chunk_data ((l, c) # cs) = c @ chunk_data cs" by (simp add: chunk_data_def)
  have wire: "render_chunked ((l, c) # cs) final ts = render_chunk (l, c) @ render_chunked cs final ts"
    by (simp add: render_chunked_def)
  have "\<exists>lo' r'. chunk_loop read r lo resp m maxBody = chunk_loop read r' lo' ?resp (m + length c) maxBody \<and>
    lo' @ pending r' = ?rest \<and> suffix lo' lo \<and> safe r' (n - length (render_chunk (l, c)) - length lo')"
    using Cons.prems by (intro chunk_step) (auto simp: lc data wire)
  then obtain lo1 r1 where 1: "chunk_loop read r lo resp m maxBody = chunk_loop read r1 lo1 ?resp (m + length c) maxBody"
    "lo1 @ pending r1 = ?rest" "suffix lo1 lo" "safe r1 (n - length (render_chunk (l, c)) - length lo1)" by blast
  have "\<exists>lo' r'. chunk_loop read r1 lo1 ?resp (m + length c) maxBody =
       Some (Done (None, m + length c + length (chunk_data cs),
         ?resp\<lparr>bodyBuf := blit (bodyBuf ?resp) (m + length c) (chunk_data cs)\<rparr>, r')) \<and>
     lo' @ pending r' = s \<and> suffix lo' lo1 \<and>
     safe r' (n - length (render_chunk (l, c)) - length (render_chunked cs final ts) - length lo')"
    using Cons.prems 1 by (intro Cons.IH) (auto simp: lc data wire)
  moreover have "blit (blit (bodyBuf resp) m c) (m + length c) (chunk_data cs) = blit (bodyBuf resp) m (c @ chunk_data cs)"
    using Cons.prems(5) by (intro blit_blit) (simp add: lc data)
  ultimately show ?case
    using 1 by (auto simp: lc data wire diff_diff_add add.assoc intro: suffix_order.trans)
qed

text \<open>
  Two chunks of which the second makes the buffer grow: the first one reads as zeros.
\<close>

lemma chunk_loop_growth_loses:
  assumes "chunked_ok [(l1, c1), (l2, c2)] final ts"
    "lo @ pending r = render_chunked [(l1, c1), (l2, c2)] final ts @ s"
    "safe r (length (render_chunked [(l1, c1), (l2, c2)] final ts) - length lo)"
    "length c1 \<le> length (bodyBuf resp)" "length (bodyBuf resp) < length (c1 @ c2)"
    "int (length (c1 @ c2)) < 2 ^ 63" "maxSize resp \<le> 0"
    "maxBody \<le> 0 \<or> int (length (c1 @ c2)) \<le> maxBody"
  shows "\<exists>r' resp'. chunk_loop read r lo resp 0 maxBody = Some (Done (None, length (c1 @ c2), resp', r')) \<and>
    take (length (c1 @ c2)) (bodyBuf resp') = zeros (length c1) @ c2"
proof -
  let ?n = "length (render_chunked [(l1, c1), (l2, c2)] final ts)"
  have w: "render_chunked [(l1, c1), (l2, c2)] final ts =
      render_chunk (l1, c1) @ render_chunk (l2, c2) @ render_chunked [] final ts"
    by (simp add: render_chunked_def)
  have ok: "c1 \<noteq> []" "size_line l1 (length c1)" "c2 \<noteq> []" "size_line l2 (length c2)" "size_line final 0"
    "\<forall>t \<in> set ts. t \<noteq> [] \<and> CR \<notin> set t \<and> LF \<notin> set t"
    using assms(1) by (auto simp: chunked_ok_def)
  let ?resp1 = "resp\<lparr>bodyBuf := blit (bodyBuf resp) 0 c1\<rparr>"
  have "\<exists>lo' r'. chunk_loop read r lo resp 0 maxBody = chunk_loop read r' lo' ?resp1 (0 + length c1) maxBody \<and>
    lo' @ pending r' = render_chunk (l2, c2) @ render_chunked [] final ts @ s \<and> suffix lo' lo \<and>
    safe r' (?n - length (render_chunk (l1, c1)) - length lo')"
    using assms ok(1,2) by (intro chunk_step) (auto simp: w)
  then obtain lo1 r1 where 1: "chunk_loop read r lo resp 0 maxBody = chunk_loop read r1 lo1 ?resp1 (length c1) maxBody"
    "lo1 @ pending r1 = render_chunk (l2, c2) @ render_chunked [] final ts @ s"
    "safe r1 (?n - length (render_chunk (l1, c1)) - length lo1)" by auto
  obtain e resp2 where e: "ensureBufferSize ?resp1 (int (length c1 + length c2)) = (e, resp2)"
    by (cases "ensureBufferSize ?resp1 (int (length c1 + length c2))")
  have e1: e using ensureBufferSize_result(1) [OF e] assms(7) by simp
  then obtain z where z: "bodyBuf resp2 = zeros z" "length c1 + length c2 \<le> z"
    using ensureBufferSize_grow [of ?resp1 "int (length c1 + length c2)" resp2] e assms(4,5) by auto
  let ?resp3 = "resp2\<lparr>bodyBuf := blit (bodyBuf resp2) (length c1) c2\<rparr>"
  have "\<exists>lo' r'. chunk_loop read r1 lo1 ?resp1 (length c1) maxBody =
      chunk_loop read r' lo' ?resp3 (length c1 + length c2) maxBody \<and>
    lo' @ pending r' = render_chunked [] final ts @ s \<and> suffix lo' lo1 \<and>
    safe r' (?n - length (render_chunk (l1, c1)) - length (render_chunk (l2, c2)) - length lo')"
    using assms(6,8) ok(3,4) 1 e e1 by (intro chunk_step) (auto simp: w)
  then obtain lo2 r2 where 2: "chunk_loop read r lo resp 0 maxBody = chunk_loop read r2 lo2 ?resp3 (length c1 + length c2) maxBody"
    "lo2 @ pending r2 = render_chunked [] final ts @ s"
    "safe r2 (?n - length (render_chunk (l1, c1)) - length (render_chunk (l2, c2)) - length lo2)"
    using 1(1) by auto
  have "length (render_chunked [] final ts) \<le> ?n - length (render_chunk (l1, c1)) - length (render_chunk (l2, c2))"
    by (simp add: w)
  from chunk_last [OF ok(5,6) 2(2,3) this, of ?resp3 "length c1 + length c2" maxBody]
  obtain r3 where "chunk_loop read r lo resp 0 maxBody = Some (Done (None, length c1 + length c2, ?resp3, r3))"
    using 2(1) by auto
  moreover have "take (length c1 + length c2) (bodyBuf ?resp3) = zeros (length c1) @ c2"
    using z by (simp add: zeros_def min_def)
  ultimately show ?thesis by auto
qed

end

section \<open>Whole responses\<close>

text \<open>
  A response on the wire: a header block and a body in one of the framings that have an end of their
  own (a body delimited by the end of the stream is treated below).
\<close>

datatype wire_body = NoBody | Sized bytes | Chunked "chunk list" bytes "bytes list"

primrec render_body :: "wire_body \<Rightarrow> bytes" where
  "render_body NoBody = []"
| "render_body (Sized b) = b"
| "render_body (Chunked cs final ts) = render_chunked cs final ts"

primrec body_data :: "wire_body \<Rightarrow> bytes" where
  "body_data NoBody = []"
| "body_data (Sized b) = b"
| "body_data (Chunked cs final ts) = chunk_data cs"

definition wire_ok :: "bytes \<Rightarrow> bytes \<Rightarrow> wire_body \<Rightarrow> bool" where
  "wire_ok meth head wb \<longleftrightarrow>
     header_block head \<and> snd (parseStatusCode head) \<and>
     (case wb of
        NoBody \<Rightarrow> no_body meth (fst (parseStatusCode head))
      | Sized b \<Rightarrow> \<not> no_body meth (fst (parseStatusCode head)) \<and> \<not> parseTransferEncoding head \<and>
          parseContentLength head = (int (length b), True)
      | Chunked cs final ts \<Rightarrow> \<not> no_body meth (fst (parseStatusCode head)) \<and> parseTransferEncoding head \<and>
          chunked_ok cs final ts)"

text \<open>
  Room for the body: a sized body may be given a new buffer before it is read, so only the size
  limit counts; a chunked body is read piecemeal and needs the buffer it starts with.
\<close>

definition within_limit :: "Response \<Rightarrow> nat \<Rightarrow> bool" where
  "within_limit resp n \<longleftrightarrow> maxSize resp \<le> 0 \<or> int n \<le> maxSize resp"

definition room :: "Response \<Rightarrow> wire_body \<Rightarrow> bool" where
  "room resp wb \<longleftrightarrow>
     (case wb of
        Chunked _ _ _ \<Rightarrow> length (body_data wb) \<le> length (bodyBuf resp) \<and> int (length (bodyBuf resp)) < 2 ^ 63
      | _ \<Rightarrow> within_limit resp (length (body_data wb)))"

text \<open>What the caller sees of a response.\<close>

definition carries :: "Response \<Rightarrow> int \<Rightarrow> Header list \<Rightarrow> bytes \<Rightarrow> bool" where
  "carries resp status hs body \<longleftrightarrow>
     StatusCode resp = status \<and> Headers resp = hs \<and> Body_bytes resp = body \<and>
     ContentLength resp = int (length body)"

lemma take_blit_0 [simp]: "length src \<le> length buf \<Longrightarrow> take (length src) (blit buf 0 src) = src"
  using take_blit [of 0 src buf] by simp

lemma ensureBufferSize_within:
  assumes "within_limit resp n"
  obtains resp' where "ensureBufferSize resp (int n) = (True, resp')" "n \<le> length (bodyBuf resp')"
    "StatusCode resp' = StatusCode resp" "Headers resp' = Headers resp" "maxSize resp' = maxSize resp"
    "ContentLength resp' = ContentLength resp"
proof -
  obtain ok resp' where e: "ensureBufferSize resp (int n) = (ok, resp')"
    by (cases "ensureBufferSize resp (int n)")
  moreover have ok using ensureBufferSize_result(1) [OF e] assms by (auto simp: within_limit_def)
  ultimately show ?thesis
    using that ensureBufferSize_result(2) [OF e] ensureBufferSize_frame [OF e] by auto
qed

lemma finish_no_body_carries:
  "header_block head \<Longrightarrow> carries (finish_no_body head status resp) status (head_fields head) []"
  by (simp add: finish_no_body_def carries_def parseHeaders_block Body_bytes_def)

context io_reader
begin

lemma readChunkedBody_ready:
  assumes "chunked_ok cs final ts" "lo @ pending r = render_chunked cs final ts @ s"
    "safe r (length (render_chunked cs final ts) + n - length lo)"
    "length (chunk_data cs) \<le> length (bodyBuf resp)" "int (length (bodyBuf resp)) < 2 ^ 63"
    "maxBody \<le> 0 \<or> int (length (chunk_data cs)) \<le> maxBody"
  shows "\<exists>lo' r' resp'. readChunkedBody read r lo resp maxBody = Some (Done (None, resp', r')) \<and>
    carries resp' (StatusCode resp) (Headers resp) (chunk_data cs) \<and> maxSize resp' = maxSize resp \<and>
    lo' @ pending r' = s \<and> suffix lo' lo \<and> safe r' (n - length lo')"
proof -
  have "\<exists>lo' r'. chunk_loop read r lo resp 0 maxBody =
       Some (Done (None, 0 + length (chunk_data cs),
         resp\<lparr>bodyBuf := blit (bodyBuf resp) 0 (chunk_data cs)\<rparr>, r')) \<and>
     lo' @ pending r' = s \<and> suffix lo' lo \<and>
     safe r' (length (render_chunked cs final ts) + n - length (render_chunked cs final ts) - length lo')"
    using assms by (intro chunk_loop_ready) (auto simp: chunked_ok_def)
  then show ?thesis
    using assms by (auto simp: readChunkedBody_def carries_def Body_bytes_def)
qed

lemma read_sized_body_ready:
  assumes "header_block head" "lo @ pending r = b @ s" "safe r (length b + n - length lo)"
    "int (length b) \<le> maxBody" "within_limit resp (length b)"
  shows "\<exists>r' resp'. read_sized_body read r head lo status (int (length b)) resp maxBody bsize =
      Some (Done (None, resp', r')) \<and> carries resp' status (head_fields head) b \<and> maxSize resp' = maxSize resp"
proof (cases "b = []")
  case True
  then show ?thesis
    using assms by (simp add: read_sized_body_def parseHeaders_block carries_def Body_bytes_def)
next
  case False
  let ?resp = "parseHeaders head (resp\<lparr>StatusCode := status, ContentLength := int (length b)\<rparr>)"
  have "within_limit ?resp (length b)" using assms by (simp add: parseHeaders_block within_limit_def)
  then obtain resp1 where e: "ensureBufferSize ?resp (int (length b)) = (True, resp1)"
    "length b \<le> length (bodyBuf resp1)" "StatusCode resp1 = status" "Headers resp1 = head_fields head"
    "ContentLength resp1 = int (length b)" "maxSize resp1 = maxSize resp"
    by (rule ensureBufferSize_within) (use assms in \<open>auto simp: parseHeaders_block\<close>)
  let ?m = "min (length lo) (length b)"
  let ?buf = "blit (bodyBuf resp1) 0 (take ?m lo)"
  have "0 < body_read_size bsize" by (simp add: body_read_size_def)
  moreover have rem: "length b - ?m \<le> length b + n - length lo" by simp
  moreover have "?m + (length b - ?m) \<le> length ?buf" using e by simp
  ultimately obtain r' where r: "read_body read r ?buf ?m (length b - ?m) (body_read_size bsize) =
       Some (None, blit ?buf ?m (take (length b - ?m) (pending r)), ?m + (length b - ?m), r')"
    using read_body_ready assms(3) by blast
  have "take ?m lo @ take (length b - ?m) (pending r) = take (length b) (lo @ pending r)"
    by (simp add: min_def)
  also have "\<dots> = b" unfolding assms(2) by simp
  finally have b: "take ?m lo @ take (length b - ?m) (pending r) = b" .
  have "blit ?buf ?m (take (length b - ?m) (pending r)) = blit (bodyBuf resp1) 0 b"
    using blit_blit [of 0 "take ?m lo" "take (length b - ?m) (pending r)" "bodyBuf resp1"] e(2) b
    by (metis add_0 length_append length_take min.absorb2 min.cobounded1)
  with r e False assms(4) show ?thesis
    by (simp add: read_sized_body_def Let_def carries_def Body_bytes_def)
qed

text \<open>The sequential reader delivers the response the stream holds, whatever the segmentation.\<close>

lemma readResponse_ready:
  assumes "wire_ok meth head wb" "pending r = head @ render_body wb @ s"
    "safe r (length head + length (render_body wb))" "length head \<le> blen" "0 < hsize"
    "int (length (body_data wb)) \<le> maxBody" "room resp wb"
  shows "\<exists>r' resp'. readResponse read r blen resp maxBody meth hsize bsize =
      Some (Done (None, resp', r')) \<and>
    carries resp' (fst (parseStatusCode head)) (head_fields head) (body_data wb) \<and> maxSize resp' = maxSize resp"
proof -
  obtain status where st: "parseStatusCode head = (status, True)"
    using assms(1) by (cases "parseStatusCode head") (auto simp: wire_ok_def)
  have h: "header_block head" using assms(1) by (simp add: wire_ok_def)
  then have "0 < length head" by (auto simp: header_block_iff)
  with h assms(2-5) obtain lo r1 where r1: "read_header read r blen (nat hsize) [] = Some (Inr (head @ lo, length head), r1)"
    "lo @ pending r1 = render_body wb @ s"
    "safe r1 (length (render_body wb) + 0 - length lo)"
    using read_header_ready [of head blen "nat hsize" "[]" r "render_body wb @ s"
        "length head + length (render_body wb)"] by auto
  show ?thesis
  proof (cases wb)
    case NoBody
    with st r1 h assms(1,5) show ?thesis
      by (simp add: readResponse_def wire_ok_def finish_no_body_def parseHeaders_block carries_def Body_bytes_def)
  next
    case (Sized b)
    with assms r1(3) have "\<exists>r' resp'. read_sized_body read r1 head lo status (int (length b)) resp maxBody bsize =
        Some (Done (None, resp', r')) \<and> carries resp' status (head_fields head) b \<and> maxSize resp' = maxSize resp"
      by (intro read_sized_body_ready [where n = 0, OF h r1(2) [unfolded Sized render_body.simps]])
        (auto simp: room_def)
    with Sized st r1 assms(1,5) show ?thesis by (simp add: readResponse_def wire_ok_def)
  next
    case (Chunked cs final ts)
    let ?resp = "parseHeaders head (resp\<lparr>StatusCode := status\<rparr>)"
    have "\<exists>lo' r' resp'. readChunkedBody read r1 lo ?resp maxBody = Some (Done (None, resp', r')) \<and>
        carries resp' (StatusCode ?resp) (Headers ?resp) (chunk_data cs) \<and> maxSize resp' = maxSize ?resp \<and>
        lo' @ pending r' = s \<and> suffix lo' lo \<and> safe r' (0 - length lo')"
      using Chunked assms(1,6,7) r1 h
      by (intro readChunkedBody_ready) (auto simp: wire_ok_def room_def parseHeaders_block)
    with Chunked st r1 h assms(1,5) show ?thesis
      by (auto simp: readResponse_def wire_ok_def parseHeaders_block)
  qed
qed

end

section \<open>The buffered reader and pipelined responses\<close>

text \<open>The body after decompression, as a function of the header fields and the body on the wire.\<close>

definition content :: "(bytes \<Rightarrow> gunzip_result) \<Rightarrow> Header list \<Rightarrow> bytes \<Rightarrow> bytes option" where
  "content gunzip hs body =
     (if body = [] \<or> \<not> is_gzip hs then Some body
      else case gunzip body of GzOk out \<Rightarrow> Some out | _ \<Rightarrow> None)"

lemma decompressBody_carries:
  assumes "carries resp status hs body" "content gunzip hs body = Some out" "within_limit resp (length out)"
  shows "\<exists>resp'. decompressBody gunzip resp = (None, resp') \<and> carries resp' status hs out"
proof (cases "body = [] \<or> \<not> is_gzip hs")
  case True
  with assms show ?thesis by (auto simp: decompressBody_def content_def carries_def)
next
  case False
  with assms(2) have "gunzip body = GzOk out" by (auto simp: content_def split: gunzip_result.splits)
  moreover obtain resp' where "ensureBufferSize resp (int (length out)) = (True, resp')"
    "length out \<le> length (bodyBuf resp')" "StatusCode resp' = StatusCode resp" "Headers resp' = Headers resp"
    by (rule ensureBufferSize_within [OF assms(3)])
  ultimately show ?thesis
    using False assms(1) by (auto simp: decompressBody_def carries_def Let_def Body_bytes_def)
qed

context buffered_reader
begin

text \<open>The byte-wise scan stops right after the header block.\<close>

lemma scan_header_ready:
  assumes "header_block head" "length head \<le> slen"
  shows "acc @ bufio_pending pending b = head @ rest \<Longrightarrow> length acc < length head \<Longrightarrow>
    bufio_safe safe b n \<Longrightarrow> length head \<le> length acc + n \<Longrightarrow>
    \<exists>b'. scan_header read b slen acc = Some (Inr head, b') \<and> bufio_pending pending b' = rest \<and>
      bufio_safe safe b' (length acc + n - length head)"
proof (induction "length head - length acc" arbitrary: acc b n)
  case (Suc m)
  then have "0 < n" by simp
  obtain c b1 where b: "bufio_ReadByte read b = (Inr c, b1)" "bufio_safe safe b1 (n - 1)"
    "bufio_pending pending b = c # bufio_pending pending b1"
    by (rule ReadByte_safe [OF Suc.prems(3) \<open>0 < n\<close>])
  have p: "(acc @ [c]) @ bufio_pending pending b1 = head @ rest" using Suc.prems b by simp
  have "take (length (acc @ [c])) (head @ rest) = acc @ [c]" by (simp flip: p)
  then have "acc @ [c] = take (length (acc @ [c])) head" using Suc.prems(2) by simp
  then have pre: "prefix (acc @ [c]) head" by (metis take_is_prefix)
  show ?case
  proof (cases "acc @ [c] = head")
    case True
    moreover have "bufio_pending pending b1 = rest" using True p by simp
    moreover have "length acc + n - length head = n - 1" using True Suc.prems by (auto simp flip: True)
    ultimately show ?thesis
      using b ends_header_prefix [OF assms(1) pre] assms(2) Suc.prems
      by (subst scan_header.simps) auto
  next
    case False
    then have "length (acc @ [c]) < length head"
      using pre by (metis prefix_length_le prefix_def append_Nil2 le_neq_implies_less append_eq_conv_conj)
    then have "\<exists>b'. scan_header read b1 slen (acc @ [c]) = Some (Inr head, b') \<and>
        bufio_pending pending b' = rest \<and>
        bufio_safe safe b' (length (acc @ [c]) + (n - 1) - length head)"
      using Suc b p by (intro Suc.hyps) auto
    with False b ends_header_prefix [OF assms(1) pre] assms(2) Suc.prems \<open>0 < n\<close> show ?thesis
      by (subst scan_header.simps) auto
  qed
qed simp

end

lemma then_decompress_carries:
  assumes "carries resp status hs body" "content gunzip hs body = Some out" "within_limit resp (length out)"
  shows "\<exists>resp'. then_decompress gunzip (None, resp, r) = (None, resp', r) \<and> carries resp' status hs out"
  using decompressBody_carries [OF assms] by (auto simp: then_decompress_def)

context buffered_reader
begin

lemma read_sized_buffered_ready:
  assumes "header_block head" "bufio_pending pending b = body @ s" "bufio_safe safe b (length body + n)"
    "maxBody \<le> 0 \<or> int (length body) \<le> maxBody" "within_limit resp (length body)"
    "content gunzip (head_fields head) body = Some out" "within_limit resp (length out)"
  shows "\<exists>b' resp'. read_sized_buffered read gunzip b head status (int (length body)) resp maxBody =
      Some (Done (None, resp', b')) \<and> carries resp' status (head_fields head) out \<and>
    bufio_pending pending b' = s \<and> bufio_safe safe b' n"
proof (cases "body = []")
  case True
  with assms show ?thesis
    by (auto simp: read_sized_buffered_def parseHeaders_block carries_def Body_bytes_def content_def)
next
  case False
  let ?resp = "parseHeaders head (resp\<lparr>StatusCode := status, ContentLength := int (length body)\<rparr>)"
  have "within_limit ?resp (length body)" using assms by (simp add: parseHeaders_block within_limit_def)
  then obtain resp1 where e: "ensureBufferSize ?resp (int (length body)) = (True, resp1)"
    "length body \<le> length (bodyBuf resp1)" "StatusCode resp1 = status" "Headers resp1 = head_fields head"
    "maxSize resp1 = maxSize resp" "ContentLength resp1 = int (length body)"
    by (rule ensureBufferSize_within) (use assms in \<open>auto simp: parseHeaders_block\<close>)
  obtain b' where b': "ReadFull (bufio_Read read) b (length body) = Some (body, None, b')"
    "bufio_pending pending b' = s" "bufio_safe safe b' n"
    using buf.ReadFull_safe [OF assms(3), of "length body"] assms(2) by auto
  let ?r = "resp1\<lparr>Body := OwnBuf (length body), bodyBuf := blit (bodyBuf resp1) 0 body\<rparr>"
  have c: "carries ?r status (head_fields head) body" and wl: "within_limit ?r (length out)"
    using e(2-6) assms(7) by (simp_all add: carries_def Body_bytes_def within_limit_def)
  obtain resp' where "then_decompress gunzip (None, ?r, b') = (None, resp', b')"
    "carries resp' status (head_fields head) out"
    using then_decompress_carries [OF c assms(6) wl, of b'] by (elim exE conjE) (rule that)
  with e b' False assms(4) show ?thesis by (auto simp: read_sized_buffered_def Let_def)
qed

text \<open>
  The pipelined reader delivers the response and leaves the reader exactly at the byte after it.
\<close>

lemma readResponseBuffered_ready:
  assumes "wire_ok meth head wb" "bufio_pending pending b = head @ render_body wb @ s"
    "bufio_safe safe b (length head + (length (render_body wb) + n))" "length head \<le> slen"
    "maxBody \<le> 0 \<or> int (length (body_data wb)) \<le> maxBody" "room resp wb"
    "content gunzip (head_fields head) (body_data wb) = Some out" "within_limit resp (length out)"
  shows "\<exists>b' resp'. readResponseBuffered read gunzip b slen resp maxBody meth =
      Some (Done (None, resp', b')) \<and>
    carries resp' (fst (parseStatusCode head)) (head_fields head) out \<and>
    bufio_pending pending b' = s \<and> bufio_safe safe b' n"
proof -
  obtain status where st: "parseStatusCode head = (status, True)"
    using assms(1) by (cases "parseStatusCode head") (auto simp: wire_ok_def)
  have h: "header_block head" using assms(1) by (simp add: wire_ok_def)
  then have "0 < length head" by (auto simp: header_block_iff)
  then obtain b1 where b1: "scan_header read b slen [] = Some (Inr head, b1)"
    "bufio_pending pending b1 = render_body wb @ s" "bufio_safe safe b1 (length (render_body wb) + n)"
    using scan_header_ready [OF h assms(4), of "[]" b "render_body wb @ s"
        "length head + (length (render_body wb) + n)"] assms(2,3) by auto
  show ?thesis
  proof (cases wb)
    case NoBody
    with st b1 h assms(1,7) show ?thesis
      by (auto simp: readResponseBuffered_def wire_ok_def finish_no_body_carries content_def)
  next
    case (Sized body)
    with assms b1 have "\<exists>b' resp'. read_sized_buffered read gunzip b1 head status (int (length body)) resp maxBody =
        Some (Done (None, resp', b')) \<and> carries resp' status (head_fields head) out \<and>
      bufio_pending pending b' = s \<and> bufio_safe safe b' n"
      by (intro read_sized_buffered_ready [OF h]) (auto simp: room_def)
    with Sized st b1 assms(1) show ?thesis by (simp add: readResponseBuffered_def wire_ok_def)
  next
    case (Chunked cs final ts)
    let ?resp = "parseHeaders head (resp\<lparr>StatusCode := status\<rparr>)"
    have "\<exists>lo' b' resp'. readChunkedBody (bufio_Read read) b1 [] ?resp maxBody = Some (Done (None, resp', b')) \<and>
        carries resp' (StatusCode ?resp) (Headers ?resp) (chunk_data cs) \<and> maxSize resp' = maxSize ?resp \<and>
        lo' @ bufio_pending pending b' = s \<and> suffix lo' [] \<and> bufio_safe safe b' (n - length lo')"
      using Chunked assms(1,5,6) b1 h
      by (intro buf.readChunkedBody_ready) (auto simp: wire_ok_def room_def parseHeaders_block)
    then obtain b' resp' where b': "readChunkedBody (bufio_Read read) b1 [] ?resp maxBody = Some (Done (None, resp', b'))"
      "carries resp' status (head_fields head) (chunk_data cs)" "maxSize resp' = maxSize resp"
      "bufio_pending pending b' = s" "bufio_safe safe b' n"
      using h by (auto simp: parseHeaders_block)
    have ct: "content gunzip (head_fields head) (chunk_data cs) = Some out"
      and wl: "within_limit resp' (length out)"
      using assms(7,8) b'(3) Chunked by (simp_all add: within_limit_def)
    obtain resp2 where "then_decompress gunzip (None, resp', b') = (None, resp2, b')"
      "carries resp2 status (head_fields head) out"
      using then_decompress_carries [OF b'(2) ct wl, of b'] by (elim exE conjE) (rule that)
    with Chunked st b1 b' assms(1) show ?thesis
      by (auto simp: readResponseBuffered_def wire_ok_def)
  qed
qed

end

section \<open>Bodies that end with the stream\<close>

context closing_reader
begin

lemma read_closing_cases:
  assumes "closing r" "0 < k"
  obtains (data) d r' where "read r k = (d, None, r')" "d \<noteq> []" "length d \<le> k"
      "pending r = d @ pending r'" "closing r'" "budget r' < budget r"
  | (ended) r' where "read r k = ([], Some EOF, r')" "pending r = []" "pending r' = []"
proof -
  obtain d e r' where r: "read r k = (d, e, r')" by (cases "read r k") auto
  show ?thesis
  proof (cases "pending r = []")
    case True
    with that(2) r closing_end [OF assms(1) True assms(2) r] read_pending [OF r] show ?thesis by auto
  next
    case False
    with that(1) r closing_data [OF assms(1) False assms(2) r] read_pending [OF r] read_bound [OF r]
      read_budget [OF r assms(2)] show ?thesis by auto
  qed
qed

text \<open>With room for the body and one more read the body is the stream up to its end.\<close>

lemma until_eof_loop_ready:
  "closing r \<Longrightarrow> 0 < k \<Longrightarrow> off + length (pending r) + k \<le> length (bodyBuf resp) \<Longrightarrow>
   int (length (bodyBuf resp)) < 2 ^ 63 \<Longrightarrow> maxBody \<le> 0 \<or> int (off + length (pending r)) < maxBody \<Longrightarrow>
   \<exists>r'. until_eof_loop read r resp off maxBody k =
       Some (None, off + length (pending r), resp\<lparr>bodyBuf := blit (bodyBuf resp) off (pending r)\<rparr>, r') \<and>
     pending r' = []"
proof (induction "budget r" arbitrary: r off resp rule: less_induct)
  case less
  have "i64 (int off + int k) = int off + int k" using less.prems by (intro i64_id) auto
  then have e: "ensureBufferSize resp (eof_required off k maxBody) = (True, resp)"
    using less.prems by (intro ensureBufferSize_id) (auto simp: eof_required_def Let_def)
  let ?n = "eof_to_read (length (bodyBuf resp)) off k maxBody"
  have n: "0 < ?n" "?n \<le> k" using less.prems by (auto simp: eof_to_read_def Let_def)
  have guard: "(maxBody > 0 \<and> int off \<ge> maxBody) = False" using less.prems by auto
  from less.prems(1) n(1) show ?case
  proof (cases rule: read_closing_cases)
    case (data d r')
    let ?resp = "resp\<lparr>bodyBuf := blit (bodyBuf resp) off d\<rparr>"
    have "\<exists>r2. until_eof_loop read r' ?resp (off + length d) maxBody k =
       Some (None, off + length d + length (pending r'),
         ?resp\<lparr>bodyBuf := blit (bodyBuf ?resp) (off + length d) (pending r')\<rparr>, r2) \<and> pending r2 = []"
      using less.prems data by (intro less.hyps) auto
    moreover have "blit (blit (bodyBuf resp) off d) (off + length d) (pending r') =
        blit (bodyBuf resp) off (pending r)"
      using less.prems data by (subst blit_blit) auto
    ultimately show ?thesis using data guard e n
      by (subst until_eof_loop.simps) (auto simp: Let_def add.assoc)
  next
    case (ended r')
    with less.prems guard e n show ?thesis by (subst until_eof_loop.simps) (auto simp: Let_def)
  qed
qed

end

text \<open>
  The end of the stream as delimiter, when the buffer is too small for the body and one more read:
  the buffer is replaced after the first read, and the body reads as zeros.
\<close>

lemma until_eof_growth_loses:
  assumes "0 < length body" "length body \<le> k" "length (bodyBuf resp) = k" "int (length body + k) < 2 ^ 63"
    "maxSize resp \<le> 0" "maxBody \<le> 0 \<or> int (length body + k) \<le> maxBody" "\<not> nc_closed c" "nc_in c = [(body, None)]"
  shows "\<exists>c' resp'. until_eof_loop conn_Read c resp 0 maxBody k = Some (None, length body, resp', c') \<and>
    take (length body) (bodyBuf resp') = zeros (length body)"
proof -
  let ?n = "length body"
  let ?resp = "resp\<lparr>bodyBuf := blit (bodyBuf resp) 0 body\<rparr>" and ?c = "c\<lparr>nc_in := []\<rparr>"
  have k: "0 < k" using assms(1,2) by linarith
  have q: "eof_required 0 k maxBody = int k" "eof_required ?n k maxBody = int (?n + k)"
    using assms by (auto simp: eof_required_def Let_def i64_id)
  have t: "eof_to_read k 0 k maxBody = k" using assms by (auto simp: eof_to_read_def Let_def)
  have g: "(maxBody > 0 \<and> int ?n \<ge> maxBody) = False"
    using assms by auto
  have "conn_Read c k = (body, None, ?c)" using assms by (simp add: conn_Read_def)
  then have 1: "until_eof_loop conn_Read c resp 0 maxBody k = until_eof_loop conn_Read ?c ?resp ?n maxBody k"
    using assms(1,3) k q(1) t by (subst until_eof_loop.simps) (auto simp: Let_def)
  obtain ok resp1 where e: "ensureBufferSize ?resp (int (?n + k)) = (ok, resp1)"
    by (cases "ensureBufferSize ?resp (int (?n + k))")
  have ok using ensureBufferSize_result(1) [OF e] assms(5) by simp
  then obtain z where z: "bodyBuf resp1 = zeros z" "?n + k \<le> z"
    using ensureBufferSize_grow [of ?resp "int (?n + k)" resp1] e assms(1,3) by auto
  have t2: "0 < eof_to_read z ?n k maxBody" using assms z k by (auto simp: eof_to_read_def Let_def)
  have "conn_Read ?c j = ([], Some EOF, ?c)" for j using assms by (simp add: conn_Read_def)
  then have "until_eof_loop conn_Read ?c ?resp ?n maxBody k =
      Some (None, ?n, resp1\<lparr>bodyBuf := blit (bodyBuf resp1) ?n []\<rparr>, ?c)"
    using \<open>ok\<close> e z t2 q(2) g by (subst until_eof_loop.simps) (simp add: Let_def)
  moreover have "take ?n (blit (zeros z) ?n []) = zeros ?n" using z by (simp add: zeros_def)
  ultimately show ?thesis using 1 z(1) by auto
qed

end
