(* ===== verification/Delivery.thy ===== *)
theory Delivery
  imports Framing
begin

text \<open>
  The response readers on a network connection: the generic results of Framing at the interpretations
  of the reader contract on connections and on buffered connections.
\<close>

section \<open>Properties of the response readers on a network connection\<close>

text \<open>
  C2. The sequential reader delivers the response on the wire: whenever the connection holds a header
  block and a body in one of the self-delimiting framings (none, Content-Length, chunked with any
  extensions and trailers), cut into segments in any way, readResponse returns without error and the
  Response object carries the status, the header fields and the body.
\<close>

theorem readResponse_delivers:
  assumes "wire_ok meth head wb" "conn_pending c = head @ render_body wb @ s"
    "conn_safe c (length head + length (render_body wb))" "length head \<le> blen" "0 < hsize"
    "int (length (body_data wb)) \<le> maxBody" "room resp wb"
  shows "\<exists>c' resp'. readResponse conn_Read c blen resp maxBody meth hsize bsize =
      Some (Done (None, resp', c')) \<and>
    carries resp' (fst (parseStatusCode head)) (head_fields head) (body_data wb)"
  using net.readResponse_ready [OF assms] by blast

definition demo_response :: Response where
  "demo_response = \<lparr>StatusCode = 0, ContentLength = 0, Body = OwnBuf 0, Headers = [],
     bodyBuf = zeros 8, maxSize = 0, rawHeaderBuf = []\<rparr>"

definition demo_head :: bytes where
  "demo_head = ''HTTP/1.1 200 OK'' @ CRLF @ ''Content-Length: 5'' @ CRLF @ CRLF"

definition demo_chunked_head :: bytes where
  "demo_chunked_head = ''HTTP/1.1 200 OK'' @ CRLF @ ''Transfer-Encoding: chunked'' @ CRLF @ CRLF"

definition demo_conn :: "bytes list \<Rightarrow> netconn" where
  "demo_conn segs = \<lparr>nc_in = map (\<lambda>d. (d, None)) segs, nc_wr = [], nc_out = [], nc_closed = False\<rparr>"

theorem readResponse_delivers_witness:
  "\<exists>c' resp'. readResponse conn_Read (demo_conn [take 20 demo_head, drop 20 demo_head @ ''he'', ''llo'']) 4096
      demo_response 100 ''GET'' 512 512 = Some (Done (None, resp', c')) \<and>
    carries resp' (fst (parseStatusCode demo_head)) (head_fields demo_head) (body_data (Sized ''hello''))"
proof (rule readResponse_delivers [where s = "[]"])
  show "wire_ok ''GET'' demo_head (Sized ''hello'')" by code_simp
  show "conn_pending (demo_conn [take 20 demo_head, drop 20 demo_head @ ''he'', ''llo'']) =
      demo_head @ render_body (Sized ''hello'') @ []" by code_simp
  show "conn_safe (demo_conn [take 20 demo_head, drop 20 demo_head @ ''he'', ''llo''])
      (length demo_head + length (render_body (Sized ''hello'')))" by code_simp
  show "length demo_head \<le> 4096" by code_simp
  show "(0 :: int) < 512" by simp
  show "int (length (body_data (Sized ''hello''))) \<le> 100" by simp
  show "room demo_response (Sized ''hello'')" by code_simp
qed

text \<open>
  C1. The pipelined reader delivers the response (decompressed if it is gzip-encoded) and leaves the
  buffered reader exactly at the byte after it, so that the next response of the connection is
  framed correctly, whatever the segmentation and whatever part of it is already buffered.
\<close>

theorem readResponseBuffered_delivers:
  assumes "wire_ok meth head wb" "bufio_pending conn_pending b = head @ render_body wb @ s"
    "bufio_safe conn_safe b (length head + (length (render_body wb) + n))" "length head \<le> slen"
    "maxBody \<le> 0 \<or> int (length (body_data wb)) \<le> maxBody" "room resp wb"
    "content gunzip (head_fields head) (body_data wb) = Some out" "within_limit resp (length out)"
  shows "\<exists>b' resp'. readResponseBuffered conn_Read gunzip b slen resp maxBody meth =
      Some (Done (None, resp', b')) \<and>
    carries resp' (fst (parseStatusCode head)) (head_fields head) out \<and>
    bufio_pending conn_pending b' = s \<and> bufio_safe conn_safe b' n"
  using assms by (rule netbuf.readResponseBuffered_ready)

definition demo_chunks :: wire_body where
  "demo_chunks = Chunked [(''5;ext=1'', ''hello''), (''2'', ''!!'')] ''0'' [''X-Sum: 7'']"

definition demo_pipeline :: "netconn bufio" where
  "demo_pipeline = NewReaderSize (demo_conn
     [take 30 demo_chunked_head, drop 30 demo_chunked_head @ take 9 (render_body demo_chunks),
      drop 9 (render_body demo_chunks) @ demo_head @ ''wor'', ''ld'']) 64"

theorem readResponseBuffered_delivers_witness:
  "\<exists>b' resp'. readResponseBuffered conn_Read (\<lambda>_. GzReadErr EOF) demo_pipeline 4096 demo_response 100 ''GET'' =
      Some (Done (None, resp', b')) \<and>
    carries resp' (fst (parseStatusCode demo_chunked_head)) (head_fields demo_chunked_head) ''hello!!'' \<and>
    bufio_pending conn_pending b' = demo_head @ ''world'' \<and> bufio_safe conn_safe b' (length demo_head + 5)"
proof (rule readResponseBuffered_delivers [where wb = demo_chunks])
  show "wire_ok ''GET'' demo_chunked_head demo_chunks" by code_simp
  show "bufio_pending conn_pending demo_pipeline =
      demo_chunked_head @ render_body demo_chunks @ demo_head @ ''world''" by code_simp
  show "bufio_safe conn_safe demo_pipeline
      (length demo_chunked_head + (length (render_body demo_chunks) + (length demo_head + 5)))" by code_simp
  show "length demo_chunked_head \<le> 4096" by code_simp
  show "(100 :: int) \<le> 0 \<or> int (length (body_data demo_chunks)) \<le> 100" by code_simp
  show "room demo_response demo_chunks" by code_simp
  show "content (\<lambda>_. GzReadErr EOF) (head_fields demo_chunked_head) (body_data demo_chunks) = Some ''hello!!''"
    by code_simp
  show "within_limit demo_response (length ''hello!!'')" by code_simp
qed


text \<open>
  A body delimited by the end of the connection is delivered whole (the bytes that came with the
  header block and everything until the peer closes), provided the buffer has room for it and for
  one more read of the configured size.
\<close>

theorem readResponseUntilEOF_delivers:
  assumes "conn_closing c" "header_block head" "maxSize resp \<le> 0"
    "length lo + length (conn_pending c) + body_read_size bsize \<le> length (bodyBuf resp)"
    "int (length (bodyBuf resp)) < 2 ^ 63"
    "maxBody \<le> 0 \<or> int (length lo + length (conn_pending c)) < maxBody"
  shows "\<exists>c' resp'. readResponseUntilEOF conn_Read c head lo resp maxBody bsize = Some (None, resp', c') \<and>
    carries resp' (fst (parseStatusCode head)) (head_fields head) (lo @ conn_pending c) \<and>
    conn_pending c' = []"
proof -
  let ?k = "body_read_size bsize"
  let ?resp0 = "parseHeaders head (resp\<lparr>StatusCode := fst (parseStatusCode head)\<rparr>)"
  let ?resp1 = "?resp0\<lparr>bodyBuf := blit (bodyBuf ?resp0) 0 lo\<rparr>"
  have 0: "bodyBuf ?resp0 = bodyBuf resp" using assms(2) by (simp add: parseHeaders_block)
  have "0 < ?k" by (simp add: body_read_size_def)
  then obtain c' where c': "until_eof_loop conn_Read c ?resp1 (length lo) maxBody ?k =
       Some (None, length lo + length (conn_pending c),
         ?resp1\<lparr>bodyBuf := blit (bodyBuf ?resp1) (length lo) (conn_pending c)\<rparr>, c')" "conn_pending c' = []"
    using net_closing.until_eof_loop_ready [of c ?k "length lo" ?resp1 maxBody] assms 0 by auto
  have b: "blit (blit (bodyBuf resp) 0 lo) (length lo) (conn_pending c) = blit (bodyBuf resp) 0 (lo @ conn_pending c)"
    using blit_blit [of 0 lo "conn_pending c" "bodyBuf resp"] assms(4) by simp
  have "take (length lo + length (conn_pending c)) (blit (bodyBuf resp) 0 (lo @ conn_pending c)) = lo @ conn_pending c"
    using take_blit_0 [of "lo @ conn_pending c" "bodyBuf resp"] assms(4) by simp
  then show ?thesis
    using c' b assms(2,4)
    by (cases "lo = []") (auto simp: readResponseUntilEOF_def Let_def parseHeaders_block carries_def Body_bytes_def)
qed

theorem readResponseUntilEOF_delivers_witness:
  "\<exists>c' resp'. readResponseUntilEOF conn_Read (demo_conn [''b'', ''c'']) demo_head ''a'' demo_response 50 4 =
      Some (None, resp', c') \<and>
    carries resp' (fst (parseStatusCode demo_head)) (head_fields demo_head) (''a'' @ conn_pending (demo_conn [''b'', ''c''])) \<and>
    conn_pending c' = []"
proof (rule readResponseUntilEOF_delivers)
  show "conn_closing (demo_conn [''b'', ''c''])" by code_simp
  show "header_block demo_head" by code_simp
  show "maxSize demo_response \<le> 0" by code_simp
  show "length ''a'' + length (conn_pending (demo_conn [''b'', ''c''])) + body_read_size 4 \<le> length (bodyBuf demo_response)"
    by code_simp
  show "int (length (bodyBuf demo_response)) < 2 ^ 63" by code_simp
  show "(50 :: int) \<le> 0 \<or> int (length ''a'' + length (conn_pending (demo_conn [''b'', ''c'']))) < 50" by code_simp
qed

text \<open>
  C38. A chunked body that outgrows the response buffer is corrupted: when the second chunk makes
  ensureBufferSize allocate a larger buffer, nothing of the old one is copied, and the body delivered
  (without any error) has zeros in place of the first chunk.
\<close>

theorem readChunkedBody_growth_loses:
  assumes "chunked_ok [(l1, c1), (l2, c2)] final ts"
    "lo @ conn_pending c = render_chunked [(l1, c1), (l2, c2)] final ts @ s"
    "conn_safe c (length (render_chunked [(l1, c1), (l2, c2)] final ts) - length lo)"
    "length c1 \<le> length (bodyBuf resp)" "length (bodyBuf resp) < length (c1 @ c2)"
    "int (length (c1 @ c2)) < 2 ^ 63" "maxSize resp \<le> 0"
    "maxBody \<le> 0 \<or> int (length (c1 @ c2)) \<le> maxBody"
  shows "\<exists>c' resp'. readChunkedBody conn_Read c lo resp maxBody = Some (Done (None, resp', c')) \<and>
    Body_bytes resp' = zeros (length c1) @ c2"
  using net.chunk_loop_growth_loses [OF assms] by (auto simp: readChunkedBody_def Body_bytes_def)

theorem readChunkedBody_growth_loses_witness:
  "\<exists>c' resp'. readChunkedBody conn_Read
      (demo_conn [render_chunked [(''4'', ''abcd''), (''6'', ''efghij'')] ''0'' []]) [] demo_response 100 =
    Some (Done (None, resp', c')) \<and> Body_bytes resp' = zeros (length ''abcd'') @ ''efghij''"
proof (rule readChunkedBody_growth_loses [where s = "[]"])
  show "chunked_ok [(''4'', ''abcd''), (''6'', ''efghij'')] ''0'' []" by code_simp
  show "[] @ conn_pending (demo_conn [render_chunked [(''4'', ''abcd''), (''6'', ''efghij'')] ''0'' []]) =
      render_chunked [(''4'', ''abcd''), (''6'', ''efghij'')] ''0'' [] @ []" by code_simp
  show "conn_safe (demo_conn [render_chunked [(''4'', ''abcd''), (''6'', ''efghij'')] ''0'' []])
      (length (render_chunked [(''4'', ''abcd''), (''6'', ''efghij'')] ''0'' []) - length ([] :: bytes))" by code_simp
  show "length ''abcd'' \<le> length (bodyBuf demo_response)" by code_simp
  show "length (bodyBuf demo_response) < length (''abcd'' @ ''efghij'')" by code_simp
  show "int (length (''abcd'' @ ''efghij'')) < 2 ^ 63" by code_simp
  show "maxSize demo_response \<le> 0" by code_simp
  show "(100 :: int) \<le> 0 \<or> int (length (''abcd'' @ ''efghij'')) \<le> 100" by code_simp
qed

text \<open>
  A body delimited by the end of the connection is lost when the buffer is exactly one read long
  (the size of a new Response object and the default read size): the buffer is replaced before the
  second read, and the body delivered is all zeros.
\<close>

theorem readResponseUntilEOF_growth_loses:
  assumes "0 < length body" "length body \<le> body_read_size bsize"
    "length (bodyBuf resp) = body_read_size bsize" "int (length body + body_read_size bsize) < 2 ^ 63"
    "maxSize resp \<le> 0" "maxBody \<le> 0 \<or> int (length body + body_read_size bsize) \<le> maxBody"
    "\<not> nc_closed c" "nc_in c = [(body, None)]" "header_block head"
  shows "\<exists>c' resp'. readResponseUntilEOF conn_Read c head [] resp maxBody bsize = Some (None, resp', c') \<and>
    Body_bytes resp' = zeros (length body)"
proof -
  let ?resp = "parseHeaders head (resp\<lparr>StatusCode := fst (parseStatusCode head)\<rparr>)"
  have "\<exists>c' resp'. until_eof_loop conn_Read c ?resp 0 maxBody (body_read_size bsize) =
      Some (None, length body, resp', c') \<and> take (length body) (bodyBuf resp') = zeros (length body)"
    using assms by (intro until_eof_growth_loses) (auto simp: parseHeaders_block)
  then show ?thesis by (auto simp: readResponseUntilEOF_def Let_def Body_bytes_def)
qed

theorem readResponseUntilEOF_growth_loses_witness:
  "\<exists>c' resp'. readResponseUntilEOF conn_Read (demo_conn [''hello'']) demo_head [] demo_response 100 8 =
      Some (None, resp', c') \<and> Body_bytes resp' = zeros (length ''hello'')"
proof (rule readResponseUntilEOF_growth_loses)
  show "0 < length ''hello''" by simp
  show "length ''hello'' \<le> body_read_size 8" by code_simp
  show "length (bodyBuf demo_response) = body_read_size 8" by code_simp
  show "int (length ''hello'' + body_read_size 8) < 2 ^ 63" by code_simp
  show "maxSize demo_response \<le> 0" by code_simp
  show "(100 :: int) \<le> 0 \<or> int (length ''hello'' + body_read_size 8) \<le> 100" by code_simp
  show "\<not> nc_closed (demo_conn [''hello''])" "nc_in (demo_conn [''hello'']) = [(''hello'', None)]"
    by (simp_all add: demo_conn_def)
  show "header_block demo_head" by code_simp
qed

text \<open>
  A Content-Length that wraps around to a negative number makes readResponse panic (the slice
  \<open>bodyBuf[:length]\<close> is out of range): a peer can crash the client with a header alone.
\<close>

theorem readResponse_negative_length_panics:
  assumes "header_block head" "parseStatusCode head = (status, True)" "\<not> no_body meth status"
    "\<not> parseTransferEncoding head" "parseContentLength head = (len, True)" "len < 0"
    "conn_pending c = head @ s" "conn_safe c (length head)" "length head \<le> blen" "0 < hsize" "0 \<le> maxBody"
  shows "readResponse conn_Read c blen resp maxBody meth hsize bsize = Some Panic"
proof -
  have "0 < length head" using assms(1) by (auto simp: header_block_iff)
  then obtain lo c1 where "read_header conn_Read c blen (nat hsize) [] = Some (Inr (head @ lo, length head), c1)"
    using net.read_header_ready [OF assms(1,9), of "nat hsize" "[]" c s "length head"] assms(7,8,10) by auto
  moreover have "len < int (length (bodyBuf r))" for r using assms(6) by simp
  ultimately show ?thesis
    using assms(2-6,10,11) by (simp add: readResponse_def read_sized_body_def Let_def order.strict_implies_order)
qed

definition demo_huge_head :: bytes where
  "demo_huge_head = ''HTTP/1.1 200 OK'' @ CRLF @ ''Content-Length: 9223372036854775808'' @ CRLF @ CRLF"

theorem readResponse_negative_length_panics_witness:
  "readResponse conn_Read (demo_conn [demo_huge_head]) 4096 demo_response 1000 ''GET'' 512 512 = Some Panic"
proof (rule readResponse_negative_length_panics [where s = "[]"])
  show "header_block demo_huge_head" by code_simp
  show "parseStatusCode demo_huge_head = (200, True)" by code_simp
  show "\<not> no_body ''GET'' 200" by code_simp
  show "\<not> parseTransferEncoding demo_huge_head" by code_simp
  show "parseContentLength demo_huge_head = (- 9223372036854775808, True)" by code_simp
  show "(- 9223372036854775808 :: int) < 0" by simp
  show "conn_pending (demo_conn [demo_huge_head]) = demo_huge_head @ []" by code_simp
  show "conn_safe (demo_conn [demo_huge_head]) (length demo_huge_head)" by code_simp
  show "length demo_huge_head \<le> 4096" by code_simp
  show "(0 :: int) < 512" "(0 :: int) \<le> 1000" by simp_all
qed

end
