(* ===== verification/Config.thy ===== *)
theory Config
  imports Complex_Main Errors
begin

text \<open>
  \<^verbatim>\<open>config.go\<close> and the configuration half of \<^verbatim>\<open>tls.go\<close>: the configuration record, its three presets, the
  defaults that Validate fills in, and the TLS configuration derived from it. A time.Duration is a
  number of nanoseconds; a float64 is a rational number (rounding is not modelled). crypto/tls is
  known only by the fields the package sets.
\<close>

abbreviation Millisecond :: int where "Millisecond \<equiv> 1000000"
abbreviation Second :: int where "Second \<equiv> 1000000000"
abbreviation Minute :: int where "Minute \<equiv> 60000000000"

abbreviation VersionTLS12 :: nat where "VersionTLS12 \<equiv> 0x0303"
abbreviation VersionTLS13 :: nat where "VersionTLS13 \<equiv> 0x0304"

record tls_config =
  MinVersion :: nat
  MaxVersion :: nat
  SkipVerify :: bool
  NextProtos :: "bytes list"
  ServerName :: bytes
  ClientSessionCache :: "int option"
  SessionTicketsDisabled :: bool

record Config =
  Host :: bytes
  Port :: int
  UseTLS :: bool
  PoolSize :: int
  MaxRequestsPerConn :: int
  IdleTimeout :: int
  DialTimeout :: int
  ReadTimeout :: int
  WriteTimeout :: int
  TLSHandshakeTimeout :: int
  ReadBufferSize :: int
  WriteBufferSize :: int
  HeaderBufferSize :: int
  HeaderReadChunkSize :: int
  BodyReadChunkSize :: int
  MaxRequestBodySize :: int
  MaxResponseBodySize :: int
  EnableCompression :: bool
  CompressionLevel :: int
  cfg_TLSConfig :: "tls_config option"
  TLSMinVersion :: nat
  TLSMaxVersion :: nat
  InsecureSkipVerify :: bool
  TLSClientSessionCacheSize :: int
  ProxyURL :: bytes
  ProxyUsername :: bytes
  ProxyPassword :: bytes
  ProxyConnectTimeout :: int
  ProxyReadTimeout :: int
  SOCKS5Addr :: bytes
  SOCKS5Username :: bytes
  SOCKS5Password :: bytes
  KeepAlive :: bool
  DisableKeepAlive :: bool
  MaxIdleConnsPerHost :: int
  EnablePipelining :: bool
  MaxPipelinedRequests :: int
  MaxRetries :: int
  RetryBaseDelay :: int
  RetryMaxDelay :: int
  RetryMultiplier :: rat
  RetryJitter :: bool
  RetryableStatus :: "int list"
  EnableDNSCache :: bool
  DNSCacheTTL :: int
  DNSNegativeTTL :: int
  EnableScheduler :: bool
  SchedulerWorkers :: int
  SchedulerQueueDepth :: int
  EnableHealthScoring :: bool
  IdleCheckInterval :: int
  EnableResponseStreaming :: bool
  TCPNoDelay :: bool
  TCPKeepAlive :: bool
  TCPKeepAlivePeriod :: int
  TCPFastOpen :: bool
  TCPReusePort :: bool
  EnablePipelineAutoTune :: bool
  EnableLogging :: bool
  cfg_Metrics :: bool
  RequestsPerSecond :: rat
  BurstSize :: int

definition DefaultConfig :: Config where
  "DefaultConfig = \<lparr>
     Host = ''localhost'', Port = 443, UseTLS = True,
     PoolSize = 512, MaxRequestsPerConn = 0, IdleTimeout = 90 * Second,
     DialTimeout = 10 * Second, ReadTimeout = 30 * Second, WriteTimeout = 10 * Second,
     TLSHandshakeTimeout = 10 * Second,
     ReadBufferSize = 64 * 1024, WriteBufferSize = 64 * 1024, HeaderBufferSize = 16 * 1024,
     HeaderReadChunkSize = 4 * 1024, BodyReadChunkSize = 64 * 1024,
     MaxRequestBodySize = 10 * 1024 * 1024, MaxResponseBodySize = 10 * 1024 * 1024,
     EnableCompression = False, CompressionLevel = 6,
     cfg_TLSConfig = None, TLSMinVersion = VersionTLS12, TLSMaxVersion = VersionTLS13,
     InsecureSkipVerify = False, TLSClientSessionCacheSize = 4096,
     ProxyURL = [], ProxyUsername = [], ProxyPassword = [],
     ProxyConnectTimeout = 10 * Second, ProxyReadTimeout = 10 * Second,
     SOCKS5Addr = [], SOCKS5Username = [], SOCKS5Password = [],
     KeepAlive = True, DisableKeepAlive = False, MaxIdleConnsPerHost = 512,
     EnablePipelining = True, MaxPipelinedRequests = 10,
     MaxRetries = 0, RetryBaseDelay = 100 * Millisecond, RetryMaxDelay = 5 * Second,
     RetryMultiplier = 2, RetryJitter = True, RetryableStatus = [429, 502, 503, 504],
     EnableDNSCache = False, DNSCacheTTL = 5 * Minute, DNSNegativeTTL = 5 * Second,
     EnableScheduler = False, SchedulerWorkers = 0, SchedulerQueueDepth = 0,
     EnableHealthScoring = True, IdleCheckInterval = 30 * Second, EnableResponseStreaming = False,
     TCPNoDelay = True, TCPKeepAlive = True, TCPKeepAlivePeriod = 30 * Second,
     TCPFastOpen = False, TCPReusePort = False, EnablePipelineAutoTune = False,
     EnableLogging = False, cfg_Metrics = False, RequestsPerSecond = 0, BurstSize = 0\<rparr>"

definition HighThroughputConfig :: Config where
  "HighThroughputConfig = DefaultConfig\<lparr>
     PoolSize := 1024, MaxPipelinedRequests := 16,
     ReadBufferSize := 128 * 1024, WriteBufferSize := 128 * 1024,
     HeaderReadChunkSize := 8 * 1024, BodyReadChunkSize := 64 * 1024,
     MaxIdleConnsPerHost := 1024, TLSClientSessionCacheSize := 8192,
     EnableDNSCache := True, IdleCheckInterval := 15 * Second,
     EnableHealthScoring := True, EnableScheduler := True, EnablePipelineAutoTune := True\<rparr>"

definition ResilientConfig :: Config where
  "ResilientConfig = DefaultConfig\<lparr>
     MaxRetries := 3, RetryBaseDelay := 200 * Millisecond, RetryMaxDelay := 10 * Second,
     RetryMultiplier := 2, RetryJitter := True, RetryableStatus := [429, 502, 503, 504],
     EnableDNSCache := True\<rparr>"

text \<open>A field that is not positive gets its default.\<close>

definition default_int :: "int \<Rightarrow> int \<Rightarrow> int" where
  "default_int d x = (if x \<le> 0 then d else x)"

definition default_proxy :: "int \<Rightarrow> int \<Rightarrow> int" where
  "default_proxy dial x = (if x \<le> 0 then (if dial \<le> 0 then 10 * Second else dial) else x)"

text \<open>
  Validate, field by field in the order of the source; it never fails. Only the proxy timeouts depend
  on a field set before: they default to the dial timeout, which has its own default by then.
\<close>

definition Validate :: "Config \<Rightarrow> goerror option \<times> Config" where
  "Validate c =
     (let dial = default_int (10 * Second) (DialTimeout c) in
      (None, c\<lparr>
         Host := (if Host c = [] then ''localhost'' else Host c),
         Port := (if Port c = 0 then (if UseTLS c then 443 else 80) else Port c),
         PoolSize := default_int 512 (PoolSize c),
         DialTimeout := dial,
         ReadTimeout := default_int (30 * Second) (ReadTimeout c),
         WriteTimeout := default_int (10 * Second) (WriteTimeout c),
         ReadBufferSize := default_int (64 * 1024) (ReadBufferSize c),
         WriteBufferSize := default_int (64 * 1024) (WriteBufferSize c),
         HeaderBufferSize := default_int (16 * 1024) (HeaderBufferSize c),
         HeaderReadChunkSize := default_int (4 * 1024) (HeaderReadChunkSize c),
         BodyReadChunkSize := default_int (64 * 1024) (BodyReadChunkSize c),
         MaxRequestBodySize := default_int (10 * 1024 * 1024) (MaxRequestBodySize c),
         MaxResponseBodySize := default_int (10 * 1024 * 1024) (MaxResponseBodySize c),
         IdleTimeout := default_int (90 * Second) (IdleTimeout c),
         ProxyConnectTimeout := default_proxy dial (ProxyConnectTimeout c),
         ProxyReadTimeout := default_proxy dial (ProxyReadTimeout c),
         TLSMinVersion := (if TLSMinVersion c = 0 then VersionTLS12 else TLSMinVersion c),
         TLSMaxVersion := (if TLSMaxVersion c = 0 then VersionTLS13 else TLSMaxVersion c),
         TLSClientSessionCacheSize := default_int 4096 (TLSClientSessionCacheSize c),
         MaxPipelinedRequests := default_int 10 (MaxPipelinedRequests c),
         TLSHandshakeTimeout := default_int (10 * Second) (TLSHandshakeTimeout c),
         MaxRetries := (if MaxRetries c < 0 then 0 else MaxRetries c),
         RetryBaseDelay := default_int (100 * Millisecond) (RetryBaseDelay c),
         RetryMaxDelay := default_int (5 * Second) (RetryMaxDelay c),
         RetryMultiplier := (if RetryMultiplier c \<le> 0 then 2 else RetryMultiplier c),
         DNSCacheTTL := default_int (5 * Minute) (DNSCacheTTL c),
         DNSNegativeTTL := default_int (5 * Second) (DNSNegativeTTL c),
         IdleCheckInterval := default_int (30 * Second) (IdleCheckInterval c)\<rparr>))"

definition BuildTLSConfig :: "Config \<Rightarrow> tls_config" where
  "BuildTLSConfig c =
     (case cfg_TLSConfig c of
        Some t \<Rightarrow> t
      | None \<Rightarrow>
          \<lparr>MinVersion = TLSMinVersion c, MaxVersion = TLSMaxVersion c, SkipVerify = InsecureSkipVerify c,
           NextProtos = [''http/1.1''], ServerName = Host c, ClientSessionCache = None,
           SessionTicketsDisabled = False\<rparr>)"

record TLSConfig =
  tc_config :: tls_config
  handshakeTimeout :: int
  enableLogging :: bool

definition NewTLSConfig :: "Config \<Rightarrow> TLSConfig" where
  "NewTLSConfig c =
     \<lparr>tc_config = (BuildTLSConfig c)\<lparr>
        ClientSessionCache := Some (if TLSClientSessionCacheSize c \<le> 0 then 4096 else TLSClientSessionCacheSize c),
        SessionTicketsDisabled := False\<rparr>,
      handshakeTimeout = (if TLSHandshakeTimeout c \<le> 0 then 10 * Second else TLSHandshakeTimeout c),
      enableLogging = EnableLogging c\<rparr>"

section \<open>Validated configurations\<close>

text \<open>What the rest of the package relies on after Validate.\<close>

definition valid_config :: "Config \<Rightarrow> bool" where
  "valid_config c \<longleftrightarrow>
     Host c \<noteq> [] \<and> Port c \<noteq> 0 \<and> PoolSize c > 0 \<and>
     DialTimeout c > 0 \<and> ReadTimeout c > 0 \<and> WriteTimeout c > 0 \<and>
     ReadBufferSize c > 0 \<and> WriteBufferSize c > 0 \<and> HeaderBufferSize c > 0 \<and>
     HeaderReadChunkSize c > 0 \<and> BodyReadChunkSize c > 0 \<and>
     MaxRequestBodySize c > 0 \<and> MaxResponseBodySize c > 0 \<and> IdleTimeout c > 0 \<and>
     ProxyConnectTimeout c > 0 \<and> ProxyReadTimeout c > 0 \<and>
     TLSMinVersion c \<noteq> 0 \<and> TLSMaxVersion c \<noteq> 0 \<and> TLSClientSessionCacheSize c > 0 \<and>
     MaxPipelinedRequests c > 0 \<and> TLSHandshakeTimeout c > 0 \<and> MaxRetries c \<ge> 0 \<and>
     RetryBaseDelay c > 0 \<and> RetryMaxDelay c > 0 \<and> RetryMultiplier c > 0 \<and>
     DNSCacheTTL c > 0 \<and> DNSNegativeTTL c > 0 \<and> IdleCheckInterval c > 0"

lemma default_int_pos: "0 < d \<Longrightarrow> 0 < default_int d x"
  by (simp add: default_int_def)

lemma default_int_id [simp]: "0 < x \<Longrightarrow> default_int d x = x"
  by (simp add: default_int_def)

lemma default_proxy_pos: "0 < default_proxy d x"
  by (simp add: default_proxy_def)

lemma default_proxy_id [simp]: "0 < x \<Longrightarrow> default_proxy d x = x"
  by (simp add: default_proxy_def)

lemma Validate_valid: "valid_config (snd (Validate c))"
  by (simp add: Validate_def Let_def valid_config_def default_int_pos default_proxy_pos)

lemma Validate_id: "valid_config c \<Longrightarrow> Validate c = (None, c)"
  by (simp add: Validate_def Let_def valid_config_def)

lemma presets_valid:
  "valid_config DefaultConfig" "valid_config HighThroughputConfig" "valid_config ResilientConfig"
  by (simp_all add: valid_config_def DefaultConfig_def HighThroughputConfig_def ResilientConfig_def)


end
