(* ===== verification/Request.thy ===== *)
theory Request
  imports Config Parser
begin

text \<open>
  \<^verbatim>\<open>request.go\<close>: the pooled Request object, its header block, which is kept already encoded, its body
  buffer and the resolution of a full URL. A context is known by an identity (what it does is an
  argument of the operations that wait on it). net/url is a parameter: what \<open>url.Parse\<close> and the
  accessors of its result return for a string.
\<close>

record Request =
  Method :: bytes
  URL :: bytes
  Path :: bytes
  req_Body :: bytes
  Compressed :: bool
  req_ReadTimeout :: int
  req_WriteTimeout :: int
  ExpectContinue :: bool
  ctx :: "nat option"
  parsedHost :: bytes
  parsedPort :: int
  parsedTLS :: bool
  parsedPath :: bytes
  urlParsed :: bool
  headerBuf :: bytes
  headerLen :: nat
  maxBodySize :: int
  PreEncodedHeaderPrefix :: bytes
  req_bodyBuf :: bytes
  req_resp :: "Response option"
  req_releaseFn :: bool

definition initialRequestBodyBufferSize :: nat where
  "initialRequestBodyBufferSize = 32 * 1024"

definition initialHeaderBufferSize :: nat where
  "initialHeaderBufferSize = 16 * 1024"

definition new_Request :: "nat \<Rightarrow> nat \<Rightarrow> int \<Rightarrow> Request" where
  "new_Request headerSize bodySize mx =
     \<lparr>Method = [], URL = [], Path = [], req_Body = [], Compressed = False, req_ReadTimeout = 0,
      req_WriteTimeout = 0, ExpectContinue = False, ctx = None, parsedHost = [], parsedPort = 0,
      parsedTLS = False, parsedPath = [], urlParsed = False, headerBuf = zeros headerSize,
      headerLen = 0, maxBodySize = mx, PreEncodedHeaderPrefix = [], req_bodyBuf = zeros bodySize,
      req_resp = None, req_releaseFn = False\<rparr>"

definition requestPool_New :: Request where
  "requestPool_New = new_Request initialHeaderBufferSize initialRequestBodyBufferSize 0"

definition Request_Reset :: "Request \<Rightarrow> Request" where
  "Request_Reset r = r\<lparr>Method := [], URL := [], Path := [], req_Body := [], Compressed := False,
     ExpectContinue := False, req_ReadTimeout := 0, req_WriteTimeout := 0, ctx := None,
     req_resp := None, req_releaseFn := False, headerLen := 0, urlParsed := False, parsedHost := [],
     parsedPort := 0, parsedTLS := False, parsedPath := [], PreEncodedHeaderPrefix := []\<rparr>"

text \<open>The argument is the object sync.Pool.Get returned.\<close>

definition AcquireRequest :: "Request \<Rightarrow> Request" where
  "AcquireRequest pooled = Request_Reset pooled"

definition ReleaseRequest :: "Request option \<Rightarrow> Request option" where
  "ReleaseRequest req =
     (case req of
        None \<Rightarrow> None
      | Some r \<Rightarrow>
          (let r1 = (if length (req_bodyBuf r) > initialRequestBodyBufferSize * 2
                     then r\<lparr>req_bodyBuf := zeros initialRequestBodyBufferSize\<rparr> else r)
           in Some (if length (headerBuf r1) > initialHeaderBufferSize * 2
                    then r1\<lparr>headerBuf := zeros initialHeaderBufferSize\<rparr> else r1)))"

definition WithMethod :: "Request \<Rightarrow> bytes \<Rightarrow> Request" where
  "WithMethod r m = r\<lparr>Method := m\<rparr>"

definition WithURL :: "Request \<Rightarrow> bytes \<Rightarrow> Request" where
  "WithURL r rawURL = r\<lparr>URL := rawURL, urlParsed := False\<rparr>"

definition WithPath :: "Request \<Rightarrow> bytes \<Rightarrow> Request" where
  "WithPath r p = r\<lparr>Path := p\<rparr>"

definition WithBody :: "Request \<Rightarrow> bytes \<Rightarrow> Request" where
  "WithBody r b = r\<lparr>req_Body := b\<rparr>"

definition WithContext :: "Request \<Rightarrow> nat option \<Rightarrow> Request" where
  "WithContext r c = r\<lparr>ctx := c\<rparr>"

definition WithReadTimeout :: "Request \<Rightarrow> int \<Rightarrow> Request" where
  "WithReadTimeout r d = r\<lparr>req_ReadTimeout := d\<rparr>"

definition WithWriteTimeout :: "Request \<Rightarrow> int \<Rightarrow> Request" where
  "WithWriteTimeout r d = r\<lparr>req_WriteTimeout := d\<rparr>"

definition WithCompression :: "Request \<Rightarrow> Request" where
  "WithCompression r = r\<lparr>Compressed := True\<rparr>"

definition WithExpectContinue :: "Request \<Rightarrow> Request" where
  "WithExpectContinue r = r\<lparr>ExpectContinue := True\<rparr>"

definition SetContext :: "Request \<Rightarrow> nat option \<Rightarrow> Request" where
  "SetContext r c = r\<lparr>ctx := c\<rparr>"

text \<open>Context: context.Background is the context with identity 0.\<close>

definition Request_Context :: "Request \<Rightarrow> nat" where
  "Request_Context r = (case ctx r of Some c \<Rightarrow> c | None \<Rightarrow> 0)"

definition SetBody :: "Request \<Rightarrow> bytes \<Rightarrow> Request" where
  "SetBody r b = r\<lparr>req_Body := b\<rparr>"

section \<open>Header block\<close>

fun containsCRLF :: "bytes \<Rightarrow> bool" where
  "containsCRLF [] = False"
| "containsCRLF (c # s) = (if c = CR \<or> c = LF then True else containsCRLF s)"

definition maxHeaderSize :: int where
  "maxHeaderSize = 1024 * 1024"

definition ensureHeaderBufferSize :: "Request \<Rightarrow> int \<Rightarrow> bool \<times> Request" where
  "ensureHeaderBufferSize r required =
     (if required \<le> int (length (headerBuf r)) then (True, r)
      else
        (let newSize = 2 * int (length (headerBuf r));
             newSize = (if newSize < required then required else newSize);
             newSize = round_up newSize 4096
         in if newSize > maxHeaderSize then
              (if maxHeaderSize < required then (False, r)
               else (True, r\<lparr>headerBuf := blit (zeros (nat maxHeaderSize)) 0 (take (headerLen r) (headerBuf r))\<rparr>))
            else (True, r\<lparr>headerBuf := blit (zeros (nat newSize)) 0 (take (headerLen r) (headerBuf r))\<rparr>)))"

text \<open>The five pieces of a header line, written one after the other at \<open>headerLen\<close>.\<close>

definition put :: "bytes \<Rightarrow> bytes \<times> nat \<Rightarrow> bytes \<times> nat" where
  "put s bp = (case bp of (buf, pos) \<Rightarrow> (blit buf pos s, pos + length s))"

definition write_line :: "bytes \<Rightarrow> bytes \<Rightarrow> Request \<Rightarrow> Request" where
  "write_line key val r =
     (case put [LF] (put [CR] (put val (put [SP] (put [CHR '':''] (put key (headerBuf r, headerLen r)))))) of
        (buf, pos) \<Rightarrow> r\<lparr>headerBuf := buf, headerLen := pos\<rparr>)"

definition SetHeader :: "Request \<Rightarrow> bytes \<Rightarrow> bytes \<Rightarrow> bool \<times> Request" where
  "SetHeader r key val =
     (if containsCRLF key \<or> containsCRLF val then (False, r)
      else
        (let required = length key + 2 + length val + 2 in
         if headerLen r + required > length (headerBuf r) then
           (case ensureHeaderBufferSize r (int (headerLen r + required)) of (ok, r1) \<Rightarrow>
              if \<not> ok then (False, r1) else (True, write_line key val r1))
         else (True, write_line key val r)))"

definition WithHeader :: "Request \<Rightarrow> bytes \<Rightarrow> bytes \<Rightarrow> Request" where
  "WithHeader r key val = snd (SetHeader r key val)"

section \<open>Body buffer\<close>

definition ensureBodyBufferSize :: "Request \<Rightarrow> int \<Rightarrow> bool \<times> Request" where
  "ensureBodyBufferSize r required =
     (if required \<le> int (length (req_bodyBuf r)) then (True, r)
      else if maxBodySize r > 0 \<and> required > maxBodySize r then (False, r)
      else
        (let newSize = grown_size (length (req_bodyBuf r)) required in
         if maxBodySize r > 0 \<and> newSize > maxBodySize r then
           (if maxBodySize r < required then (False, r)
            else (True, r\<lparr>req_bodyBuf := zeros (nat (maxBodySize r))\<rparr>))
         else (True, r\<lparr>req_bodyBuf := zeros (nat newSize)\<rparr>)))"

section \<open>Resolution of the URL\<close>

record url =
  Scheme :: bytes
  Hostname :: bytes
  url_Port :: bytes
  RequestURI :: bytes

type_synonym resolved = "bytes \<times> int \<times> bool \<times> bytes \<times> bool"

abbreviation unresolved :: resolved where
  "unresolved \<equiv> ([], 0, False, [], False)"

text \<open>The part of resolveURL after \<open>url.Parse\<close> returned \<open>u\<close>.\<close>

definition resolve_parsed :: "Request \<Rightarrow> url \<Rightarrow> resolved \<times> Request" where
  "resolve_parsed r u =
     (let scheme = map lower (Scheme u) in
      if scheme \<noteq> ''https'' \<and> scheme \<noteq> ''http'' then (unresolved, r)
      else if Hostname u = [] then (unresolved, r)
      else
        (let useTLS = (scheme = ''https'');
             port = (if useTLS then 443 else 80);
             port = (if url_Port u \<noteq> [] then
                       (case Atoi (url_Port u) of Some p \<Rightarrow> if p > 0 then p else port | None \<Rightarrow> port)
                     else port);
             path = (if RequestURI u = [] then ''/'' else RequestURI u)
         in ((Hostname u, port, useTLS, path, True),
             r\<lparr>parsedHost := Hostname u, parsedPort := port, parsedTLS := useTLS, parsedPath := path\<rparr>)))"

definition resolveURL :: "(bytes \<Rightarrow> url option) \<Rightarrow> Request \<Rightarrow> resolved \<times> Request" where
  "resolveURL parse r =
     (if urlParsed r then
        ((parsedHost r, parsedPort r, parsedTLS r, parsedPath r, parsedHost r \<noteq> []), r)
      else
        (let r1 = r\<lparr>urlParsed := True\<rparr>; raw = URL r in
         if raw = [] then (unresolved, r1)
         else
           (case parse (if \<not> sublist ''://'' raw then ''http://'' @ raw else raw) of
              None \<Rightarrow> (unresolved, r1)
            | Some u \<Rightarrow> resolve_parsed r1 u)))"

definition effectivePath :: "Request \<Rightarrow> bytes" where
  "effectivePath r =
     (if parsedPath r \<noteq> [] then parsedPath r else if Path r \<noteq> [] then Path r else ''/'')"

section \<open>The header block is what SetHeader was given\<close>

definition header_wf :: "Request \<Rightarrow> bool" where
  "header_wf r \<longleftrightarrow> headerLen r \<le> length (headerBuf r)"

definition header_bytes :: "Request \<Rightarrow> bytes" where
  "header_bytes r = take (headerLen r) (headerBuf r)"

lemma containsCRLF_iff: "containsCRLF s \<longleftrightarrow> CR \<in> set s \<or> LF \<in> set s"
  by (induction s) auto


lemma ensureHeaderBufferSize_result:
  assumes "ensureHeaderBufferSize r required = (ok, r')" "header_wf r"
  shows "ok \<longleftrightarrow> required \<le> int (length (headerBuf r)) \<or> required \<le> maxHeaderSize"
    and "header_wf r'" and "header_bytes r' = header_bytes r" and "headerLen r' = headerLen r"
    and "ok \<Longrightarrow> required \<le> int (length (headerBuf r'))"
proof -
  let ?new = "\<lambda>n. r\<lparr>headerBuf := blit (zeros n) 0 (take (headerLen r) (headerBuf r))\<rparr>"
  have grow: "header_wf (?new n) \<and> header_bytes (?new n) = header_bytes r \<and> length (headerBuf (?new n)) = n"
    if "required \<le> int n" "int (length (headerBuf r)) < required" for n
  proof -
    have "headerLen r \<le> n" using that assms(2) by (simp add: header_wf_def)
    with assms(2) show ?thesis by (simp add: header_wf_def header_bytes_def blit_def)
  qed
  define m where "m = (if 2 * int (length (headerBuf r)) < required then required else 2 * int (length (headerBuf r)))"
  define n where "n = (if round_up m 4096 > maxHeaderSize then nat maxHeaderSize else nat (round_up m 4096))"
  have "required \<le> m" by (simp add: m_def)
  then have m: "required \<le> round_up m 4096" using round_up_bounds [of 4096 m] by linarith
  have n: "required \<le> maxHeaderSize \<Longrightarrow> required \<le> int n" using m by (auto simp: n_def)
  have eq: "ensureHeaderBufferSize r required =
      (if required \<le> int (length (headerBuf r)) then (True, r)
       else if maxHeaderSize < required then (False, r) else (True, ?new n))"
    using m by (auto simp: ensureHeaderBufferSize_def Let_def n_def simp flip: m_def)
  show "ok \<longleftrightarrow> required \<le> int (length (headerBuf r)) \<or> required \<le> maxHeaderSize"
    using assms(1) unfolding eq by (auto split: if_splits)
  show "header_wf r'" "header_bytes r' = header_bytes r" "headerLen r' = headerLen r"
    "ok \<Longrightarrow> required \<le> int (length (headerBuf r'))"
    using assms grow [of n] n unfolding eq by (auto split: if_splits)
qed

lemma put_put:
  "pos + length a + length b \<le> length buf \<Longrightarrow> put b (put a (buf, pos)) = put (a @ b) (buf, pos)"
  by (simp add: put_def blit_blit)

lemma write_line_bytes:
  assumes "headerLen r + (length key + 2 + length val + 2) \<le> length (headerBuf r)"
  shows "header_bytes (write_line key val r) = header_bytes r @ render_header \<lparr>Key = key, Value = val\<rparr>"
    and "header_wf (write_line key val r)"
    and "length (headerBuf (write_line key val r)) = length (headerBuf r)"
proof -
  let ?l = "render_header \<lparr>Key = key, Value = val\<rparr>"
  have p: "put [LF] (put [CR] (put val (put [SP] (put [CHR '':''] (put key (headerBuf r, headerLen r)))))) =
      put ?l (headerBuf r, headerLen r)"
    using assms by (simp add: put_put render_header_def)
  have w: "write_line key val r =
      r\<lparr>headerBuf := blit (headerBuf r) (headerLen r) ?l, headerLen := headerLen r + length ?l\<rparr>"
    unfolding write_line_def p by (simp add: put_def)
  have "headerLen r + length ?l \<le> length (headerBuf r)" using assms by (simp add: render_header_def)
  then show "header_bytes (write_line key val r) = header_bytes r @ ?l"
    "header_wf (write_line key val r)" "length (headerBuf (write_line key val r)) = length (headerBuf r)"
    by (simp_all add: w header_bytes_def header_wf_def)
qed

text \<open>One call: nothing changes on refusal, exactly one line is added on success.\<close>

lemma SetHeader_result:
  assumes "SetHeader r key val = (ok, r')" "header_wf r"
  shows "header_wf r'"
    and "header_bytes r' = header_bytes r @ (if ok then render_header \<lparr>Key = key, Value = val\<rparr> else [])"
    and "ok \<longleftrightarrow> \<not> containsCRLF key \<and> \<not> containsCRLF val \<and>
      (let n = length (header_bytes r) + length (render_header \<lparr>Key = key, Value = val\<rparr>)
       in n \<le> length (headerBuf r) \<or> int n \<le> maxHeaderSize)"
proof -
  define n where "n = headerLen r + (length key + 2 + length val + 2)"
  have S: "SetHeader r key val =
     (if containsCRLF key \<or> containsCRLF val then (False, r)
      else if length (headerBuf r) < n then
        (case ensureHeaderBufferSize r (int n) of (ok, r1) \<Rightarrow>
           if \<not> ok then (False, r1) else (True, write_line key val r1))
      else (True, write_line key val r))"
    unfolding SetHeader_def Let_def n_def ..
  have len: "length (header_bytes r) = headerLen r" using assms(2) by (simp add: header_bytes_def header_wf_def)
  obtain ok1 r1 where e: "ensureHeaderBufferSize r (int n) = (ok1, r1)"
    by (cases "ensureHeaderBufferSize r (int n)")
  note E = ensureHeaderBufferSize_result [OF e assms(2)]
  have L: "length (render_header \<lparr>Key = key, Value = val\<rparr>) = length key + 2 + length val + 2"
    by (simp add: render_header_def)
  have W: "header_bytes (write_line key val r1) = header_bytes r1 @ render_header \<lparr>Key = key, Value = val\<rparr> \<and>
      header_wf (write_line key val r1)" if ok1
    using write_line_bytes [of r1 key val] E(4) E(5) [OF that] by (simp add: n_def)
  have R: "header_bytes (write_line key val r) = header_bytes r @ render_header \<lparr>Key = key, Value = val\<rparr> \<and>
      header_wf (write_line key val r)" if "n \<le> length (headerBuf r)"
    using write_line_bytes [of r key val] that by (simp add: n_def)
  let ?ok = "\<not> containsCRLF key \<and> \<not> containsCRLF val \<and> (n \<le> length (headerBuf r) \<or> int n \<le> maxHeaderSize)"
  have all: "header_wf r' \<and> (ok \<longleftrightarrow> ?ok) \<and>
      header_bytes r' = header_bytes r @ (if ok then render_header \<lparr>Key = key, Value = val\<rparr> else [])"
  proof (cases "containsCRLF key \<or> containsCRLF val")
    case True
    with assms show ?thesis unfolding S by auto
  next
    case clean: False
    show ?thesis
    proof (cases "n \<le> length (headerBuf r)")
      case True
      with clean assms(1) have "ok" "r' = write_line key val r" unfolding S by auto
      with R [OF True] clean True show ?thesis by simp
    next
      case False
      show ?thesis
      proof (cases ok1)
        case True
        with clean False assms(1) e have "ok" "r' = write_line key val r1" unfolding S by auto
        with W [OF True] E(1,3) clean False True show ?thesis by simp
      next
        case no: False
        with clean False assms(1) e have "\<not> ok" "r' = r1" unfolding S by auto
        with E(1-3) clean False no show ?thesis by simp
      qed
    qed
  qed
  from all show "header_wf r'" by blast
  from all show "header_bytes r' = header_bytes r @ (if ok then render_header \<lparr>Key = key, Value = val\<rparr> else [])"
    by blast
  from all show "ok \<longleftrightarrow> \<not> containsCRLF key \<and> \<not> containsCRLF val \<and>
      (let n = length (header_bytes r) + length (render_header \<lparr>Key = key, Value = val\<rparr>)
       in n \<le> length (headerBuf r) \<or> int n \<le> maxHeaderSize)"
    unfolding len L Let_def n_def by blast
qed

section \<open>Sequences of headers\<close>

text \<open>The loop \<open>for _, h := range headers { req.SetHeader(h.Key, h.Value) }\<close> of the client's methods.\<close>

fun set_headers :: "Request \<Rightarrow> Header list \<Rightarrow> Request" where
  "set_headers r [] = r"
| "set_headers r (h # hs) = set_headers (snd (SetHeader r (Key h) (Value h))) hs"

text \<open>The lines of a block, as a receiver that splits at CR LF sees them.\<close>

function crlf_lines :: "bytes \<Rightarrow> bytes list" where
  "crlf_lines s = (case split_crlf s of None \<Rightarrow> [] | Some (l, rest) \<Rightarrow> l # crlf_lines rest)"
  by pat_completeness auto
termination
  by (relation "measure length") (auto dest: split_crlf_length)

declare crlf_lines.simps [simp del]

definition header_line :: "Header \<Rightarrow> bytes" where
  "header_line h = Key h @ '': '' @ Value h"

definition one_line :: "Header \<Rightarrow> bool" where
  "one_line h \<longleftrightarrow> \<not> containsCRLF (Key h) \<and> \<not> containsCRLF (Value h)"

lemma crlf_lines_render:
  "\<forall>h \<in> set hs. one_line h \<Longrightarrow> crlf_lines (concat (map render_header hs)) = map header_line hs"
proof (induction hs)
  case Nil
  show ?case by (subst crlf_lines.simps) simp
next
  case (Cons h hs)
  have "CR \<notin> set (header_line h)"
    using Cons.prems by (auto simp: one_line_def containsCRLF_iff header_line_def)
  moreover have "concat (map render_header (h # hs)) = header_line h @ CRLF @ concat (map render_header hs)"
    by (simp add: render_header_def header_line_def)
  ultimately show ?case
    using Cons split_crlf_append [of "header_line h" "concat (map render_header hs)"]
    by (subst crlf_lines.simps) simp
qed

lemma set_headers_result:
  "header_wf r \<Longrightarrow> \<exists>acc. subseq acc hs \<and> (\<forall>h \<in> set acc. one_line h) \<and> header_wf (set_headers r hs) \<and>
     header_bytes (set_headers r hs) = header_bytes r @ concat (map render_header acc) \<and>
     (int (length (header_bytes r) + length (concat (map render_header hs))) \<le> maxHeaderSize \<longrightarrow>
        acc = filter one_line hs)"
proof (induction hs arbitrary: r)
  case (Cons h hs)
  obtain ok r' where s: "SetHeader r (Key h) (Value h) = (ok, r')" by (cases "SetHeader r (Key h) (Value h)")
  note S = SetHeader_result [OF s Cons.prems]
  have h: "render_header \<lparr>Key = Key h, Value = Value h\<rparr> = render_header h" by (simp add: render_header_def)
  have step: "set_headers r (h # hs) = set_headers r' hs" by (simp add: s)
  from Cons.IH [OF S(1)] obtain acc where acc: "subseq acc hs" "\<forall>h \<in> set acc. one_line h"
    "header_wf (set_headers r' hs)"
    "header_bytes (set_headers r' hs) = header_bytes r' @ concat (map render_header acc)"
    "int (length (header_bytes r') + length (concat (map render_header hs))) \<le> maxHeaderSize \<longrightarrow>
        acc = filter one_line hs" by blast
  show ?case
  proof (cases ok)
    case True
    then have "one_line h" using S(3) by (simp add: one_line_def)
    have B: "header_bytes r' = header_bytes r @ render_header h" using S(2) True h by simp
    show ?thesis unfolding step
    proof (intro exI [of _ "h # acc"] conjI impI)
      assume "int (length (header_bytes r) + length (concat (map render_header (h # hs)))) \<le> maxHeaderSize"
      then have "acc = filter one_line hs" using acc(5) by (simp add: B)
      then show "h # acc = filter one_line (h # hs)" using \<open>one_line h\<close> by simp
    qed (use acc(1-4) \<open>one_line h\<close> B in simp_all)
  next
    case False
    then have B: "header_bytes r' = header_bytes r" using S(2) by simp
    show ?thesis unfolding step
    proof (intro exI [of _ acc] conjI impI)
      assume a: "int (length (header_bytes r) + length (concat (map render_header (h # hs)))) \<le> maxHeaderSize"
      then have "acc = filter one_line hs" using acc(5) by (simp add: B)
      moreover have "\<not> one_line h" using S(3) a False unfolding h one_line_def Let_def by auto
      ultimately show "acc = filter one_line (h # hs)" by simp
    qed (use acc(1-4) B in auto)
  qed
qed (auto simp: header_wf_def)

text \<open>
  C23. No header injection: after any sequence of SetHeader calls on a fresh request, the header block a
  receiver splits into lines consists of exactly one line per accepted header and nothing else;
  every header without CR or LF is accepted as long as the block stays within one megabyte.
\<close>

theorem set_headers_no_injection:
  assumes "header_wf r" "headerLen r = 0"
  shows "\<exists>acc. subseq acc hs \<and> crlf_lines (header_bytes (set_headers r hs)) = map header_line acc \<and>
    header_bytes (set_headers r hs) = concat (map render_header acc) \<and>
    (int (length (concat (map render_header hs))) \<le> maxHeaderSize \<longrightarrow> acc = filter one_line hs)"
proof -
  have "header_bytes r = []" using assms(2) by (simp add: header_bytes_def)
  then obtain acc where acc: "subseq acc hs" "\<forall>h \<in> set acc. one_line h"
    "header_bytes (set_headers r hs) = concat (map render_header acc)"
    "int (length (concat (map render_header hs))) \<le> maxHeaderSize \<longrightarrow> acc = filter one_line hs"
    using set_headers_result [OF assms(1), of hs] by (metis append_Nil list.size(3) add_0)
  then show ?thesis by (metis crlf_lines_render)
qed

theorem set_headers_no_injection_witness:
  "\<exists>acc. subseq acc [\<lparr>Key = ''A'', Value = ''1''\<rparr>, \<lparr>Key = ''B'', Value = [CR, LF]\<rparr>] \<and>
    crlf_lines (header_bytes (set_headers requestPool_New [\<lparr>Key = ''A'', Value = ''1''\<rparr>, \<lparr>Key = ''B'', Value = [CR, LF]\<rparr>])) =
      map header_line acc \<and>
    header_bytes (set_headers requestPool_New [\<lparr>Key = ''A'', Value = ''1''\<rparr>, \<lparr>Key = ''B'', Value = [CR, LF]\<rparr>]) =
      concat (map render_header acc) \<and>
    (int (length (concat (map render_header [\<lparr>Key = ''A'', Value = ''1''\<rparr>, \<lparr>Key = ''B'', Value = [CR, LF]\<rparr>]))) \<le> maxHeaderSize \<longrightarrow>
      acc = filter one_line [\<lparr>Key = ''A'', Value = ''1''\<rparr>, \<lparr>Key = ''B'', Value = [CR, LF]\<rparr>])"
  by (rule set_headers_no_injection) (simp_all add: requestPool_New_def new_Request_def header_wf_def)

section \<open>URL resolution\<close>

text \<open>
  Changing the URL of a request does not clear what the previous URL resolved to: if the new URL
  is invalid, the first resolution reports the failure but every later one reports success with the
  host, port and path of the old URL.
\<close>

theorem resolveURL_stale:
  assumes "resolveURL parse r = ((host, port, tls, path, True), r1)"
    "bad \<noteq> []" "parse (if \<not> sublist ''://'' bad then ''http://'' @ bad else bad) = None"
    "resolveURL parse (WithURL r1 bad) = (res, r2)"
  shows "res = unresolved \<and> fst (resolveURL parse r2) = (host, port, tls, path, True)"
proof -
  have p: "parsedHost r1 = host" "parsedPort r1 = port" "parsedTLS r1 = tls" "parsedPath r1 = path" "host \<noteq> []"
    using assms(1) by (auto simp: resolveURL_def resolve_parsed_def Let_def split: if_splits option.splits)
  have "res = unresolved" "r2 = r1\<lparr>URL := bad, urlParsed := True\<rparr>"
    using assms(2-4) by (auto simp: resolveURL_def WithURL_def split: if_splits)
  with p show ?thesis by (simp add: resolveURL_def)
qed

definition demo_parse :: "bytes \<Rightarrow> url option" where
  "demo_parse s = (if s = ''http://a/x'' then
     Some \<lparr>Scheme = ''http'', Hostname = ''a'', url_Port = [], RequestURI = ''/x''\<rparr> else None)"

definition demo_resolved :: Request where
  "demo_resolved = (new_Request 8 8 0)\<lparr>URL := ''http://a/x'', urlParsed := True, parsedHost := ''a'', parsedPort := 80,
     parsedTLS := False, parsedPath := ''/x''\<rparr>"

theorem resolveURL_stale_witness:
  "unresolved = unresolved \<and>
   fst (resolveURL demo_parse (demo_resolved\<lparr>URL := ''%'', urlParsed := True\<rparr>)) = (''a'', 80, False, ''/x'', True)"
proof (rule resolveURL_stale [where r = "WithURL (new_Request 8 8 0) ''http://a/x''" and bad = "''%''"])
  show "resolveURL demo_parse (WithURL (new_Request 8 8 0) ''http://a/x'') = ((''a'', 80, False, ''/x'', True), demo_resolved)"
    by (simp add: resolveURL_def WithURL_def new_Request_def demo_parse_def resolve_parsed_def demo_resolved_def
        go_simps sublist_code Let_def)
  show "''%'' \<noteq> []" by simp
  show "demo_parse (if \<not> sublist ''://'' ''%'' then ''http://'' @ ''%'' else ''%'') = None"
    by (simp add: demo_parse_def)
  show "resolveURL demo_parse (WithURL demo_resolved ''%'') = (unresolved, demo_resolved\<lparr>URL := ''%'', urlParsed := True\<rparr>)"
    by (simp add: resolveURL_def WithURL_def demo_resolved_def new_Request_def demo_parse_def Let_def)
qed

end
