(* ===== verification/Writer.thy ===== *)
theory Writer
  imports Request Scanners "HOL-Library.Monad_Syntax"
begin

text \<open>
  \<^verbatim>\<open>writer.go\<close>: encoding a request into a buffer of fixed size. A writer state is the buffer with the
  position of the next byte; a write that would pass the end of the buffer fails (None is the
  result \<open>false\<close>). What an encoder leaves in the buffer when it returns an error is never used, so
  the error result carries no buffer.
\<close>

type_synonym wstate = "bytes \<times> nat"

definition writeString :: "bytes \<Rightarrow> wstate \<Rightarrow> wstate option" where
  "writeString s st = (case st of (buf, pos) \<Rightarrow>
     if pos + length s > length buf then None else Some (blit buf pos s, pos + length s))"

definition writeBytes :: "bytes \<Rightarrow> wstate \<Rightarrow> wstate option" where
  "writeBytes b st = (case st of (buf, pos) \<Rightarrow>
     if pos + length b > length buf then None else Some (blit buf pos b, pos + length b))"

definition writeByte :: "byte \<Rightarrow> wstate \<Rightarrow> wstate option" where
  "writeByte b st = (case st of (buf, pos) \<Rightarrow>
     if pos + 1 > length buf then None else Some (buf[pos := b], pos + 1))"

text \<open>The loop that fills \<open>tmp\<close> from its end; 20 bytes are enough for a 64-bit number.\<close>

function int_digits :: "nat \<Rightarrow> bytes \<Rightarrow> bytes" where
  "int_digits n tmp = (if n > 0 then int_digits (n div 10) (digit (n mod 10) # tmp) else tmp)"
  by pat_completeness auto
termination
  by (relation "measure fst") auto

declare int_digits.simps [simp del]

definition writeInt :: "int \<Rightarrow> wstate \<Rightarrow> wstate option" where
  "writeInt i st =
     (if i < 0 then None
      else
        (let n = nat i in
         if n = 0 then writeByte (CHR ''0'') st
         else if n < 10 then writeByte (digit n) st
         else if n < 100 then
           (case st of (buf, pos) \<Rightarrow>
              if pos + 2 > length buf then None
              else Some (buf[pos := digit (n div 10), pos + 1 := digit (n mod 10)], pos + 2))
         else if n < 1000 then
           (case st of (buf, pos) \<Rightarrow>
              if pos + 3 > length buf then None
              else Some (buf[pos := digit (n div 100), pos + 1 := digit (n div 10 mod 10),
                             pos + 2 := digit (n mod 10)], pos + 3))
         else if n < 10000 then
           (case st of (buf, pos) \<Rightarrow>
              if pos + 4 > length buf then None
              else Some (buf[pos := digit (n div 1000), pos + 1 := digit (n div 100 mod 10),
                             pos + 2 := digit (n div 10 mod 10), pos + 3 := digit (n mod 10)], pos + 4))
         else writeBytes (int_digits n []) st))"

definition skip_write :: "wstate \<Rightarrow> wstate option" where
  "skip_write st = Some st"

definition write_port :: "int \<Rightarrow> int \<Rightarrow> wstate \<Rightarrow> wstate option" where
  "write_port port defaultPort st =
     (if port > 0 \<and> port \<noteq> defaultPort then do { st \<leftarrow> writeByte (CHR '':'') st; writeInt port st } else skip_write st)"

text \<open>
  The request line, the Host and Connection headers and Content-Encoding: the statements that
  writeRequestHeaderPrefix, writeRequest and writeRequestPart1 have in common.
\<close>

definition write_start ::
  "Request \<Rightarrow> Config \<Rightarrow> bytes \<Rightarrow> int \<Rightarrow> bool \<Rightarrow> bool \<Rightarrow> bool \<Rightarrow> wstate \<Rightarrow> wstate option" where
  "write_start req cfg host port useTLS compressed forwardProxy st =
     do {
       st \<leftarrow> writeString (if Method req = [] then ''GET'' else Method req) st;
       st \<leftarrow> writeByte SP st;
       st \<leftarrow> (if forwardProxy then
                do { st \<leftarrow> writeString ''http://'' st; st \<leftarrow> writeString host st; write_port port 80 st }
              else skip_write st);
       st \<leftarrow> writeString (effectivePath req) st;
       st \<leftarrow> writeString ('' HTTP/1.1'' @ CRLF) st;
       st \<leftarrow> writeString ''Host: '' st;
       st \<leftarrow> writeString host st;
       st \<leftarrow> write_port port (if useTLS then 443 else 80) st;
       st \<leftarrow> writeString CRLF st;
       st \<leftarrow> (if KeepAlive cfg \<and> \<not> DisableKeepAlive cfg
              then writeString (''Connection: keep-alive'' @ CRLF) st
              else writeString (''Connection: close'' @ CRLF) st);
       (if compressed then writeString (''Content-Encoding: gzip'' @ CRLF) st else skip_write st)
     }"

definition write_length :: "int \<Rightarrow> wstate \<Rightarrow> wstate option" where
  "write_length n st =
     do { st \<leftarrow> writeString ''Content-Length: '' st; st \<leftarrow> writeInt n st; writeString (CRLF @ CRLF) st }"

definition expect_line :: bytes where
  "expect_line = ''Expect: 100-continue'' @ CRLF"

text \<open>The slice \<open>buf[:pos]\<close> on success, ErrHeaderBufferSmall otherwise.\<close>

definition encoded :: "wstate option \<Rightarrow> goerror + bytes" where
  "encoded st = (case st of None \<Rightarrow> Inl ErrHeaderBufferSmall | Some (buf, pos) \<Rightarrow> Inr (take pos buf))"

definition writeRequestHeaderPrefix ::
  "bytes \<Rightarrow> Request \<Rightarrow> Config \<Rightarrow> bytes \<Rightarrow> int \<Rightarrow> bool \<Rightarrow> bool \<Rightarrow> bool \<Rightarrow> bytes \<Rightarrow> goerror + bytes" where
  "writeRequestHeaderPrefix buf req cfg host port useTLS compressed forwardProxy proxyAuthHeader =
     encoded (do {
       st \<leftarrow> write_start req cfg host port useTLS compressed forwardProxy (buf, 0);
       st \<leftarrow> (if headerLen req > 0 then writeBytes (take (headerLen req) (headerBuf req)) st else skip_write st);
       st \<leftarrow> (if forwardProxy \<and> proxyAuthHeader \<noteq> [] then writeBytes proxyAuthHeader st else skip_write st);
       (if ExpectContinue req then writeString expect_line st else skip_write st)
     })"

definition writeRequest ::
  "bytes \<Rightarrow> Request \<Rightarrow> Config \<Rightarrow> bytes \<Rightarrow> int \<Rightarrow> bool \<Rightarrow> bytes \<Rightarrow> bool \<Rightarrow> bool \<Rightarrow> bytes \<Rightarrow> goerror + bytes" where
  "writeRequest buf req cfg host port useTLS body compressed forwardProxy proxyAuthHeader =
     encoded (do {
       st \<leftarrow> write_start req cfg host port useTLS compressed forwardProxy (buf, 0);
       st \<leftarrow> (if headerLen req > 0 then writeBytes (take (headerLen req) (headerBuf req)) st else skip_write st);
       st \<leftarrow> (if forwardProxy \<and> proxyAuthHeader \<noteq> [] then writeBytes proxyAuthHeader st else skip_write st);
       st \<leftarrow> (if ExpectContinue req \<and> body \<noteq> [] then writeString expect_line st else skip_write st);
       write_length (int (length body)) st
     })"

definition writeRequestPart1 ::
  "bytes \<Rightarrow> Request \<Rightarrow> Config \<Rightarrow> bytes \<Rightarrow> int \<Rightarrow> bool \<Rightarrow> bool \<Rightarrow> bool \<Rightarrow> goerror + bytes" where
  "writeRequestPart1 buf req cfg host port useTLS compressed forwardProxy =
     encoded (write_start req cfg host port useTLS compressed forwardProxy (buf, 0))"

definition writeRequestPart3 :: "bytes \<Rightarrow> Request \<Rightarrow> int \<Rightarrow> bytes \<Rightarrow> goerror + bytes" where
  "writeRequestPart3 buf req bodyLen proxyAuthHeader =
     encoded (do {
       st \<leftarrow> (if proxyAuthHeader \<noteq> [] then
                (if length proxyAuthHeader > length buf then None
                 else Some (blit buf 0 proxyAuthHeader, length proxyAuthHeader))
              else skip_write (buf, 0));
       st \<leftarrow> (if ExpectContinue req \<and> bodyLen > 0 then writeString expect_line st else skip_write st);
       write_length bodyLen st
     })"

section \<open>Every encoder appends a string that depends on its arguments only\<close>

text \<open>
  \<open>appends w s\<close>: the writer \<open>w\<close> appends \<open>s\<close> if there is room for it and fails otherwise. The property
  composes, so an encoder is reduced to the string it renders.
\<close>

definition appends :: "(wstate \<Rightarrow> wstate option) \<Rightarrow> bytes \<Rightarrow> bool" where
  "appends w s \<longleftrightarrow> (\<forall>buf pos. pos \<le> length buf \<longrightarrow> w (buf, pos) =
     (if pos + length s \<le> length buf then Some (blit buf pos s, pos + length s) else None))"

lemma appendsD:
  "appends w s \<Longrightarrow> pos \<le> length buf \<Longrightarrow>
   w (buf, pos) = (if pos + length s \<le> length buf then Some (blit buf pos s, pos + length s) else None)"
  by (simp add: appends_def)

lemma appends_writeString [intro]: "appends (writeString s) s"
  by (auto simp: appends_def writeString_def)

lemma appends_writeBytes [intro]: "appends (writeBytes s) s"
  by (auto simp: appends_def writeBytes_def)

lemma blit_one: "pos < length buf \<Longrightarrow> blit buf pos [b] = buf[pos := b]"
  by (simp add: blit_def upd_conv_take_nth_drop)

lemma appends_writeByte [intro]: "appends (writeByte b) [b]"
  by (auto simp: appends_def writeByte_def blit_one)

lemma appends_skip [intro]: "appends skip_write []"
  by (auto simp: appends_def skip_write_def)

lemma appends_bind [intro]:
  assumes "appends w s" "appends w' s'"
  shows "appends (\<lambda>st. w st \<bind> w') (s @ s')"
  unfolding appends_def
proof (intro allI impI)
  fix buf :: bytes and pos :: nat
  assume p: "pos \<le> length buf"
  show "w (buf, pos) \<bind> w' =
     (if pos + length (s @ s') \<le> length buf then Some (blit buf pos (s @ s'), pos + length (s @ s')) else None)"
  proof (cases "pos + length s \<le> length buf")
    case True
    then have "w (buf, pos) = Some (blit buf pos s, pos + length s)"
      using assms(1) p by (simp add: appendsD)
    moreover have "w' (blit buf pos s, pos + length s) =
        (if pos + length s + length s' \<le> length buf
         then Some (blit (blit buf pos s) (pos + length s) s', pos + length s + length s') else None)"
      using assms(2) True p by (simp add: appendsD)
    ultimately show ?thesis using True by (simp add: blit_blit add.assoc)
  next
    case False
    then show ?thesis using assms(1) p by (simp add: appendsD)
  qed
qed

lemma appends_if [intro]:
  assumes "appends w s" "appends w' s'"
  shows "appends (\<lambda>st. if b then w st else w' st) (if b then s else s')"
  using assms by (auto simp: appends_def)

lemma appends_cong: "appends w s \<Longrightarrow> (\<And>st. w st = w' st) \<Longrightarrow> appends w' s"
  by (simp add: appends_def)

section \<open>Numbers\<close>

lemma int_digits_eq: "int_digits n tmp = (if n = 0 then tmp else itoa n @ tmp)"
proof (induction n tmp rule: int_digits.induct)
  case (1 n tmp)
  then show ?case
    by (cases "n < 10") (auto simp: int_digits.simps [of n] int_digits.simps [of 0] itoa.simps [of n])
qed

lemma itoa_snoc: "10 \<le> n \<Longrightarrow> itoa n = itoa (n div 10) @ [digit (n mod 10)]"
  by (subst itoa.simps) simp

lemma itoa_one: "n < 10 \<Longrightarrow> itoa n = [digit n]"
  by (subst itoa.simps) simp

lemma itoa_small:
  "10 \<le> n \<Longrightarrow> n < 100 \<Longrightarrow> itoa n = [digit (n div 10), digit (n mod 10)]"
  "100 \<le> n \<Longrightarrow> n < 1000 \<Longrightarrow> itoa n = [digit (n div 100), digit (n div 10 mod 10), digit (n mod 10)]"
  "1000 \<le> n \<Longrightarrow> n < 10000 \<Longrightarrow>
     itoa n = [digit (n div 1000), digit (n div 100 mod 10), digit (n div 10 mod 10), digit (n mod 10)]"
  by (simp_all add: itoa_snoc itoa_one flip: div_mult2_eq)

lemma blit_Cons: "pos + length (b # bs) \<le> length buf \<Longrightarrow> blit buf pos (b # bs) = blit (buf[pos := b]) (pos + 1) bs"
  using blit_blit [of pos "[b]" bs buf] by (simp add: blit_one)

lemma blit_updates:
  "pos + 2 \<le> length buf \<Longrightarrow> buf[pos := a, pos + 1 := b] = blit buf pos [a, b]"
  "pos + 3 \<le> length buf \<Longrightarrow> buf[pos := a, pos + 1 := b, pos + 2 := c] = blit buf pos [a, b, c]"
  "pos + 4 \<le> length buf \<Longrightarrow> buf[pos := a, pos + 1 := b, pos + 2 := c, pos + 3 := d] = blit buf pos [a, b, c, d]"
  by (simp_all add: blit_Cons blit_one numeral_eq_Suc)

text \<open>writeInt writes the decimal representation: the unrolled cases and the loop agree with it.\<close>

lemma appends_writeInt_nat: "appends (writeInt (int n)) (itoa n)"
proof -
  consider "n = 0" | "0 < n" "n < 10" | "10 \<le> n" "n < 100" | "100 \<le> n" "n < 1000" | "1000 \<le> n" "n < 10000"
    | "10000 \<le> n" by linarith
  then show ?thesis
  proof cases
    case 1
    have "itoa 0 = ''0''" by code_simp
    with 1 appends_writeByte [of "CHR ''0''"] show ?thesis by (simp add: appends_def writeInt_def)
  next
    case 2
    with appends_writeByte [of "digit n"] show ?thesis by (simp add: appends_def writeInt_def Let_def itoa_one)
  next
    case 6
    with appends_writeBytes [of "itoa n"] show ?thesis
      by (simp add: appends_def writeInt_def Let_def int_digits_eq)
  next
    case 3
    then show ?thesis using blit_updates(1) by (simp add: appends_def writeInt_def Let_def itoa_small)
  next
    case 4
    then show ?thesis using blit_updates(2) by (simp add: appends_def writeInt_def Let_def itoa_small)
  next
    case 5
    then show ?thesis using blit_updates(3) by (simp add: appends_def writeInt_def Let_def itoa_small)
  qed
qed

lemma appends_writeInt [intro]: "0 \<le> i \<Longrightarrow> appends (writeInt i) (itoa (nat i))"
  using appends_writeInt_nat [of "nat i"] by simp

section \<open>The strings the encoders render\<close>

definition render_port :: "int \<Rightarrow> int \<Rightarrow> bytes" where
  "render_port port defaultPort = (if port > 0 \<and> port \<noteq> defaultPort then CHR '':'' # itoa (nat port) else [])"

definition render_start :: "Request \<Rightarrow> Config \<Rightarrow> bytes \<Rightarrow> int \<Rightarrow> bool \<Rightarrow> bool \<Rightarrow> bool \<Rightarrow> bytes" where
  "render_start req cfg host port useTLS compressed forwardProxy =
     (if Method req = [] then ''GET'' else Method req) @ [SP] @
     (if forwardProxy then ''http://'' @ host @ render_port port 80 else []) @
     effectivePath req @ ('' HTTP/1.1'' @ CRLF) @
     ''Host: '' @ host @ render_port port (if useTLS then 443 else 80) @ CRLF @
     (if KeepAlive cfg \<and> \<not> DisableKeepAlive cfg then ''Connection: keep-alive'' @ CRLF
      else ''Connection: close'' @ CRLF) @
     (if compressed then ''Content-Encoding: gzip'' @ CRLF else [])"

definition render_length :: "nat \<Rightarrow> bytes" where
  "render_length n = ''Content-Length: '' @ itoa n @ (CRLF @ CRLF)"

definition render_request ::
  "Request \<Rightarrow> Config \<Rightarrow> bytes \<Rightarrow> int \<Rightarrow> bool \<Rightarrow> bytes \<Rightarrow> bool \<Rightarrow> bool \<Rightarrow> bytes \<Rightarrow> bytes" where
  "render_request req cfg host port useTLS body compressed forwardProxy auth =
     render_start req cfg host port useTLS compressed forwardProxy @ header_bytes req @
     (if forwardProxy then auth else []) @
     (if ExpectContinue req \<and> body \<noteq> [] then expect_line else []) @ render_length (length body)"

lemma appends_write_port: "appends (write_port port d) (render_port port d)"
proof (cases "port > 0 \<and> port \<noteq> d")
  case True
  have "appends (\<lambda>st. writeByte (CHR '':'') st \<bind> writeInt port) ([CHR '':''] @ itoa (nat port))"
    using True by (intro appends_bind appends_writeByte appends_writeInt) simp
  with True show ?thesis by (simp add: appends_def write_port_def render_port_def)
next
  case False
  then show ?thesis using appends_skip by (auto simp: appends_def write_port_def render_port_def)
qed

lemma appends_write_start:
  "appends (write_start req cfg host port useTLS compressed forwardProxy)
     (render_start req cfg host port useTLS compressed forwardProxy)"
  unfolding write_start_def render_start_def
  by (intro appends_bind appends_if appends_writeString appends_writeByte appends_skip appends_write_port)

lemma appends_write_length: "0 \<le> n \<Longrightarrow> appends (write_length n) (render_length (nat n))"
  unfolding write_length_def render_length_def
  by (intro appends_bind appends_writeString appends_writeInt)

lemma encoded_appends:
  "appends w s \<Longrightarrow> encoded (w (buf, 0)) = (if length s \<le> length buf then Inr s else Inl ErrHeaderBufferSmall)"
  using take_blit [of 0 s buf] by (simp add: appendsD encoded_def)

lemma appends_header:
  "header_wf req \<Longrightarrow>
   appends (\<lambda>st. if headerLen req > 0 then writeBytes (take (headerLen req) (headerBuf req)) st else skip_write st)
     (header_bytes req)"
  using appends_writeBytes [of "header_bytes req"] appends_skip
  by (cases "headerLen req > 0") (auto simp: header_bytes_def)

lemma appends_auth:
  "appends (\<lambda>st. if forwardProxy \<and> auth \<noteq> [] then writeBytes auth st else skip_write st)
     (if forwardProxy then auth else [])"
  using appends_writeBytes [of auth] appends_skip by (cases "auth = []") auto

lemma writeRequest_eq:
  assumes "header_wf req"
  shows "writeRequest buf req cfg host port useTLS body compressed forwardProxy auth =
    (let s = render_request req cfg host port useTLS body compressed forwardProxy auth
     in if length s \<le> length buf then Inr s else Inl ErrHeaderBufferSmall)"
  unfolding writeRequest_def render_request_def Let_def using assms
  by (intro encoded_appends appends_bind appends_write_start appends_header appends_auth appends_if
      appends_writeString appends_skip appends_write_length [of "int (length body)", simplified]) 

lemma writeRequestPart1_eq:
  "writeRequestPart1 buf req cfg host port useTLS compressed forwardProxy =
    (let s = render_start req cfg host port useTLS compressed forwardProxy
     in if length s \<le> length buf then Inr s else Inl ErrHeaderBufferSmall)"
  unfolding writeRequestPart1_def Let_def by (intro encoded_appends appends_write_start)

lemma writeRequestPart3_eq:
  "writeRequestPart3 buf req (int n) auth =
    (let s = auth @ (if ExpectContinue req \<and> 0 < n then expect_line else []) @ render_length n
     in if length s \<le> length buf then Inr s else Inl ErrHeaderBufferSmall)"
proof -
  have "writeRequestPart3 buf req (int n) auth = encoded (do {
       st \<leftarrow> writeBytes auth (buf, 0);
       st \<leftarrow> (if ExpectContinue req \<and> int n > 0 then writeString expect_line st else skip_write st);
       write_length (int n) st })"
    by (cases "auth = []") (simp_all add: writeRequestPart3_def writeBytes_def skip_write_def)
  moreover have a: "appends (\<lambda>st. writeBytes auth st \<bind> (\<lambda>st.
       (if ExpectContinue req \<and> int n > 0 then writeString expect_line st else skip_write st) \<bind> write_length (int n)))
     (auth @ (if ExpectContinue req \<and> int n > 0 then expect_line else []) @ render_length n)"
    using appends_write_length [of "int n"]
    by (intro appends_bind appends_writeBytes appends_if appends_writeString appends_skip) simp_all
  ultimately show ?thesis using encoded_appends [OF a, of buf] by (simp add: Let_def)
qed

lemma writeRequestHeaderPrefix_eq:
  assumes "header_wf req"
  shows "writeRequestHeaderPrefix buf req cfg host port useTLS compressed forwardProxy auth =
    (let s = render_start req cfg host port useTLS compressed forwardProxy @ header_bytes req @
       (if forwardProxy then auth else []) @ (if ExpectContinue req then expect_line else [])
     in if length s \<le> length buf then Inr s else Inl ErrHeaderBufferSmall)"
  unfolding writeRequestHeaderPrefix_def Let_def using assms
  by (intro encoded_appends appends_bind appends_write_start appends_header appends_auth appends_if
      appends_writeString appends_skip)

text \<open>
  writeRequest produces exactly the rendering of the request (request line, Host with the port
  unless it is the default one, Connection, Content-Encoding, the header block, Expect and
  Content-Length) if the buffer has room for it, and fails with ErrHeaderBufferSmall otherwise.
\<close>

theorem writeRequest_renders:
  assumes "header_wf req"
  shows "writeRequest buf req cfg host port useTLS body compressed forwardProxy auth =
    (let s = render_request req cfg host port useTLS body compressed forwardProxy auth
     in if length s \<le> length buf then Inr s else Inl ErrHeaderBufferSmall)"
  using assms by (rule writeRequest_eq)

theorem writeRequest_renders_witness:
  "writeRequest (zeros 512) requestPool_New DefaultConfig ''example.com'' 8080 False ''hello'' False False [] =
    (let s = render_request requestPool_New DefaultConfig ''example.com'' 8080 False ''hello'' False False []
     in if length s \<le> length (zeros 512) then Inr s else Inl ErrHeaderBufferSmall)"
  by (rule writeRequest_renders) (simp add: header_wf_def requestPool_New_def new_Request_def)


definition demo_request :: Request where
  "demo_request = (new_Request 16 16 0)\<lparr>Method := ''POST'', Path := ''/p'',
     headerBuf := ''A: 1'' @ CRLF @ zeros 10, headerLen := 6\<rparr>"

definition demo_start :: bytes where
  "demo_start = ''POST /p HTTP/1.1'' @ CRLF @ ''Host: h'' @ CRLF @ ''Connection: keep-alive'' @ CRLF"

lemma demo_start_eq: "render_start demo_request DefaultConfig ''h'' 443 True False False = demo_start"
  by (simp add: render_start_def demo_request_def new_Request_def render_port_def effectivePath_def DefaultConfig_def demo_start_def)

lemma demo_header_bytes: "header_bytes demo_request = ''A: 1'' @ CRLF"
  by (simp add: header_bytes_def demo_request_def)


section \<open>What a peer reads\<close>

definition request_line :: "Request \<Rightarrow> bytes" where
  "request_line req = (if Method req = [] then ''GET'' else Method req) @ [SP] @ effectivePath req @ '' HTTP/1.1''"

definition request_fields ::
  "Request \<Rightarrow> Config \<Rightarrow> bytes \<Rightarrow> int \<Rightarrow> bool \<Rightarrow> bytes \<Rightarrow> bool \<Rightarrow> Header list \<Rightarrow> Header list" where
  "request_fields req cfg host port useTLS body compressed hs =
     [\<lparr>Key = ''Host'', Value = host @ render_port port (if useTLS then 443 else 80)\<rparr>,
      \<lparr>Key = ''Connection'', Value = (if KeepAlive cfg \<and> \<not> DisableKeepAlive cfg then ''keep-alive'' else ''close'')\<rparr>] @
     (if compressed then [\<lparr>Key = ''Content-Encoding'', Value = ''gzip''\<rparr>] else []) @ hs @
     (if ExpectContinue req \<and> body \<noteq> [] then [\<lparr>Key = ''Expect'', Value = ''100-continue''\<rparr>] else []) @
     [\<lparr>Key = ''Content-Length'', Value = itoa (length body)\<rparr>]"

lemma render_request_fields:
  assumes "header_bytes req = concat (map render_header hs)"
  shows "render_request req cfg host port useTLS body compressed False auth =
    request_line req @ CRLF @ concat (map render_header (request_fields req cfg host port useTLS body compressed hs)) @ CRLF"
  using assms by (simp add: render_request_def render_start_def request_line_def request_fields_def
      render_header_def render_length_def expect_line_def)

lemma digits_clean: "\<forall>c \<in> set s. is_digit c \<Longrightarrow> CR \<notin> set s \<and> (s \<noteq> [] \<longrightarrow> trimmed s)"
proof -
  assume d: "\<forall>c \<in> set s. is_digit c"
  have "\<not> is_digit CR" by (simp add: is_digit_def of_char_Char)
  with d show ?thesis by (auto simp: trimmed_def digit_not_blank hd_in_set)
qed

lemma host_value_clean:
  assumes "host \<noteq> []" "trimmed host" "CR \<notin> set host"
  shows "trimmed (host @ render_port port d) \<and> CR \<notin> set (host @ render_port port d)"
proof -
  have t: "trimmed (itoa n)" "CR \<notin> set (itoa n)" for n using digits_clean [OF itoa_digits, of n] by auto
  then show ?thesis using assms by (auto simp: render_port_def trimmed_def)
qed

lemma writeRequest_output:
  assumes "header_wf req" "writeRequest buf req cfg host port useTLS body compressed forwardProxy auth = Inr out"
  shows "out = render_request req cfg host port useTLS body compressed forwardProxy auth"
  using assms(2) by (simp add: writeRequest_eq [OF assms(1)] Let_def split: if_splits)

lemma demo_request_written:
  "header_wf demo_request \<and>
   writeRequest (zeros 8192) demo_request DefaultConfig ''h'' 443 True ''hi'' False False [] =
     Inr (demo_start @ (''A: 1'' @ CRLF) @ render_length 2)"
proof -
  have wf: "header_wf demo_request" by (simp add: header_wf_def demo_request_def)
  have "length demo_start = 51" "length (render_length 2) = 21" "\<not> ExpectContinue demo_request"
    by (simp_all add: demo_start_def render_length_def itoa_one demo_request_def new_Request_def)
  with wf show ?thesis
    by (simp add: writeRequest_eq [OF wf] render_request_def demo_start_eq demo_header_bytes numeral_2_eq_2)
qed



text \<open>
  The path of a request is not guarded against CR LF the way SetHeader guards headers: a Path with
  an embedded line break puts a line of the caller's choice right after the request line.
\<close>

theorem path_injects_line:
  assumes "header_wf req" "writeRequest buf req cfg host port useTLS body compressed False auth = Inr out"
    "parsedPath req = []" "Path req = p @ CRLF @ evil @ CRLF @ q" "CR \<notin> set (Method req)" "CR \<notin> set p"
    "CR \<notin> set evil"
  shows "\<exists>rest. crlf_lines out = ((if Method req = [] then ''GET'' else Method req) @ [SP] @ p) # evil # rest"
proof -
  let ?m = "(if Method req = [] then ''GET'' else Method req) @ [SP] @ p"
  have "effectivePath req = p @ CRLF @ evil @ CRLF @ q" using assms(3,4) by (simp add: effectivePath_def)
  then obtain z where z: "out = ?m @ CRLF @ (evil @ CRLF @ z)"
    by (simp add: writeRequest_output [OF assms(1,2)] render_request_def render_start_def)
  have "CR \<notin> set ?m" using assms(5,6) by auto
  then have 1: "split_crlf (?m @ CRLF @ (evil @ CRLF @ z)) = Some (?m, evil @ CRLF @ z)" by (rule split_crlf_append)
  have 2: "split_crlf (evil @ CRLF @ z) = Some (evil, z)" using assms(7) by (rule split_crlf_append)
  have "crlf_lines (evil @ CRLF @ z) = evil # crlf_lines z"
    by (subst crlf_lines.simps) (simp only: 2 option.case prod.case)
  moreover have "crlf_lines (?m @ CRLF @ (evil @ CRLF @ z)) = ?m # crlf_lines (evil @ CRLF @ z)"
    by (subst crlf_lines.simps) (simp only: 1 option.case prod.case)
  ultimately show ?thesis unfolding z by (intro exI) (simp only:)
qed

definition demo_evil :: Request where
  "demo_evil = (new_Request 8 8 0)\<lparr>Path := ''/ HTTP/1.1'' @ CRLF @ ''X-Evil: 1'' @ CRLF @ []\<rparr>"

theorem path_injects_line_witness:
  "\<exists>rest. crlf_lines (render_request demo_evil DefaultConfig ''h'' 443 True [] False False []) =
    ((if Method demo_evil = [] then ''GET'' else Method demo_evil) @ [SP] @ ''/ HTTP/1.1'') # ''X-Evil: 1'' # rest"
proof (rule path_injects_line [where q = "[]"])
  show wf: "header_wf demo_evil" by (simp add: header_wf_def demo_evil_def new_Request_def)
  have "length (render_request demo_evil DefaultConfig ''h'' 443 True [] False False []) \<le> 512"
    by (simp add: render_request_def render_start_def demo_evil_def new_Request_def effectivePath_def render_port_def
        DefaultConfig_def header_bytes_def render_length_def itoa_one)
  then show "writeRequest (zeros 512) demo_evil DefaultConfig ''h'' 443 True [] False False [] =
      Inr (render_request demo_evil DefaultConfig ''h'' 443 True [] False False [])"
    by (simp add: writeRequest_eq [OF wf] Let_def)
qed (simp_all add: demo_evil_def new_Request_def)

end
