(* ===== verification/Timing.thy ===== *)
theory Timing
  imports Complex_Main Errors
begin

text \<open>
  Time, contexts and number conversions shared by the retry, rate-limit and pool components.
  Instants and durations are nanoseconds as integers. A context.Context is the instant at which its
  Done channel closes together with the error Err then returns (none for a context that is never
  done). A select between a timer and Done is decided by the earlier of the two; when both are ready
  at once Go chooses at random, which is the argument \<open>tie\<close>.
  A float64 is a rational number: rounding is not modelled.
\<close>

type_synonym ctx = "(int \<times> goerror) option"

definition ctx_Err :: "ctx \<Rightarrow> int \<Rightarrow> goerror option" where
  "ctx_Err c now = (case c of Some (t, e) \<Rightarrow> if t \<le> now then Some e else None | None \<Rightarrow> None)"

text \<open>The result of the select and the instant at which it returns.\<close>

definition select_timer :: "bool \<Rightarrow> int \<Rightarrow> int \<Rightarrow> ctx \<Rightarrow> goerror option \<times> int" where
  "select_timer tie now d c =
     (let fire = now + max 0 d in
      case c of
        None \<Rightarrow> (None, fire)
      | Some (t, e) \<Rightarrow>
          if max now t < fire \<or> (max now t = fire \<and> tie) then (Some e, max now t) else (None, fire))"

text \<open>Conversion of a float64 to an integer type truncates towards zero.\<close>

definition trunc :: "rat \<Rightarrow> int" where
  "trunc x = (if 0 \<le> x then \<lfloor>x\<rfloor> else - \<lfloor>- x\<rfloor>)"

lemma trunc_nonneg: "0 \<le> x \<Longrightarrow> trunc x = \<lfloor>x\<rfloor>"
  by (simp add: trunc_def)

lemma trunc_of_int [simp]: "trunc (of_int n) = n"
  by (simp add: trunc_def)

lemma trunc_mono: "0 \<le> x \<Longrightarrow> x \<le> y \<Longrightarrow> trunc x \<le> trunc y"
  by (simp add: trunc_nonneg floor_mono)

lemma select_timer_returns_by:
  "snd (select_timer tie now d c) \<le> now + max 0 d \<and> now \<le> snd (select_timer tie now d c)"
  by (auto simp: select_timer_def Let_def split: option.splits)

end
