(* ===== verification/HttpDate.thy ===== *)
theory HttpDate
  imports Timing "HOL-Library.Monad_Syntax"
begin

text \<open>
  time.Parse for the layout of an HTTP date, \<^verbatim>\<open>Mon, 02 Jan 2006 15:04:05 GMT\<close>, as
  parseRetryAfter of \<^verbatim>\<open>retry.go\<close> uses it. The library's leniency is kept: names match without
  regard to case, a blank of the layout matches any number of blanks, the hour may have one digit and
  a fraction of a second may follow the seconds. The weekday is not compared with the date.
  The result is the instant in nanoseconds since the epoch.
\<close>

definition shortDayNames :: "bytes list" where
  "shortDayNames = [''Sun'', ''Mon'', ''Tue'', ''Wed'', ''Thu'', ''Fri'', ''Sat'']"

definition shortMonthNames :: "bytes list" where
  "shortMonthNames = [''Jan'', ''Feb'', ''Mar'', ''Apr'', ''May'', ''Jun'', ''Jul'', ''Aug'', ''Sep'', ''Oct'', ''Nov'', ''Dec'']"

fun lookup_name :: "nat \<Rightarrow> bytes list \<Rightarrow> bytes \<Rightarrow> (nat \<times> bytes) option" where
  "lookup_name i [] val = None"
| "lookup_name i (v # tab) val =
     (if length v \<le> length val \<and> fold_eq (take (length v) val) v then Some (i, drop (length v) val)
      else lookup_name (Suc i) tab val)"

fun skip_prefix :: "bytes \<Rightarrow> bytes \<Rightarrow> bytes option" where
  "skip_prefix [] val = Some val"
| "skip_prefix (p # ps) val =
     (if p = SP then
        (if val \<noteq> [] \<and> hd val \<noteq> SP then None else skip_prefix ps (dropWhile (\<lambda>c. c = SP) val))
      else
        (case val of
           [] \<Rightarrow> None
         | v # vs \<Rightarrow> if v = p then skip_prefix ps vs else None))"

definition dval :: "byte \<Rightarrow> nat" where
  "dval c = bval c - 48"

fun getnum :: "bool \<Rightarrow> bytes \<Rightarrow> (nat \<times> bytes) option" where
  "getnum fixed [] = None"
| "getnum fixed [a] = (if is_digit a \<and> \<not> fixed then Some (dval a, []) else None)"
| "getnum fixed (a # b # s) =
     (if \<not> is_digit a then None
      else if \<not> is_digit b then (if fixed then None else Some (dval a, b # s))
      else Some (dval a * 10 + dval b, s))"

definition get_year :: "bytes \<Rightarrow> (nat \<times> bytes) option" where
  "get_year s =
     (if length s < 4 \<or> \<not> list_all is_digit (take 4 s) then None
      else Some (horner 0 (take 4 s), drop 4 s))"

definition get_fraction :: "bytes \<Rightarrow> nat \<times> bytes" where
  "get_fraction s =
     (case s of
        p # d # _ \<Rightarrow>
          if p \<in> {CHR ''.'', CHR '',''} \<and> is_digit d then
            (let ds = takeWhile is_digit (tl s); used = take 9 ds
             in (horner 0 used * 10 ^ (9 - length used), drop (length ds) (tl s)))
          else (0, s)
      | _ \<Rightarrow> (0, s))"

definition is_leap :: "nat \<Rightarrow> bool" where
  "is_leap y \<longleftrightarrow> y mod 4 = 0 \<and> (y mod 100 \<noteq> 0 \<or> y mod 400 = 0)"

definition month_lengths :: "nat \<Rightarrow> nat list" where
  "month_lengths y = [31, if is_leap y then 29 else 28, 31, 30, 31, 30, 31, 31, 30, 31, 30, 31]"

text \<open>Days since the first of January 1970 in the proleptic Gregorian calendar.\<close>

definition epoch_day :: "nat \<Rightarrow> nat \<Rightarrow> nat \<Rightarrow> int" where
  "epoch_day y m d =
     (let p = int y - 1
      in 365 * p + p div 4 - p div 100 + p div 400 + int (sum_list (take m (month_lengths y))) + int d - 1 - 719162)"

definition instant :: "nat \<Rightarrow> nat \<Rightarrow> nat \<Rightarrow> nat \<Rightarrow> nat \<Rightarrow> nat \<Rightarrow> nat \<Rightarrow> int" where
  "instant y m d h mi s ns =
     (epoch_day y m d * 86400 + int (h * 3600 + mi * 60 + s)) * 1000000000 + int ns"

definition guard_lt :: "nat \<Rightarrow> (nat \<times> bytes) option \<Rightarrow> (nat \<times> bytes) option" where
  "guard_lt n r = (case r of Some (x, s) \<Rightarrow> if x < n then Some (x, s) else None | None \<Rightarrow> None)"

definition time_Parse :: "bytes \<Rightarrow> int option" where
  "time_Parse s =
     do {
       (_, s) \<leftarrow> lookup_name 0 shortDayNames s;
       s \<leftarrow> skip_prefix '', '' s;
       (d, s) \<leftarrow> getnum True s;
       s \<leftarrow> skip_prefix '' '' s;
       (m, s) \<leftarrow> lookup_name 0 shortMonthNames s;
       s \<leftarrow> skip_prefix '' '' s;
       (y, s) \<leftarrow> get_year s;
       s \<leftarrow> skip_prefix '' '' s;
       (h, s) \<leftarrow> guard_lt 24 (getnum False s);
       s \<leftarrow> skip_prefix '':'' s;
       (mi, s) \<leftarrow> guard_lt 60 (getnum True s);
       s \<leftarrow> skip_prefix '':'' s;
       (sec, s) \<leftarrow> guard_lt 60 (getnum True s);
       let (ns, s) = get_fraction s;
       s \<leftarrow> skip_prefix '' GMT'' s;
       if s = [] \<and> 1 \<le> d \<and> d \<le> month_lengths y ! m then Some (instant y m d h mi sec ns) else None
     }"

section \<open>Dates as servers write them\<close>

definition two :: "nat \<Rightarrow> bytes" where
  "two n = [digit (n div 10), digit (n mod 10)]"

definition four :: "nat \<Rightarrow> bytes" where
  "four n = [digit (n div 1000), digit (n div 100 mod 10), digit (n div 10 mod 10), digit (n mod 10)]"

definition http_date :: "nat \<Rightarrow> nat \<Rightarrow> nat \<Rightarrow> nat \<Rightarrow> nat \<Rightarrow> nat \<Rightarrow> nat \<Rightarrow> bytes" where
  "http_date w y m d h mi s =
     shortDayNames ! w @ '', '' @ two d @ '' '' @ shortMonthNames ! m @ '' '' @ four y @ '' '' @ two h @ '':'' @ two mi @
     '':'' @ two s @ '' GMT''"

lemma dval_digit: "n < 10 \<Longrightarrow> dval (digit n) = n"
  by (simp add: dval_def bval_digit)

lemma getnum_two: "n < 100 \<Longrightarrow> getnum f (two n @ s) = Some (n, s)"
  by (simp add: two_def dval_digit)

lemma get_year_four: "n < 10000 \<Longrightarrow> get_year (four n @ s) = Some (n, s)"
proof -
  assume n: "n < 10000"
  have "n div 100 = n div 10 div 10" "n div 1000 = n div 10 div 10 div 10" by (simp_all flip: div_mult2_eq)
  moreover have "n div 10 * 10 + n mod 10 = n" "n div 10 div 10 * 10 + n div 10 mod 10 = n div 10"
    "n div 10 div 10 div 10 * 10 + n div 10 div 10 mod 10 = n div 10 div 10" by simp_all
  ultimately have "((n div 1000 * 10 + n div 100 mod 10) * 10 + n div 10 mod 10) * 10 + n mod 10 = n" by simp
  with n show ?thesis by (simp add: get_year_def four_def bval_digit)
qed

text \<open>A name is found when it is the first of the table to match the text without regard to case.\<close>

lemma lookup_name_nth:
  assumes "k < length tab" "\<forall>v \<in> set tab. length v = 3" "distinct (map (map lower) tab)"
  shows "lookup_name i tab (tab ! k @ s) = Some (i + k, s)"
  using assms
proof (induction tab arbitrary: i k)
  case (Cons v tab)
  show ?case
  proof (cases k)
    case (Suc j)
    then have j: "j < length tab" using Cons.prems by simp
    then have "map lower (tab ! j) \<in> set (map (map lower) tab)" by simp
    then have "\<not> fold_eq (tab ! j) v" using Cons.prems(3) by (auto simp: fold_eq_def)
    moreover have "length (tab ! j) = 3" using Cons.prems(2) j by simp
    ultimately show ?thesis using Suc Cons.IH [of j "Suc i"] Cons.prems j by simp
  qed simp
qed simp

lemma lookup_day: "w < 7 \<Longrightarrow> lookup_name 0 shortDayNames (shortDayNames ! w @ s) = Some (w, s)"
  using lookup_name_nth [of w shortDayNames 0 s] by (simp add: shortDayNames_def go_simps)

lemma lookup_month: "m < 12 \<Longrightarrow> lookup_name 0 shortMonthNames (shortMonthNames ! m @ s) = Some (m, s)"
  using lookup_name_nth [of m shortMonthNames 0 s] by (simp add: shortMonthNames_def go_simps)

lemma digits_not_blank: "n < 10 \<Longrightarrow> digit n \<noteq> SP"
  using is_digit_digit [of n] by (auto simp: is_digit_def)

lemma skip_blank: "s = [] \<or> hd s \<noteq> SP \<Longrightarrow> skip_prefix '' '' (SP # s) = Some s"
  by (cases s) auto

text \<open>A date as RFC 7231 writes it is read back as the instant it names.\<close>

lemma time_Parse_http_date:
  assumes "w < 7" "y < 10000" "m < 12" "1 \<le> d" "d \<le> month_lengths y ! m" "h < 24" "mi < 60" "s < 60"
  shows "time_Parse (http_date w y m d h mi s) = Some (instant y m d h mi s 0)"
proof -
  have "month_lengths y ! m \<in> set (month_lengths y)" using assms(3) by (intro nth_mem) (simp add: month_lengths_def)
  then have "month_lengths y ! m < 100" by (auto simp: month_lengths_def split: if_splits)
  with assms(5) have d: "d < 100" by simp
  have 0: "shortMonthNames ! m \<noteq> [] \<and> hd (shortMonthNames ! m) \<noteq> SP"
    using assms(3) by (auto simp: shortMonthNames_def less_Suc_eq numeral_eq_Suc)
  have nb: "hd (two n @ z) \<noteq> SP" "hd (four y @ z) \<noteq> SP" if "n < 100" for n z
    using that assms(2) by (simp_all add: two_def four_def digits_not_blank)
  have 1: "skip_prefix '', '' ('', '' @ two n @ z) = Some (two n @ z)" if "n < 100" for n z
    using skip_blank [of "two n @ z"] nb(1) [OF that] by simp
  have 2: "skip_prefix '' '' ('' '' @ shortMonthNames ! m @ z) = Some (shortMonthNames ! m @ z)" for z
    using skip_blank [of "shortMonthNames ! m @ z"] 0 by simp
  have 3: "skip_prefix '' '' ('' '' @ four y @ z) = Some (four y @ z)" for z
    using skip_blank [of "four y @ z"] nb(2) [of 0] by simp
  have 4: "skip_prefix '' '' ('' '' @ two n @ z) = Some (two n @ z)" if "n < 100" for n z
    using skip_blank [of "two n @ z"] nb(1) [OF that] by simp
  have 5: "skip_prefix '':'' ('':'' @ z) = Some z" for z by simp
  have 6: "get_fraction '' GMT'' = (0, '' GMT'')" "skip_prefix '' GMT'' '' GMT'' = Some []"
    by (simp_all add: get_fraction_def)
  show ?thesis using assms d
    unfolding time_Parse_def http_date_def
    by (simp only: lookup_day lookup_month getnum_two get_year_four 1 2 3 4 5 6 guard_lt_def
        bind.bind_lunit prod.case option.case Let_def if_True) simp
qed

end
