(* ===== verification/Retry.thy ===== *)
theory Retry
  imports HttpDate Config Response
begin

text \<open>
  The retry policy of \<^verbatim>\<open>retry.go\<close>: which attempts are repeated (\<open>ShouldRetry\<close>), how long to wait
  before the next one (\<open>Backoff\<close>, \<open>adaptiveDelay\<close>, \<open>parseRetryAfter\<close>) and the interruptible wait.
  The random number and the clock reading are arguments; durations are int64 and wrap.
\<close>

record Retryer =
  maxRetries :: int
  baseDelay :: int
  maxDelay :: int
  multiplier :: rat
  jitter :: bool
  statusCodes :: "int \<rightharpoonup> bool"

definition NewRetryer :: "Config \<Rightarrow> Retryer option" where
  "NewRetryer config =
     (if MaxRetries config \<le> 0 then None
      else Some \<lparr>maxRetries = MaxRetries config, baseDelay = RetryBaseDelay config,
        maxDelay = RetryMaxDelay config, multiplier = RetryMultiplier config,
        jitter = RetryJitter config,
        statusCodes = fold (\<lambda>c m. m(c \<mapsto> True)) (RetryableStatus config) Map.empty\<rparr>)"

definition ShouldRetry :: "Retryer \<Rightarrow> int \<Rightarrow> Response option \<Rightarrow> goerror option \<Rightarrow> bool" where
  "ShouldRetry r attempt resp err =
     (if attempt \<ge> maxRetries r then False
      else if err \<noteq> None \<and> IsRetryable err then True
      else (case resp of
              Some x \<Rightarrow> statusCodes r (StatusCode x) = Some True
            | None \<Rightarrow> False))"

fun scale_loop :: "rat \<Rightarrow> rat \<Rightarrow> nat \<Rightarrow> rat" where
  "scale_loop m delay 0 = delay"
| "scale_loop m delay (Suc i) = scale_loop m (delay * m) i"

definition Backoff :: "rat \<Rightarrow> Retryer \<Rightarrow> int \<Rightarrow> int" where
  "Backoff rnd r attempt =
     (let delay = scale_loop (multiplier r) (of_int (baseDelay r)) (nat attempt);
          delay = (if delay > of_int (maxDelay r) then of_int (maxDelay r) else delay);
          delay = (if jitter r then delay / 2 + rnd * (delay / 2) else delay)
      in trunc delay)"

text \<open>time.Until saturates at the ends of the int64 range.\<close>

definition time_Until :: "int \<Rightarrow> int \<Rightarrow> int" where
  "time_Until now t = max (- (2 ^ 63)) (min (2 ^ 63 - 1) (t - now))"

definition parseRetryAfter :: "int \<Rightarrow> bytes \<Rightarrow> int option" where
  "parseRetryAfter now s =
     (let s = TrimSpace s in
      case Atoi s of
        Some n \<Rightarrow>
          if n \<ge> 0 then Some (i64 (n * Second))
          else map_option (\<lambda>t. max 0 (time_Until now t)) (time_Parse s)
      | None \<Rightarrow> map_option (\<lambda>t. max 0 (time_Until now t)) (time_Parse s))"

definition isConnectionLevelError :: "goerror \<Rightarrow> bool" where
  "isConnectionLevelError err =
     (case errors_As_detailed err of
        Some t \<Rightarrow> t = ErrorTypeNetwork
      | None \<Rightarrow> errors_Is err ErrConnectFailed \<or> errors_Is err ErrConnectionClosed)"

definition adaptiveDelay ::
  "rat \<Rightarrow> int \<Rightarrow> Retryer \<Rightarrow> int \<Rightarrow> int \<Rightarrow> bytes \<Rightarrow> goerror option \<Rightarrow> int" where
  "adaptiveDelay rnd now r attempt statusCode retryAfterHdr err =
     (case (if statusCode = 429 \<and> retryAfterHdr \<noteq> [] then parseRetryAfter now retryAfterHdr else None) of
        Some d \<Rightarrow> if d > maxDelay r then maxDelay r else d
      | None \<Rightarrow>
          (case err of
             Some e \<Rightarrow> if IsTimeout err \<or> isConnectionLevelError e then 0 else Backoff rnd r attempt
           | None \<Rightarrow> Backoff rnd r attempt))"

text \<open>The two waits return their error and the instant at which they return.\<close>

definition Retryer_Wait :: "rat \<Rightarrow> bool \<Rightarrow> int \<Rightarrow> ctx \<Rightarrow> Retryer \<Rightarrow> int \<Rightarrow> goerror option \<times> int" where
  "Retryer_Wait rnd tie now ctx r attempt = select_timer tie now (Backoff rnd r attempt) ctx"

definition WaitAdaptive ::
  "rat \<Rightarrow> bool \<Rightarrow> int \<Rightarrow> ctx \<Rightarrow> Retryer \<Rightarrow> int \<Rightarrow> int \<Rightarrow> bytes \<Rightarrow> goerror option \<Rightarrow> goerror option \<times> int" where
  "WaitAdaptive rnd tie now ctx r attempt statusCode retryAfterHdr err =
     (let d = adaptiveDelay rnd now r attempt statusCode retryAfterHdr err
      in if d \<le> 0 then (None, now) else select_timer tie now d ctx)"

section \<open>The schedule of delays\<close>

text \<open>The delay of an attempt before jitter: exponential growth cut off at the maximum.\<close>

definition capped :: "Retryer \<Rightarrow> nat \<Rightarrow> rat" where
  "capped r n = min (of_int (baseDelay r) * multiplier r ^ n) (of_int (maxDelay r))"

lemma scale_loop_eq: "scale_loop m d n = d * m ^ n"
  by (induction n arbitrary: d) (simp_all add: mult.assoc)

lemma Backoff_eq:
  "Backoff rnd r attempt = trunc (if jitter r then capped r (nat attempt) / 2 + rnd * (capped r (nat attempt) / 2)
     else capped r (nat attempt))"
  by (auto simp: Backoff_def Let_def scale_loop_eq capped_def min_def)

definition sane_retryer :: "Retryer \<Rightarrow> bool" where
  "sane_retryer r \<longleftrightarrow> 0 < baseDelay r \<and> 0 < maxDelay r \<and> 0 < multiplier r"

lemma NewRetryer_sane:
  "NewRetryer (snd (Validate c)) = Some r \<Longrightarrow> sane_retryer r \<and> 0 < maxRetries r"
  by (auto simp: NewRetryer_def Validate_def Let_def sane_retryer_def default_int_def split: if_splits)

lemma capped_nonneg: "sane_retryer r \<Longrightarrow> 0 \<le> capped r n"
  by (simp add: sane_retryer_def capped_def)

lemma capped_mono: "sane_retryer r \<Longrightarrow> 1 \<le> multiplier r \<Longrightarrow> m \<le> n \<Longrightarrow> capped r m \<le> capped r n"
  unfolding capped_def sane_retryer_def
  by (intro min.mono mult_left_mono power_increasing) auto

lemma capped_le_max: "capped r n \<le> of_int (maxDelay r)"
  by (simp add: capped_def)

lemma jitter_between:
  fixes c :: rat
  assumes "0 \<le> c" "0 \<le> rnd" "rnd < 1"
  shows "c / 2 \<le> c / 2 + rnd * (c / 2)" "c / 2 + rnd * (c / 2) \<le> c"
proof -
  show "c / 2 \<le> c / 2 + rnd * (c / 2)" using assms by simp
  have "rnd * (c / 2) \<le> 1 * (c / 2)" using assms by (intro mult_right_mono) auto
  then show "c / 2 + rnd * (c / 2) \<le> c" by simp
qed

lemma Backoff_between:
  assumes "sane_retryer r" "0 \<le> rnd" "rnd < 1"
  shows "trunc (capped r (nat n) / 2) \<le> Backoff rnd r n" "Backoff rnd r n \<le> trunc (capped r (nat n))"
  using capped_nonneg [OF assms(1), of "nat n"] assms(2,3) jitter_between [of "capped r (nat n)" rnd]
  by (auto simp: Backoff_eq intro!: trunc_mono)

lemma Backoff_range:
  assumes "sane_retryer r" "0 \<le> rnd" "rnd < 1"
  shows "0 \<le> Backoff rnd r n \<and> Backoff rnd r n \<le> maxDelay r"
proof -
  have "0 \<le> capped r (nat n)" using assms(1) by (rule capped_nonneg)
  then have "0 \<le> trunc (capped r (nat n) / 2)" "trunc (capped r (nat n)) \<le> trunc (of_int (maxDelay r))"
    by (simp add: trunc_nonneg) (rule trunc_mono [OF _ capped_le_max], fact)
  with Backoff_between [OF assms, of n] show ?thesis by simp
qed

section \<open>Retry-After\<close>

lemma parseRetryAfter_seconds: "n < 2 ^ 63 \<Longrightarrow> parseRetryAfter now (itoa n) = Some (i64 (int n * Second))"
  by (simp add: parseRetryAfter_def Atoi_itoa)

lemma day_name_cases: "w < 7 \<Longrightarrow> \<exists>a b c. shortDayNames ! w = [a, b, c] \<and> a \<in> {CHR ''S'', CHR ''M'', CHR ''T'', CHR ''W'', CHR ''F''}"
  by (auto simp: shortDayNames_def less_Suc_eq numeral_eq_Suc)

lemma http_date_edges:
  assumes "w < 7"
  shows "http_date w y m d h mi s \<noteq> [] \<and> last (http_date w y m d h mi s) = CHR ''T'' \<and>
    hd (http_date w y m d h mi s) \<in> {CHR ''S'', CHR ''M'', CHR ''T'', CHR ''W'', CHR ''F''}"
proof -
  obtain a b c where "shortDayNames ! w = [a, b, c]" "a \<in> {CHR ''S'', CHR ''M'', CHR ''T'', CHR ''W'', CHR ''F''}"
    using day_name_cases [OF assms] by blast
  then show ?thesis by (simp add: http_date_def)
qed

lemma letter_not_edge: "c \<in> {CHR ''S'', CHR ''M'', CHR ''T'', CHR ''W'', CHR ''F''} \<Longrightarrow> \<not> is_space_edge c"
  by (auto simp: is_space_edge_def unicode_spaces_def byte_of_eq_iff of_char_Char)

lemma hexval_letters:
  "hexval (CHR ''S'') = Some 28" "hexval (CHR ''M'') = Some 22" "hexval (CHR ''T'') = Some 29"
  "hexval (CHR ''W'') = Some 32" "hexval (CHR ''F'') = Some 15"
  by code_simp+

lemma Atoi_letter:
  assumes "c \<in> {CHR ''S'', CHR ''M'', CHR ''T'', CHR ''W'', CHR ''F''}"
  shows "Atoi (c # s) = None"
proof -
  have "digits_val 10 0 (c # s) = None" using assms by (auto simp: hexval_letters)
  then have "parse_uint 10 (c # s) = None" by (simp add: parse_uint_def)
  moreover have "c \<noteq> CHR ''-''" "c \<noteq> CHR ''+''" using assms by auto
  ultimately show ?thesis by (simp add: ParseInt_def)
qed

lemma parseRetryAfter_date:
  assumes "w < 7" "y < 10000" "m < 12" "1 \<le> d" "d \<le> month_lengths y ! m" "h < 24" "mi < 60" "s < 60"
  shows "parseRetryAfter now (http_date w y m d h mi s) = Some (max 0 (time_Until now (instant y m d h mi s 0)))"
proof -
  obtain a rest where r: "http_date w y m d h mi s = a # rest" "last (a # rest) = CHR ''T''"
    and a: "a \<in> {CHR ''S'', CHR ''M'', CHR ''T'', CHR ''W'', CHR ''F''}"
    using http_date_edges [OF assms(1), of y m d h mi s] by (cases "http_date w y m d h mi s") auto
  have "TrimSpace (a # rest) = a # rest"
    using letter_not_edge [OF a] letter_not_edge [of "CHR ''T''"] r(2) by (intro TrimSpace_id) simp
  moreover have "Atoi (a # rest) = None" using a by (rule Atoi_letter)
  ultimately show ?thesis using time_Parse_http_date [OF assms] by (simp add: parseRetryAfter_def r(1))
qed

text \<open>
  C30. Every wait between two attempts is bounded: the backoff of a validated configuration lies
  between half of the capped exponential delay and the whole of it, never exceeds the configured
  maximum and, without jitter, never shrinks from one attempt to the next when the multiplier is at
  least one; and the adaptive wait returns no later than the maximum delay after it was entered.
\<close>

theorem retry_delays_bounded:
  assumes "NewRetryer (snd (Validate config)) = Some r" "0 \<le> rnd" "rnd < 1"
  shows "0 \<le> Backoff rnd r n \<and> Backoff rnd r n \<le> maxDelay r \<and>
    trunc (capped r (nat n) / 2) \<le> Backoff rnd r n \<and> Backoff rnd r n \<le> trunc (capped r (nat n)) \<and>
    (\<not> jitter r \<and> 1 \<le> multiplier r \<and> m \<le> n \<longrightarrow> Backoff rnd r m \<le> Backoff rnd r n) \<and>
    snd (WaitAdaptive rnd tie now ctx r n code hdr err) \<le> now + maxDelay r"
proof (intro conjI impI)
  have s: "sane_retryer r" using NewRetryer_sane [OF assms(1)] by simp
  have range: "0 \<le> Backoff rnd r n \<and> Backoff rnd r n \<le> maxDelay r" using s assms(2,3) by (rule Backoff_range)
  then show "0 \<le> Backoff rnd r n" "Backoff rnd r n \<le> maxDelay r" by simp_all
  show "trunc (capped r (nat n) / 2) \<le> Backoff rnd r n" "Backoff rnd r n \<le> trunc (capped r (nat n))"
    using Backoff_between [OF s assms(2,3)] by simp_all
  show "Backoff rnd r m \<le> Backoff rnd r n" if "\<not> jitter r \<and> 1 \<le> multiplier r \<and> m \<le> n"
    using that s by (auto simp: Backoff_eq nat_mono intro!: trunc_mono capped_mono capped_nonneg)
  have "0 < maxDelay r" using s by (simp add: sane_retryer_def)
  then have "adaptiveDelay rnd now r n code hdr err \<le> maxDelay r"
    using range by (auto simp: adaptiveDelay_def split: option.splits)
  with \<open>0 < maxDelay r\<close> show "snd (WaitAdaptive rnd tie now ctx r n code hdr err) \<le> now + maxDelay r"
    using select_timer_returns_by [of tie now "adaptiveDelay rnd now r n code hdr err" ctx]
    by (auto simp: WaitAdaptive_def Let_def)
qed

definition demo_retryer :: Retryer where
  "demo_retryer = the (NewRetryer (snd (Validate (ResilientConfig\<lparr>RetryJitter := False\<rparr>))))"

lemma demo_retryer_eq:
  "NewRetryer (snd (Validate (ResilientConfig\<lparr>RetryJitter := False\<rparr>))) = Some demo_retryer" "maxDelay demo_retryer = 10 * Second"
  "baseDelay demo_retryer = 200 * Millisecond" "multiplier demo_retryer = 2" "\<not> jitter demo_retryer"
  by (simp_all add: demo_retryer_def NewRetryer_def Validate_def Let_def default_int_def ResilientConfig_def DefaultConfig_def)

theorem retry_delays_bounded_witness:
  "0 \<le> Backoff (1 / 2) demo_retryer 2 \<and> Backoff (1 / 2) demo_retryer 2 \<le> maxDelay demo_retryer \<and>
   trunc (capped demo_retryer (nat 2) / 2) \<le> Backoff (1 / 2) demo_retryer 2 \<and>
   Backoff (1 / 2) demo_retryer 2 \<le> trunc (capped demo_retryer (nat 2)) \<and>
   Backoff (1 / 2) demo_retryer 1 \<le> Backoff (1 / 2) demo_retryer 2 \<and>
   snd (WaitAdaptive (1 / 2) False 0 None demo_retryer 2 503 [] None) \<le> 0 + maxDelay demo_retryer"
  using retry_delays_bounded [OF demo_retryer_eq(1), of "1 / 2" 2 1 False 0 None 503 "[]" None] demo_retryer_eq by simp

text \<open>
  A Retry-After header on a 429 is honoured up to the configured maximum, both as a number of
  seconds (up to the largest that fits an int64 duration) and as an HTTP date, where a date in the
  past means no wait.
\<close>

theorem retry_after_honoured:
  assumes "0 \<le> maxDelay r" "maxDelay r < 2 ^ 63" "int n * Second < 2 ^ 63"
    "w < 7" "y < 10000" "m < 12" "1 \<le> d" "d \<le> month_lengths y ! m" "h < 24" "mi < 60" "s < 60"
  shows "adaptiveDelay rnd now r attempt 429 (itoa n) err = min (int n * Second) (maxDelay r) \<and>
    adaptiveDelay rnd now r attempt 429 (http_date w y m d h mi s) err =
      min (max 0 (instant y m d h mi s 0 - now)) (maxDelay r)"
proof
  have "n < 2 ^ 63" using assms(3) by simp
  moreover have "i64 (int n * Second) = int n * Second" using assms(3) by (intro i64_id) simp_all
  ultimately show "adaptiveDelay rnd now r attempt 429 (itoa n) err = min (int n * Second) (maxDelay r)"
    by (simp add: adaptiveDelay_def parseRetryAfter_seconds min_def)
  have "http_date w y m d h mi s \<noteq> []" using http_date_edges [OF assms(4)] by simp
  then show "adaptiveDelay rnd now r attempt 429 (http_date w y m d h mi s) err =
      min (max 0 (instant y m d h mi s 0 - now)) (maxDelay r)"
    using assms(1,2) by (simp add: adaptiveDelay_def parseRetryAfter_date [OF assms(4-11)] time_Until_def min_def max_def)
qed

theorem retry_after_honoured_witness:
  "adaptiveDelay 0 0 demo_retryer 0 429 (itoa 120) None = min (int 120 * Second) (maxDelay demo_retryer) \<and>
   adaptiveDelay 0 0 demo_retryer 0 429 (http_date 5 2015 9 21 7 28 0) None =
      min (max 0 (instant 2015 9 21 7 28 0 0 - 0)) (maxDelay demo_retryer)"
  by (rule retry_after_honoured) (simp_all add: demo_retryer_eq month_lengths_def)

text \<open>
  A Retry-After of more seconds than an int64 duration holds wraps around to a negative delay:
  instead of the maximum delay, the client does not wait at all.
\<close>

theorem retry_after_overflow:
  assumes "2 ^ 63 \<le> int n * Second" "int n * Second < 2 ^ 64" "0 \<le> maxDelay r"
  shows "WaitAdaptive rnd tie now ctx r attempt 429 (itoa n) err = (None, now)"
proof -
  have n: "n < 2 ^ 63" using assms(2) by simp
  have "i64 (int n * Second) < 0" using assms(1,2) by (rule i64_wraps)
  then show ?thesis using assms(3) n
    by (simp add: WaitAdaptive_def adaptiveDelay_def parseRetryAfter_seconds Let_def)
qed

theorem retry_after_overflow_witness:
  "WaitAdaptive 0 False 7 None demo_retryer 0 429 (itoa 9223372037) None = (None, 7)"
  by (rule retry_after_overflow) (simp_all add: demo_retryer_eq)

end
