(* ===== verification/RateLimit.thy ===== *)
theory RateLimit
  imports Timing
begin

text \<open>
  The token bucket of \<^verbatim>\<open>ratelimit.go\<close>. The body of the loop of Wait between Lock and Unlock is one
  atomic step \<open>take_token\<close> at a reading of the clock; the callers' steps interleave in some order, so a
  run of the bucket is a list of readings. Wait itself is a function of the readings its iterations
  see. Nothing is assumed of the clock unless a property says so: it may jump backwards.
\<close>

record tokenBucket =
  tokens :: rat
  capacity :: rat
  rate :: rat
  lastTick :: int

definition newTokenBucket :: "rat \<Rightarrow> int \<Rightarrow> int \<Rightarrow> tokenBucket option" where
  "newTokenBucket rps burst now =
     (if rps \<le> 0 \<or> burst \<le> 0 then None
      else Some \<lparr>tokens = of_int burst, capacity = of_int burst, rate = rps / 10 ^ 9, lastTick = now\<rparr>)"

definition refill :: "tokenBucket \<Rightarrow> int \<Rightarrow> tokenBucket" where
  "refill tb now =
     (let elapsed = now - lastTick tb in
      if elapsed > 0 then
        (let t = tokens tb + of_int elapsed * rate tb
         in tb\<lparr>lastTick := now, tokens := (if t > capacity tb then capacity tb else t)\<rparr>)
      else tb)"

definition take_token :: "tokenBucket \<Rightarrow> int \<Rightarrow> bool \<times> tokenBucket" where
  "take_token tb now =
     (let tb = refill tb now
      in if tokens tb \<ge> 1 then (True, tb\<lparr>tokens := tokens tb - 1\<rparr>) else (False, tb))"

definition waitNs :: "tokenBucket \<Rightarrow> int" where
  "waitNs tb = trunc ((1 - tokens tb) / rate tb)"

text \<open>An iteration has its clock reading and the choice of its select; running out of them is still waiting.\<close>

datatype wait_result = Granted | WaitFailed goerror | StillWaiting

fun tokenBucket_Wait :: "(int \<times> bool) list \<Rightarrow> ctx \<Rightarrow> tokenBucket \<Rightarrow> wait_result \<times> tokenBucket" where
  "tokenBucket_Wait [] ctx tb = (StillWaiting, tb)"
| "tokenBucket_Wait ((now, tie) # rs) ctx tb =
     (case take_token tb now of
        (True, tb) \<Rightarrow> (Granted, tb)
      | (False, tb) \<Rightarrow>
          (case fst (select_timer tie now (waitNs tb) ctx) of
             Some e \<Rightarrow> (WaitFailed e, tb)
           | None \<Rightarrow> tokenBucket_Wait rs ctx tb))"

text \<open>The critical sections of all callers in the order in which they hold the mutex.\<close>

fun run_bucket :: "tokenBucket \<Rightarrow> int list \<Rightarrow> nat \<times> tokenBucket" where
  "run_bucket tb [] = (0, tb)"
| "run_bucket tb (now # nows) =
     (case take_token tb now of
        (ok, tb') \<Rightarrow> (case run_bucket tb' nows of (k, tb'') \<Rightarrow> (if ok then Suc k else k, tb'')))"

section \<open>The bucket invariant\<close>

definition bucket_ok :: "tokenBucket \<Rightarrow> bool" where
  "bucket_ok tb \<longleftrightarrow> 0 \<le> tokens tb \<and> tokens tb \<le> capacity tb \<and> 1 \<le> capacity tb \<and> 0 < rate tb"

lemma newTokenBucket_ok: "newTokenBucket rps burst now = Some tb \<Longrightarrow> bucket_ok tb"
  by (auto simp: newTokenBucket_def bucket_ok_def split: if_splits)

lemma refill_const [simp]:
  "capacity (refill tb now) = capacity tb" "rate (refill tb now) = rate tb"
  "lastTick (refill tb now) = max (lastTick tb) now"
  by (auto simp: refill_def Let_def)

lemma refill_ok: "bucket_ok tb \<Longrightarrow> bucket_ok (refill tb now)"
  by (auto simp: bucket_ok_def refill_def Let_def)

lemma refill_tokens:
  assumes "bucket_ok tb"
  shows "tokens (refill tb now) = min (capacity tb) (tokens tb + of_int (max 0 (now - lastTick tb)) * rate tb)"
  using assms by (auto simp: refill_def bucket_ok_def Let_def)

lemma take_token_ok: "bucket_ok tb \<Longrightarrow> bucket_ok (snd (take_token tb now))"
  using refill_ok [of tb now] by (auto simp: take_token_def Let_def bucket_ok_def)

lemma take_token_const [simp]:
  "capacity (snd (take_token tb now)) = capacity tb" "rate (snd (take_token tb now)) = rate tb"
  "lastTick (snd (take_token tb now)) = max (lastTick tb) now"
  by (auto simp: take_token_def Let_def)

lemma run_bucket_Cons:
  "snd (run_bucket tb (now # nows)) = snd (run_bucket (snd (take_token tb now)) nows)"
  "fst (run_bucket tb (now # nows)) = of_bool (fst (take_token tb now)) + fst (run_bucket (snd (take_token tb now)) nows)"
  by (auto split: prod.splits)

lemma run_bucket_inv:
  "bucket_ok tb \<Longrightarrow> bucket_ok (snd (run_bucket tb nows)) \<and>
    capacity (snd (run_bucket tb nows)) = capacity tb \<and> rate (snd (run_bucket tb nows)) = rate tb"
  by (induction nows arbitrary: tb) (simp_all add: run_bucket_Cons take_token_ok del: run_bucket.simps(2))

text \<open>A step pays for its token out of the refill: the bucket never creates tokens.\<close>

lemma take_token_budget:
  assumes "bucket_ok tb"
  shows "of_bool (fst (take_token tb now)) + tokens (snd (take_token tb now)) \<le>
    tokens tb + rate tb * of_int (max (lastTick tb) now - lastTick tb)"
proof -
  have "tokens (refill tb now) \<le> tokens tb + of_int (max 0 (now - lastTick tb)) * rate tb"
    using refill_tokens [OF assms, of now] by simp
  moreover have "max (lastTick tb) now - lastTick tb = max 0 (now - lastTick tb)" by simp
  ultimately show ?thesis by (simp add: take_token_def Let_def mult.commute)
qed

lemma run_bucket_budget:
  assumes "bucket_ok tb"
  shows "of_nat (fst (run_bucket tb nows)) + tokens (snd (run_bucket tb nows)) \<le>
    tokens tb + rate tb * of_int (fold max nows (lastTick tb) - lastTick tb)"
  using assms
proof (induction nows arbitrary: tb)
  case (Cons now nows)
  obtain ok tb' where t: "take_token tb now = (ok, tb')" by fastforce
  obtain k tb'' where r: "run_bucket tb' nows = (k, tb'')" by fastforce
  have ok: "bucket_ok tb'" using take_token_ok [OF Cons.prems, of now] t by simp
  have c: "rate tb' = rate tb" "lastTick tb' = max (lastTick tb) now"
    using take_token_const [of tb now] t by simp_all
  have "of_bool ok + tokens tb' \<le> tokens tb + rate tb * of_int (max (lastTick tb) now - lastTick tb)"
    using take_token_budget [OF Cons.prems, of now] t by simp
  moreover have "of_nat k + tokens tb'' \<le>
      tokens tb' + rate tb * of_int (fold max nows (max (lastTick tb) now) - max (lastTick tb) now)"
    using Cons.IH [OF ok] r c by simp
  ultimately show ?case by (cases ok) (simp_all add: t r max.commute algebra_simps)
qed simp

lemma fold_max_le: "x \<le> (T :: int) \<Longrightarrow> \<forall>w \<in> set ws. w \<le> T \<Longrightarrow> fold max ws x \<le> T"
  by (induction ws arbitrary: x) auto

text \<open>
  C28. The rate limit holds: after any history, however the callers interleave and whatever the clock
  does, the requests admitted in a window of critical sections whose readings are at most T number at
  most the burst plus the rate times the time from the last tick before the window to T; and the
  bucket never holds fewer than zero tokens or more than its capacity.
\<close>

theorem rate_limit_conforms:
  assumes "newTokenBucket rps burst start = Some tb0" "run_bucket tb0 history = (n, tb)"
    "run_bucket tb window = (k, tb')" "lastTick tb \<le> T" "\<forall>w \<in> set window. w \<le> T"
  shows "of_nat k \<le> of_int burst + rps / 10 ^ 9 * of_int (T - lastTick tb) \<and>
    0 \<le> tokens tb' \<and> tokens tb' \<le> of_int burst"
proof -
  have ok0: "bucket_ok tb0" and c0: "capacity tb0 = of_int burst" "rate tb0 = rps / 10 ^ 9"
    using assms(1) newTokenBucket_ok by (auto simp: newTokenBucket_def split: if_splits)
  have ok: "bucket_ok tb" and c: "capacity tb = of_int burst" "rate tb = rps / 10 ^ 9"
    using run_bucket_inv [OF ok0, of history] assms(2) c0 by auto
  have ok': "bucket_ok tb'" and c': "capacity tb' = of_int burst"
    using run_bucket_inv [OF ok, of window] assms(3) c by auto
  have "of_nat k + tokens tb' \<le> tokens tb + rate tb * of_int (fold max window (lastTick tb) - lastTick tb)"
    using run_bucket_budget [OF ok, of window] assms(3) by simp
  moreover have "rate tb * of_int (fold max window (lastTick tb) - lastTick tb) \<le> rate tb * of_int (T - lastTick tb)"
    using ok fold_max_le [OF assms(4,5)] by (intro mult_left_mono) (auto simp: bucket_ok_def)
  moreover have "tokens tb \<le> of_int burst" "0 \<le> tokens tb'" "tokens tb' \<le> of_int burst"
    using ok ok' c c' by (simp_all add: bucket_ok_def)
  ultimately show ?thesis unfolding c(2) by linarith
qed

theorem rate_limit_conforms_witness:
  "of_nat (fst (run_bucket (snd (run_bucket (the (newTokenBucket 2 1 0)) [5])) [6, 7, 600000000])) \<le>
     (of_int 1 + 2 / 10 ^ 9 * of_int (700000000 - 5) :: rat) \<and>
   0 \<le> tokens (snd (run_bucket (snd (run_bucket (the (newTokenBucket 2 1 0)) [5])) [6, 7, 600000000])) \<and>
   tokens (snd (run_bucket (snd (run_bucket (the (newTokenBucket 2 1 0)) [5])) [6, 7, 600000000])) \<le> of_int 1"
proof -
  have l: "lastTick (snd (run_bucket (the (newTokenBucket 2 1 0)) [5])) = 5"
    by (simp add: newTokenBucket_def take_token_def refill_def Let_def)
  show ?thesis
    using rate_limit_conforms [of 2 1 0 "the (newTokenBucket 2 1 0)" "[5]" _ _ "[6, 7, 600000000]" _ _ 700000000,
        OF _ prod.collapse [symmetric] prod.collapse [symmetric]] l
    by (simp add: newTokenBucket_def del: run_bucket.simps)
qed

section \<open>Waiting for a token\<close>

lemma take_token_refused:
  "take_token tb now = (False, tb') \<Longrightarrow> tb' = refill tb now \<and> tokens tb' < 1"
  by (auto simp: take_token_def Let_def split: if_splits)

lemma take_token_granted_iff: "fst (take_token tb now) \<longleftrightarrow> 1 \<le> tokens (refill tb now)"
  by (simp add: take_token_def Let_def)

text \<open>After the computed wait at most one nanosecond's worth of a token is missing.\<close>

lemma waitNs_covers:
  assumes "bucket_ok tb" "tokens tb < 1"
  shows "0 \<le> waitNs tb" "1 - tokens tb < (of_int (waitNs tb) + 1) * rate tb"
proof -
  have r: "0 < rate tb" using assms(1) by (simp add: bucket_ok_def)
  then have nn: "0 \<le> (1 - tokens tb) / rate tb" using assms(2) by simp
  then show "0 \<le> waitNs tb" by (simp add: waitNs_def trunc_nonneg)
  have "(1 - tokens tb) / rate tb < of_int (waitNs tb) + 1"
    using nn by (simp add: waitNs_def trunc_nonneg) linarith
  then show "1 - tokens tb < (of_int (waitNs tb) + 1) * rate tb"
    using r by (simp add: pos_divide_less_eq)
qed

lemma granted_after:
  assumes "bucket_ok tb" "tokens tb < 1" "lastTick tb + waitNs tb < now"
  shows "fst (take_token tb now)"
proof -
  have "(of_int (waitNs tb) + 1) * rate tb \<le> of_int (now - lastTick tb) * rate tb"
    using assms by (intro mult_right_mono) (auto simp: bucket_ok_def)
  then have "1 \<le> tokens tb + of_int (max 0 (now - lastTick tb)) * rate tb"
    using waitNs_covers [OF assms(1,2)] assms(3) by (simp add: max_def)
  then show ?thesis
    using assms(1) refill_tokens [OF assms(1), of now] by (simp add: take_token_granted_iff bucket_ok_def)
qed

lemma wait_zero_after:
  assumes "bucket_ok tb" "tokens tb < 1" "lastTick tb + waitNs tb \<le> now" "take_token tb now = (False, tb')"
  shows "waitNs tb' = 0"
proof -
  have tb': "tb' = refill tb now" "tokens tb' < 1" using take_token_refused [OF assms(4)] by auto
  have r: "0 < rate tb" using assms(1) by (simp add: bucket_ok_def)
  have "of_int (waitNs tb) * rate tb \<le> of_int (max 0 (now - lastTick tb)) * rate tb"
    using assms(3) r by (intro mult_right_mono) auto
  moreover have "tokens tb' = tokens tb + of_int (max 0 (now - lastTick tb)) * rate tb"
    using tb' refill_tokens [OF assms(1), of now] assms(1) by (auto simp: bucket_ok_def min_def split: if_splits)
  ultimately have "1 - tokens tb' < rate tb" using waitNs_covers(2) [OF assms(1,2)] by (simp add: algebra_simps)
  then have "(1 - tokens tb') / rate tb < 1" using r by simp
  moreover have "0 \<le> (1 - tokens tb') / rate tb" using tb'(2) r by simp
  ultimately have "\<lfloor>(1 - tokens tb') / rate tb\<rfloor> = 0" by (simp add: floor_eq_iff)
  then show ?thesis using tb'(2) r by (simp add: waitNs_def tb'(1) trunc_nonneg)
qed


definition demo_bucket :: tokenBucket where
  "demo_bucket = \<lparr>tokens = 1 / 2, capacity = 1, rate = 3 / 10 ^ 9, lastTick = 0\<rparr>"


end
