(* ===== verification/Metrics.thy ===== *)
theory Metrics
  imports Errors "HOL-Library.Sublist"
begin

text \<open>
  The built-in metrics collector of \<^verbatim>\<open>metrics.go\<close>: atomic int64 counters, a bounded list of
  latency samples and the snapshot with its percentiles. A call is one step: its counters are
  independent atomic additions and the samples are changed under a mutex. Instants are arguments; the
  zero time.Time is \<open>None\<close>. Method and host are ignored by the collector.
\<close>

datatype PoolEvent = PoolEventConnCreated | PoolEventConnClosed | PoolEventConnReused | PoolEventConnFailed

record MetricsSnapshot =
  RequestsTotal :: int
  RequestsOK :: int
  RequestsError :: int
  Requests4xx :: int
  Requests5xx :: int
  Requests1xx :: int
  Requests3xx :: int
  RetriesTotal :: int
  BytesWritten :: int
  BytesRead :: int
  LatencyP50 :: int
  LatencyP95 :: int
  LatencyP99 :: int
  LatencyAvg :: int
  LatencyMin :: int
  LatencyMax :: int
  ConnsCreated :: int
  ConnsClosed :: int
  ConnsReused :: int
  ConnsFailed :: int

record BuiltinMetrics =
  requestsTotal :: int
  requestsOK :: int
  requestsError :: int
  requests1xx :: int
  requests3xx :: int
  requests4xx :: int
  requests5xx :: int
  retriesTotal :: int
  bytesWritten :: int
  bytesRead :: int
  connsCreated :: int
  connsClosed :: int
  connsReused :: int
  connsFailed :: int
  latencies :: "int list"
  maxSamples :: nat

definition NewBuiltinMetrics :: BuiltinMetrics where
  "NewBuiltinMetrics = \<lparr>requestsTotal = 0, requestsOK = 0, requestsError = 0, requests1xx = 0, requests3xx = 0,
     requests4xx = 0, requests5xx = 0, retriesTotal = 0, bytesWritten = 0, bytesRead = 0, connsCreated = 0,
     connsClosed = 0, connsReused = 0, connsFailed = 0, latencies = [], maxSamples = 10000\<rparr>"

definition RecordRequest :: "int \<Rightarrow> int option" where
  "RecordRequest now = Some now"

definition count_status :: "int \<Rightarrow> goerror option \<Rightarrow> BuiltinMetrics \<Rightarrow> BuiltinMetrics" where
  "count_status statusCode err m =
     (if err \<noteq> None \<and> statusCode = 0 then m\<lparr>requestsError := i64 (requestsError m + 1)\<rparr>
      else if statusCode \<ge> 100 \<and> statusCode < 200 then m\<lparr>requests1xx := i64 (requests1xx m + 1)\<rparr>
      else if statusCode \<ge> 200 \<and> statusCode < 300 then m\<lparr>requestsOK := i64 (requestsOK m + 1)\<rparr>
      else if statusCode \<ge> 300 \<and> statusCode < 400 then m\<lparr>requests3xx := i64 (requests3xx m + 1)\<rparr>
      else if statusCode \<ge> 400 \<and> statusCode < 500 then m\<lparr>requests4xx := i64 (requests4xx m + 1)\<rparr>
      else if statusCode \<ge> 500 then m\<lparr>requests5xx := i64 (requests5xx m + 1)\<rparr>
      else m)"

text \<open>
  A full list is halved first: copy moves the elements from the middle on to the front, and the slice
  is cut to half its length.
\<close>

definition add_sample :: "int \<Rightarrow> BuiltinMetrics \<Rightarrow> BuiltinMetrics" where
  "add_sample latency m =
     (let l = latencies m;
          half = length l div 2;
          l = (if length l \<ge> maxSamples m then take half (drop half l @ drop (length l - half) l) else l)
      in m\<lparr>latencies := l @ [latency]\<rparr>)"

definition RecordResponse ::
  "int \<Rightarrow> goerror option \<Rightarrow> int option \<Rightarrow> int \<Rightarrow> int \<Rightarrow> int \<Rightarrow> BuiltinMetrics \<Rightarrow> BuiltinMetrics" where
  "RecordResponse statusCode err start now written read m =
     (let m = m\<lparr>requestsTotal := i64 (requestsTotal m + 1), bytesWritten := i64 (bytesWritten m + written),
               bytesRead := i64 (bytesRead m + read)\<rparr>;
          m = count_status statusCode err m
      in case start of
           None \<Rightarrow> m
         | Some t \<Rightarrow> add_sample (now - t) m)"

fun RecordPoolEvent :: "PoolEvent \<Rightarrow> BuiltinMetrics \<Rightarrow> BuiltinMetrics" where
  "RecordPoolEvent PoolEventConnCreated m = m\<lparr>connsCreated := i64 (connsCreated m + 1)\<rparr>"
| "RecordPoolEvent PoolEventConnClosed m = m\<lparr>connsClosed := i64 (connsClosed m + 1)\<rparr>"
| "RecordPoolEvent PoolEventConnReused m = m\<lparr>connsReused := i64 (connsReused m + 1)\<rparr>"
| "RecordPoolEvent PoolEventConnFailed m = m\<lparr>connsFailed := i64 (connsFailed m + 1)\<rparr>"

definition RecordRetry :: "BuiltinMetrics \<Rightarrow> BuiltinMetrics" where
  "RecordRetry m = m\<lparr>retriesTotal := i64 (retriesTotal m + 1)\<rparr>"

definition counters :: "BuiltinMetrics \<Rightarrow> MetricsSnapshot" where
  "counters m = \<lparr>RequestsTotal = requestsTotal m, RequestsOK = requestsOK m, RequestsError = requestsError m,
     Requests4xx = requests4xx m, Requests5xx = requests5xx m, Requests1xx = requests1xx m,
     Requests3xx = requests3xx m, RetriesTotal = retriesTotal m, BytesWritten = bytesWritten m,
     BytesRead = bytesRead m, LatencyP50 = 0, LatencyP95 = 0, LatencyP99 = 0, LatencyAvg = 0, LatencyMin = 0,
     LatencyMax = 0, ConnsCreated = connsCreated m, ConnsClosed = connsClosed m, ConnsReused = connsReused m,
     ConnsFailed = connsFailed m\<rparr>"

definition Snapshot :: "BuiltinMetrics \<Rightarrow> MetricsSnapshot" where
  "Snapshot m =
     (let snap = counters m;
          n = length (latencies m) in
      if n > 0 then
        (let sorted = sort (latencies m);
             p99Idx = (if n * 99 div 100 \<ge> n then n - 1 else n * 99 div 100);
             total = fold (\<lambda>d t. i64 (t + d)) sorted 0
         in snap\<lparr>LatencyMin := sorted ! 0, LatencyMax := sorted ! (n - 1),
              LatencyP50 := sorted ! (n * 50 div 100), LatencyP95 := sorted ! (n * 95 div 100),
              LatencyP99 := sorted ! p99Idx, LatencyAvg := quot total (int n)\<rparr>)
      else snap)"

section \<open>Histories of calls\<close>

datatype metrics_call =
    CallResponse int "goerror option" "int option" int int int
  | CallPoolEvent PoolEvent
  | CallRetry

fun metrics_step :: "metrics_call \<Rightarrow> BuiltinMetrics \<Rightarrow> BuiltinMetrics" where
  "metrics_step (CallResponse code err start now w r) m = RecordResponse code err start now w r m"
| "metrics_step (CallPoolEvent e) m = RecordPoolEvent e m"
| "metrics_step CallRetry m = RecordRetry m"

text \<open>The latencies a history measured, in order, and the responses of a class.\<close>

fun measured :: "metrics_call list \<Rightarrow> int list" where
  "measured [] = []"
| "measured (CallResponse _ _ (Some t) now _ _ # cs) = (now - t) # measured cs"
| "measured (_ # cs) = measured cs"

fun status_of :: "metrics_call \<Rightarrow> (int \<times> bool) option" where
  "status_of (CallResponse code err _ _ _ _) = Some (code, err \<noteq> None)"
| "status_of _ = None"

definition responses :: "(int \<Rightarrow> bool \<Rightarrow> bool) \<Rightarrow> metrics_call list \<Rightarrow> nat" where
  "responses P cs = length (filter (\<lambda>c. case status_of c of Some (code, err) \<Rightarrow> P code err | None \<Rightarrow> False) cs)"

lemma i64_add_left [simp]: "i64 (i64 x + y) = i64 (x + y)"
proof -
  have "i64 x + y + 2 ^ 63 = (x + 2 ^ 63) mod 2 ^ 64 + y" by (simp add: i64_def)
  then have "(i64 x + y + 2 ^ 63) mod 2 ^ 64 = (x + 2 ^ 63 + y) mod 2 ^ 64" by (simp only: mod_add_left_eq)
  then show ?thesis by (simp add: i64_def add.assoc add.commute [of y])
qed

lemma i64_add_right [simp]: "i64 (y + i64 x) = i64 (y + x)"
  using i64_add_left [of x y] by (simp add: add.commute)

lemma i64_zero [simp]: "i64 0 = 0"
  by (simp add: i64_def)

lemma responses_snoc:
  "responses P (cs @ [CallResponse code err start now w r]) = responses P cs + of_bool (P code (err \<noteq> None))"
  "responses P (cs @ [CallPoolEvent e]) = responses P cs"
  "responses P (cs @ [CallRetry]) = responses P cs"
  by (simp_all add: responses_def)

lemma measured_append: "measured (a @ b) = measured a @ measured b"
  by (induction a rule: measured.induct) simp_all

lemma RecordPoolEvent_keeps [simp]:
  "requestsTotal (RecordPoolEvent e m) = requestsTotal m" "requestsOK (RecordPoolEvent e m) = requestsOK m"
  "requestsError (RecordPoolEvent e m) = requestsError m" "requests1xx (RecordPoolEvent e m) = requests1xx m"
  "requests3xx (RecordPoolEvent e m) = requests3xx m" "requests4xx (RecordPoolEvent e m) = requests4xx m"
  "requests5xx (RecordPoolEvent e m) = requests5xx m" "latencies (RecordPoolEvent e m) = latencies m"
  "maxSamples (RecordPoolEvent e m) = maxSamples m"
  by (cases e; simp)+

lemma add_sample_keeps [simp]:
  "requestsTotal (add_sample d m) = requestsTotal m" "requestsOK (add_sample d m) = requestsOK m"
  "requestsError (add_sample d m) = requestsError m" "requests1xx (add_sample d m) = requests1xx m"
  "requests3xx (add_sample d m) = requests3xx m" "requests4xx (add_sample d m) = requests4xx m"
  "requests5xx (add_sample d m) = requests5xx m" "maxSamples (add_sample d m) = maxSamples m"
  by (simp_all add: add_sample_def Let_def)

lemma count_status_keeps [simp]:
  "requestsTotal (count_status c e m) = requestsTotal m" "latencies (count_status c e m) = latencies m"
  "maxSamples (count_status c e m) = maxSamples m"
  by (simp_all add: count_status_def)

abbreviation history :: "metrics_call list \<Rightarrow> BuiltinMetrics" where
  "history cs \<equiv> fold metrics_step cs NewBuiltinMetrics"

text \<open>The counters of a history.\<close>

definition class_counts :: "metrics_call list \<Rightarrow> BuiltinMetrics \<Rightarrow> bool" where
  "class_counts cs m \<longleftrightarrow>
     requestsTotal m = i64 (int (responses (\<lambda>c e. True) cs)) \<and>
     requestsError m = i64 (int (responses (\<lambda>c e. e \<and> c = 0) cs)) \<and>
     requests1xx m = i64 (int (responses (\<lambda>c e. 100 \<le> c \<and> c < 200) cs)) \<and>
     requestsOK m = i64 (int (responses (\<lambda>c e. 200 \<le> c \<and> c < 300) cs)) \<and>
     requests3xx m = i64 (int (responses (\<lambda>c e. 300 \<le> c \<and> c < 400) cs)) \<and>
     requests4xx m = i64 (int (responses (\<lambda>c e. 400 \<le> c \<and> c < 500) cs)) \<and>
     requests5xx m = i64 (int (responses (\<lambda>c e. 500 \<le> c) cs))"

lemma RecordResponse_counts:
  assumes "class_counts cs m"
  shows "class_counts (cs @ [CallResponse code err start now w r]) (RecordResponse code err start now w r m)"
proof -
  define m1 where "m1 = m\<lparr>requestsTotal := i64 (requestsTotal m + 1), bytesWritten := i64 (bytesWritten m + w),
               bytesRead := i64 (bytesRead m + r)\<rparr>"
  have "class_counts (cs @ [CallResponse code err start now w r]) (count_status code err m1)"
    using assms by (auto simp: class_counts_def count_status_def m1_def responses_snoc algebra_simps of_nat_add)
  then show ?thesis
    by (auto simp: RecordResponse_def Let_def m1_def [symmetric] class_counts_def split: option.split)
qed

lemma metrics_counts: "class_counts cs (history cs)"
proof (induction cs rule: rev_induct)
  case Nil
  show ?case by (simp add: class_counts_def NewBuiltinMetrics_def responses_def)
next
  case (snoc c cs)
  then show ?case
    by (cases c) (simp_all add: RecordResponse_counts, simp_all add: class_counts_def responses_snoc RecordRetry_def)
qed

text \<open>The samples of a history are the latest latencies, at most maxSamples and at least half as many.\<close>

definition recent :: "int list \<Rightarrow> BuiltinMetrics \<Rightarrow> bool" where
  "recent ls m \<longleftrightarrow> maxSamples m = 10000 \<and> length (latencies m) \<le> 10000 \<and>
     min (length ls) 5001 \<le> length (latencies m) \<and> suffix (latencies m) ls"

lemma halved: "length l = 10000 \<Longrightarrow> take 5000 (drop 5000 l @ drop 5000 l) = drop 5000 (l :: int list)"
  by simp

lemma add_sample_recent: "recent ls m \<Longrightarrow> recent (ls @ [d]) (add_sample d m)"
proof -
  assume r: "recent ls m"
  show ?thesis
  proof (cases "length (latencies m) = 10000")
    case True
    then have l: "latencies (add_sample d m) = drop 5000 (latencies m) @ [d]"
      using r by (simp add: add_sample_def Let_def recent_def)
    have "suffix (drop 5000 (latencies m)) ls" using r by (intro suffix_order.trans [OF suffix_drop]) (simp add: recent_def)
    then show ?thesis using r True l by (simp add: recent_def)
  next
    case False
    then have "latencies (add_sample d m) = latencies m @ [d]" using r by (simp add: add_sample_def Let_def recent_def)
    then show ?thesis using r False by (auto simp: recent_def)
  qed
qed

lemma metrics_recent: "recent (measured cs) (history cs)"
proof (induction cs rule: rev_induct)
  case Nil
  show ?case by (simp add: recent_def NewBuiltinMetrics_def)
next
  case (snoc c cs)
  have keep: "recent ls (m\<lparr>requestsTotal := a, bytesWritten := b, bytesRead := d\<rparr>) = recent ls m"
    "recent ls (count_status code err m) = recent ls m" "recent ls (RecordPoolEvent e m) = recent ls m"
    "recent ls (RecordRetry m) = recent ls m" for ls m a b d code err e
    by (simp_all add: recent_def RecordRetry_def)
  show ?case
  proof (cases c)
    case (CallResponse code err start now w r)
    then show ?thesis using snoc
      by (cases start) (simp_all add: measured_append RecordResponse_def Let_def keep add_sample_recent)
  qed (use snoc in \<open>simp_all add: measured_append keep\<close>)
qed

text \<open>
  C31. After any history of calls the collector's counters are the numbers of responses of each class
  (modulo 2 to the 64th), and its samples are the most recent latencies in order: never more than
  10000, and never fewer than 5001 once that many have been measured.
\<close>

theorem metrics_history:
  "class_counts cs (history cs) \<and> suffix (latencies (history cs)) (measured cs) \<and>
   length (latencies (history cs)) \<le> 10000 \<and> min (length (measured cs)) 5001 \<le> length (latencies (history cs))"
  using metrics_counts metrics_recent [of cs] by (auto simp: recent_def)

section \<open>Percentiles\<close>

lemma sorted_quantile:
  assumes "sorted (xs :: int list)" "k < length xs"
  shows "Suc k \<le> length (filter (\<lambda>x. x \<le> xs ! k) xs)"
proof -
  have "filter (\<lambda>x. x \<le> xs ! k) (take (Suc k) xs) = take (Suc k) xs"
    using assms by (intro filter_True) (auto simp: in_set_conv_nth less_Suc_eq_le sorted_iff_nth_mono)
  then have "Suc k \<le> length (filter (\<lambda>x. x \<le> xs ! k) (take (Suc k) xs))" using assms(2) by simp
  also have "\<dots> \<le> length (filter (\<lambda>x. x \<le> xs ! k) (take (Suc k) xs @ drop (Suc k) xs))"
    unfolding filter_append by simp
  finally show ?thesis by simp
qed

lemma length_filter_sort: "length (filter P (sort xs)) = length (filter P (xs :: int list))"
  by (metis filter_sort length_sort)

text \<open>The p-th percentile of a list of samples, as Snapshot reads it off the sorted samples.\<close>

definition percentile :: "nat \<Rightarrow> int list \<Rightarrow> int" where
  "percentile p xs = sort xs ! (length xs * p div 100)"

lemma percentile_index: "xs \<noteq> [] \<Longrightarrow> p < 100 \<Longrightarrow> length xs * p div 100 < length xs"
  by (simp add: div_less_iff_less_mult)

lemma percentile_covers:
  assumes "xs \<noteq> []" "p < 100"
  shows "percentile p xs \<in> set xs" "length xs * p < 100 * length (filter (\<lambda>x. x \<le> percentile p xs) xs)"
proof -
  note i = percentile_index [OF assms]
  then show "percentile p xs \<in> set xs" unfolding percentile_def by (metis length_sort nth_mem set_sort)
  have "Suc (length xs * p div 100) \<le> length (filter (\<lambda>x. x \<le> percentile p xs) xs)"
    using sorted_quantile [of "sort xs" "length xs * p div 100"] i
    by (simp add: percentile_def length_filter_sort)
  moreover have "length xs * p < 100 * Suc (length xs * p div 100)" by (simp add: dividend_less_times_div)
  ultimately show "length xs * p < 100 * length (filter (\<lambda>x. x \<le> percentile p xs) xs)" by simp
qed

lemma percentile_mono: "xs \<noteq> [] \<Longrightarrow> p \<le> q \<Longrightarrow> q < 100 \<Longrightarrow> percentile p xs \<le> percentile q xs"
  unfolding percentile_def
  by (intro sorted_nth_mono) (auto intro!: div_le_mono mult_le_mono2 simp: percentile_index)

lemma percentile_between:
  assumes "xs \<noteq> []" "p < 100"
  shows "sort xs ! 0 \<le> percentile p xs" "percentile p xs \<le> sort xs ! (length xs - 1)"
  using percentile_index [OF assms] unfolding percentile_def by (auto intro!: sorted_nth_mono)

lemma Snapshot_latencies:
  assumes "latencies m \<noteq> []"
  shows "LatencyMin (Snapshot m) = sort (latencies m) ! 0"
    "LatencyMax (Snapshot m) = sort (latencies m) ! (length (latencies m) - 1)"
    "LatencyP50 (Snapshot m) = percentile 50 (latencies m)" "LatencyP95 (Snapshot m) = percentile 95 (latencies m)"
    "LatencyP99 (Snapshot m) = percentile 99 (latencies m)"
  using assms percentile_index [of "latencies m" 99] by (simp_all add: Snapshot_def Let_def percentile_def)

text \<open>
  The percentiles of a snapshot are real percentiles: each is one of the samples, more than the
  named share of the samples is at most that value, and they are ordered between the minimum and the
  maximum.
\<close>

theorem Snapshot_percentiles:
  assumes "latencies m \<noteq> []"
  shows "LatencyMin (Snapshot m) \<le> LatencyP50 (Snapshot m) \<and> LatencyP50 (Snapshot m) \<le> LatencyP95 (Snapshot m) \<and>
    LatencyP95 (Snapshot m) \<le> LatencyP99 (Snapshot m) \<and> LatencyP99 (Snapshot m) \<le> LatencyMax (Snapshot m) \<and>
    {LatencyP50 (Snapshot m), LatencyP95 (Snapshot m), LatencyP99 (Snapshot m)} \<subseteq> set (latencies m) \<and>
    length (latencies m) * 50 < 100 * length (filter (\<lambda>d. d \<le> LatencyP50 (Snapshot m)) (latencies m)) \<and>
    length (latencies m) * 95 < 100 * length (filter (\<lambda>d. d \<le> LatencyP95 (Snapshot m)) (latencies m)) \<and>
    length (latencies m) * 99 < 100 * length (filter (\<lambda>d. d \<le> LatencyP99 (Snapshot m)) (latencies m))"
  unfolding Snapshot_latencies [OF assms]
  using percentile_covers [OF assms] percentile_mono [OF assms] percentile_between [OF assms] by simp

definition demo_metrics :: BuiltinMetrics where
  "demo_metrics = NewBuiltinMetrics\<lparr>latencies := [30, 10, 20]\<rparr>"

theorem Snapshot_percentiles_witness:
  "LatencyMin (Snapshot demo_metrics) \<le> LatencyP50 (Snapshot demo_metrics) \<and>
   LatencyP50 (Snapshot demo_metrics) = 20 \<and> LatencyP99 (Snapshot demo_metrics) \<le> LatencyMax (Snapshot demo_metrics)"
proof -
  have l: "latencies demo_metrics = [30, 10, 20]" by (simp add: demo_metrics_def)
  have "sort [30, 10, 20 :: int] = [10, 20, 30]" by simp
  then have "LatencyP50 (Snapshot demo_metrics) = 20" by (simp add: Snapshot_latencies l percentile_def)
  then show ?thesis using Snapshot_percentiles [of demo_metrics] l by simp
qed

end
