(* ===== verification/Streaming.thy ===== *)
theory Streaming
  imports Framing
begin

text \<open>
  The streaming response of \<^verbatim>\<open>streaming.go\<close>: the reader over a body that has been received, and the
  Close that gives the response back to its pool. The reader is a third instance of the reader contract.
  What releaseFn does with a response is not its business: the model keeps the list of responses given
  to it, in order. The Close of the body is the one of bodyReader, which does nothing.
\<close>

record bodyReader =
  br_data :: bytes
  br_offset :: nat

definition newBodyReader :: "bytes \<Rightarrow> bodyReader" where
  "newBodyReader d = \<lparr>br_data = d, br_offset = 0\<rparr>"

definition bodyReader_Read :: "bodyReader read_fun" where
  "bodyReader_Read r k =
     (if br_offset r \<ge> length (br_data r) then ([], Some EOF, r)
      else (let d = take k (drop (br_offset r) (br_data r))
            in (d, None, r\<lparr>br_offset := br_offset r + length d\<rparr>)))"

definition bodyReader_Close :: "bodyReader \<Rightarrow> goerror option \<times> bodyReader" where
  "bodyReader_Close r = (None, r)"

record StreamingResponse =
  sr_StatusCode :: int
  sr_ContentLength :: int
  sr_Headers :: "Header list"
  sr_Body :: "bodyReader option"
  sr_resp :: "Response option"
  sr_releaseFn :: bool
  sr_once :: bool

definition StreamingResponse_Header :: "StreamingResponse \<Rightarrow> bytes \<Rightarrow> bytes" where
  "StreamingResponse_Header sr key = header_loop key (sr_Headers sr)"

definition StreamingResponse_HasHeader :: "StreamingResponse \<Rightarrow> bytes \<Rightarrow> bool" where
  "StreamingResponse_HasHeader sr key = has_header_loop key (sr_Headers sr)"

definition StreamingResponse_Close ::
  "StreamingResponse \<times> Response list \<Rightarrow> goerror option \<times> StreamingResponse \<times> Response list" where
  "StreamingResponse_Close s =
     (case s of (sr, released) \<Rightarrow>
        if sr_once sr then (None, sr, released)
        else
          (let sr = sr\<lparr>sr_once := True, sr_Body := map_option (\<lambda>b. snd (bodyReader_Close b)) (sr_Body sr)\<rparr>
           in (None, sr, released @
                 (case sr_resp sr of Some r \<Rightarrow> if sr_releaseFn sr then [r] else [] | None \<Rightarrow> []))))"

fun close_times :: "nat \<Rightarrow> StreamingResponse \<times> Response list \<Rightarrow> StreamingResponse \<times> Response list" where
  "close_times 0 s = s"
| "close_times (Suc n) s = close_times n (snd (StreamingResponse_Close s))"

section \<open>The body as a reader\<close>

definition body_pending :: "bodyReader \<Rightarrow> bytes" where
  "body_pending r = drop (br_offset r) (br_data r)"

definition body_budget :: "bodyReader \<Rightarrow> nat" where
  "body_budget r = 2 * length (body_pending r)"

definition body_safe :: "bodyReader \<Rightarrow> nat \<Rightarrow> bool" where
  "body_safe r n \<longleftrightarrow> n \<le> length (body_pending r)"

lemma bodyReader_Read_step:
  assumes "bodyReader_Read r k = (d, e, r')"
  shows "length d \<le> k \<and> body_pending r = d @ body_pending r' \<and>
    (if body_pending r = [] then d = [] \<and> e = Some EOF else e = None \<and> d = take k (body_pending r))"
proof (cases "body_pending r")
  case Nil
  then show ?thesis using assms by (auto simp: bodyReader_Read_def body_pending_def)
next
  case (Cons x xs)
  then have d: "d = take k (body_pending r)" "e = None" "r' = r\<lparr>br_offset := br_offset r + length d\<rparr>"
    using assms by (auto simp: bodyReader_Read_def body_pending_def Let_def split: if_splits)
  have "body_pending r' = drop (length d) (body_pending r)" by (simp add: d(3) body_pending_def add.commute)
  also have "\<dots> = drop k (body_pending r)" by (cases "k \<le> length (body_pending r)") (simp_all add: d(1))
  finally show ?thesis using Cons d by simp
qed

lemma bodyReader_Read_data:
  assumes "bodyReader_Read r k = (d, e, r')" "0 < k"
  shows "(e = None \<longleftrightarrow> d \<noteq> []) \<and> (d = [] \<longleftrightarrow> body_pending r = []) \<and> (d = [] \<longrightarrow> e = Some EOF) \<and>
    length (body_pending r) = length d + length (body_pending r')"
proof -
  note s = bodyReader_Read_step [OF assms(1)]
  then have "length (body_pending r) = length (d @ body_pending r')" by metis
  then have "length (body_pending r) = length d + length (body_pending r')" by simp
  moreover have "take k (body_pending r) = [] \<longleftrightarrow> body_pending r = []" using assms(2) by simp
  moreover have "if body_pending r = [] then d = [] \<and> e = Some EOF else e = None \<and> d = take k (body_pending r)"
    using s by blast
  ultimately show ?thesis by (cases "body_pending r = []") simp_all
qed

interpretation body: closing_reader bodyReader_Read body_pending body_budget body_safe "\<lambda>r. True"
proof (unfold_locales, goal_cases)
  case (1 r k d e r')
  then show ?case using bodyReader_Read_step by blast
next
  case (2 r k d e r')
  then show ?case using bodyReader_Read_step by blast
next
  case (3 r k d e r')
  then show ?case using bodyReader_Read_data [OF 3(1,2)] by (auto simp: body_budget_def)
next
  case (4 r k d e r')
  then have "body_pending r = d @ body_pending r'" using bodyReader_Read_step by blast
  then show ?case by (simp add: body_budget_def)
next
  case (5 r n k d e r')
  then show ?case using bodyReader_Read_data [OF 5(4,3)] by (auto simp: body_safe_def)
next
  case (6 r n)
  then show ?case by (simp add: body_safe_def)
next
  case (7 r n m)
  then show ?case by (simp add: body_safe_def)
next
  case (8 r k d e r')
  then show ?case using bodyReader_Read_data [OF 8(4,3)] by auto
next
  case (9 r k d e r')
  then show ?case using bodyReader_Read_data [OF 9(4,3)] by auto
qed

section \<open>Any way of reading a body\<close>

text \<open>A consumer's reads with buffers of the given sizes, until one of them reports an error.\<close>

fun read_sizes :: "'r read_fun \<Rightarrow> 'r \<Rightarrow> nat list \<Rightarrow> bytes \<times> goerror option \<times> 'r" where
  "read_sizes read r [] = ([], None, r)"
| "read_sizes read r (k # ks) =
     (case read r k of
        (d, Some e, r') \<Rightarrow> (d, Some e, r')
      | (d, None, r') \<Rightarrow> (case read_sizes read r' ks of (ds, e, r'') \<Rightarrow> (d @ ds, e, r'')))"

context closing_reader
begin

lemma read_sizes_prefix: "read_sizes read r ks = (ds, e, r') \<Longrightarrow> pending r = ds @ pending r'"
proof (induction ks arbitrary: r ds)
  case (Cons k ks)
  obtain d e1 r1 where 1: "read r k = (d, e1, r1)" by (cases "read r k") auto
  then show ?case using Cons read_pending [OF 1] by (cases e1) (auto split: prod.splits)
qed simp

lemma read_sizes_all:
  assumes "closing r" "\<forall>k \<in> set ks. 0 < k" "length (pending r) < length ks"
  shows "fst (read_sizes read r ks) = pending r \<and> fst (snd (read_sizes read r ks)) = Some EOF"
  using assms
proof (induction ks arbitrary: r)
  case (Cons k ks)
  obtain d e1 r1 where 1: "read r k = (d, e1, r1)" by (cases "read r k") auto
  have k: "0 < k" using Cons.prems by simp
  show ?case
  proof (cases "pending r = []")
    case True
    then show ?thesis using closing_end [OF Cons.prems(1) True k 1] read_pending [OF 1] 1 by simp
  next
    case False
    note c = closing_data [OF Cons.prems(1) False k 1] and p = read_pending [OF 1]
    then have "length (pending r1) < length (pending r)" by simp
    then have "fst (read_sizes read r1 ks) = pending r1 \<and> fst (snd (read_sizes read r1 ks)) = Some EOF"
      using Cons.IH [of r1] Cons.prems c by simp
    then show ?thesis using c p 1 by (auto split: prod.splits)
  qed
qed simp

end

text \<open>
  C25. A streaming body is read exactly once and in order, whatever buffer sizes the consumer uses:
  the bytes read are always a prefix of the body, and a consumer that keeps reading gets the whole
  body followed by EOF.
\<close>

theorem bodyReader_delivers:
  assumes "\<forall>k \<in> set ks. 0 < k"
  shows "prefix (fst (read_sizes bodyReader_Read (newBodyReader d) ks)) d \<and>
    (length d < length ks \<longrightarrow> fst (read_sizes bodyReader_Read (newBodyReader d) ks) = d \<and>
      fst (snd (read_sizes bodyReader_Read (newBodyReader d) ks)) = Some EOF)"
proof -
  have p: "body_pending (newBodyReader d) = d" by (simp add: body_pending_def newBodyReader_def)
  obtain ds e r' where r: "read_sizes bodyReader_Read (newBodyReader d) ks = (ds, e, r')"
    by (cases "read_sizes bodyReader_Read (newBodyReader d) ks") auto
  show ?thesis
    using body.read_sizes_prefix [OF r] body.read_sizes_all [where r = "newBodyReader d" and ks = ks] assms p r
    by (auto simp: prefix_def)
qed

theorem bodyReader_delivers_witness:
  "prefix (fst (read_sizes bodyReader_Read (newBodyReader ''hello'') [2, 1, 4, 1, 1, 1])) ''hello'' \<and>
   fst (read_sizes bodyReader_Read (newBodyReader ''hello'') [2, 1, 4, 1, 1, 1]) = ''hello'' \<and>
   fst (snd (read_sizes bodyReader_Read (newBodyReader ''hello'') [2, 1, 4, 1, 1, 1])) = Some EOF"
  using bodyReader_delivers [of "[2, 1, 4, 1, 1, 1]" "''hello''"] by simp

text \<open>
  Close gives the response back exactly once, however often it is called, and never reports an error.
\<close>

theorem Close_releases_once:
  assumes "\<not> sr_once sr" "sr_resp sr = Some r" "sr_releaseFn sr" "0 < n"
  shows "snd (close_times n (sr, released)) = released @ [r] \<and>
    fst (StreamingResponse_Close (close_times n (sr, released))) = None"
proof -
  have stay: "close_times m (s, l) = (s, l)" if "sr_once s" for m s l
    using that by (induction m) (simp_all add: StreamingResponse_Close_def)
  obtain m where n: "n = Suc m" using assms(4) by (cases n) auto
  show ?thesis using assms(1-3)
    by (simp add: n StreamingResponse_Close_def Let_def stay)
qed

definition demo_stream :: StreamingResponse where
  "demo_stream = \<lparr>sr_StatusCode = 200, sr_ContentLength = 2, sr_Headers = [], sr_Body = Some (newBodyReader ''ok''),
     sr_resp = Some responsePool_New, sr_releaseFn = True, sr_once = False\<rparr>"

theorem Close_releases_once_witness:
  "snd (close_times 3 (demo_stream, [])) = [] @ [responsePool_New] \<and>
   fst (StreamingResponse_Close (close_times 3 (demo_stream, []))) = None"
  by (rule Close_releases_once) (simp_all add: demo_stream_def)

end
