(* ===== verification/Transport.thy ===== *)
theory Transport
  imports NetIO Config Request
begin

text \<open>
  Two thin layers below a connection: the gzip compressor of \<^verbatim>\<open>compressor.go\<close> and the TLS client of
  \<^verbatim>\<open>tls.go\<close>. The compression algorithm and the TLS handshake are parameters: \<open>gzip level src\<close> is what
  compress/gzip makes of a write and a close, \<open>handshake\<close> the connection tls.Client returns or the
  error its handshake reports. A nil net.Conn is \<open>None\<close>.
\<close>

section \<open>Compression\<close>

record Compressor =
  level :: int

datatype gzip_result = GzWriteErr goerror | GzCloseErr goerror | GzDone bytes

type_synonym gzip_fun = "int \<Rightarrow> bytes \<Rightarrow> gzip_result"

definition NewCompressor :: "int \<Rightarrow> Compressor" where
  "NewCompressor lvl = \<lparr>level = (if lvl < 1 \<or> lvl > 9 then 6 else lvl)\<rparr>"

text \<open>The result is the prefix of \<open>dst\<close> that holds the compressed bytes; \<open>dst\<close> itself is changed.\<close>

definition CompressInto :: "gzip_fun \<Rightarrow> Compressor \<Rightarrow> bytes \<Rightarrow> bytes \<Rightarrow> (goerror + bytes) \<times> bytes" where
  "CompressInto gzip c dst src =
     (if src = [] then (Inr src, dst)
      else
        (case gzip (level c) src of
           GzWriteErr e \<Rightarrow> (Inl e, dst)
         | GzCloseErr e \<Rightarrow> (Inl e, dst)
         | GzDone compressed \<Rightarrow>
             if length compressed > length dst then (Inl ErrRequestTooLarge, dst)
             else (let dst = blit dst 0 compressed in (Inr (take (length compressed) dst), dst))))"

lemma NewCompressor_level: "1 \<le> level (NewCompressor lvl) \<and> level (NewCompressor lvl) \<le> 9"
  by (auto simp: NewCompressor_def)

lemma CompressInto_done:
  assumes "src \<noteq> []" "gzip (level c) src = GzDone z"
  shows "fst (CompressInto gzip c dst src) = (if length z \<le> length dst then Inr z else Inl ErrRequestTooLarge)"
  using assms by (auto simp: CompressInto_def Let_def blit_def)

section \<open>TLS\<close>

type_synonym handshake_fun = "TLSConfig \<Rightarrow> netconn \<Rightarrow> goerror + netconn"

text \<open>The result and, when the wrapping fails, the raw connection, which has been closed.\<close>

definition WrapConnection ::
  "handshake_fun \<Rightarrow> TLSConfig \<Rightarrow> netconn option \<Rightarrow> (goerror + netconn) \<times> netconn option" where
  "WrapConnection handshake t conn =
     (case conn of
        None \<Rightarrow> (Inl (WrapError ErrorTypeTLS ''connection is nil'' ErrConnectFailed), None)
      | Some c \<Rightarrow>
          (case conn_SetDeadline c of
             Some e \<Rightarrow> (Inl (LogErrorWithFlag ErrorTypeTLS ''set handshake deadline failed'' e), Some (conn_Close c))
           | None \<Rightarrow>
               (case handshake t c of
                  Inl e \<Rightarrow> (Inl (LogErrorWithFlag ErrorTypeTLS ''TLS handshake failed'' e), Some (conn_Close c))
                | Inr tlsConn \<Rightarrow> (Inr tlsConn, None))))"

lemma WrapConnection_failed_closes:
  "WrapConnection handshake t (Some c) = (Inl e, rest) \<Longrightarrow> rest = Some (conn_Close c)"
  by (auto simp: WrapConnection_def split: option.splits sum.splits)

end
