(* ===== verification/Connection.thy ===== *)
theory Connection
  imports Transport Timing Writer Receive
begin

text \<open>
  The state of a connection and every operation on it that is not an exchange of messages, from
  \<^verbatim>\<open>connection.go\<close>: construction, buffer selection, health scoring, pipeline depth, the time cache,
  connecting, closing and the preparation of a request body. The atomics that hold 0 or 1 are
  booleans; int32 and int64 counters wrap. Clock readings are arguments, and so is what lies outside
  the connection: dialing and the TLS handshake (record \<open>network\<close>), gzip, the buffer a pool hands out.
  A pending request is identified by a number: the queue holds identifiers, the requests themselves
  with their two channels of capacity one are in the map \<open>cn_pr\<close>.
\<close>

definition initialConnectionReadBufSize :: nat where
  "initialConnectionReadBufSize = 16 * 1024"

definition initialConnectionWriteBufSize :: nat where
  "initialConnectionWriteBufSize = 16 * 1024"

definition healthWindowSize :: int where
  "healthWindowSize = 50"

record PendingRequest =
  pr_req :: Request
  pr_response :: "Response option"
  pr_err :: "goerror option"
  pr_cancelled :: bool
  pr_releaseFn :: bool
  pr_sentAt :: int
  pr_resp :: "Response option"
  pr_readTimeout :: int
  pr_method :: bytes

record ResponseReader =
  rr_buf :: bytes
  rr_err :: "goerror option"
  rr_size :: nat
  rr_scratch :: nat
  rr_stop :: bool

record Connection =
  cn_id :: int
  cn_host :: bytes
  cn_port :: int
  cn_config :: Config
  cn_dialer :: bool
  cn_tlsConfig :: "TLSConfig option"
  cn_compressor :: "Compressor option"
  cn_conn :: "netconn option"
  cn_stopped :: bool
  cn_healthy :: bool
  cn_cachedNow :: int
  cn_timeCounter :: nat
  cn_reqsOnConn :: int
  cn_lastUsed :: int
  cn_activeReqs :: int
  cn_poolClaimed :: bool
  cn_latencyEWMA :: int
  cn_errorCount :: int
  cn_totalWindow :: int
  cn_healthScore :: int
  cn_pipelineDepth :: int
  cn_bytesRead :: int
  cn_bytesWritten :: int
  cn_pendingReqs :: "nat list"
  cn_pr :: "nat \<rightharpoonup> PendingRequest"
  cn_responseReader :: "ResponseReader option"
  cn_readerStopped :: bool
  cn_closing :: bool
  cn_pendingSignal :: bool
  cn_readBufSize :: int
  cn_writeBufSize :: int
  cn_maxRespSize :: int
  cn_maxReqSize :: int
  cn_headerReadSize :: int
  cn_bodyReadSize :: int
  cn_isForwardProxy :: bool
  cn_proxyAuthHeader :: bytes

text \<open>What the dialer says about a connection: nil, or its forward-proxy mode and proxy credentials.\<close>

record dialer_view =
  dv_forward :: "bool \<Rightarrow> bool"
  dv_auth :: bytes

definition NewConnection ::
  "int \<Rightarrow> int \<Rightarrow> bytes \<Rightarrow> int \<Rightarrow> Config \<Rightarrow> dialer_view option \<Rightarrow> TLSConfig option \<Rightarrow> Compressor option \<Rightarrow> Connection" where
  "NewConnection now i host port config dialer tlsConfig compressor =
     (let isForwardProxy = (case dialer of None \<Rightarrow> False | Some d \<Rightarrow> dv_forward d (tlsConfig \<noteq> None));
          depth = i32 (MaxPipelinedRequests config)
      in \<lparr>cn_id = i, cn_host = host, cn_port = port, cn_config = config, cn_dialer = (dialer \<noteq> None),
          cn_tlsConfig = tlsConfig, cn_compressor = compressor, cn_conn = None, cn_stopped = False,
          cn_healthy = False, cn_cachedNow = now, cn_timeCounter = 0, cn_reqsOnConn = 0, cn_lastUsed = now,
          cn_activeReqs = 0, cn_poolClaimed = False, cn_latencyEWMA = 0, cn_errorCount = 0,
          cn_totalWindow = 0, cn_healthScore = 0, cn_pipelineDepth = (if depth \<le> 0 then 10 else depth),
          cn_bytesRead = 0, cn_bytesWritten = 0, cn_pendingReqs = [], cn_pr = Map.empty,
          cn_responseReader = None, cn_readerStopped = False, cn_closing = False, cn_pendingSignal = False,
          cn_readBufSize = default_int (64 * 1024) (ReadBufferSize config),
          cn_writeBufSize = default_int (64 * 1024) (WriteBufferSize config),
          cn_maxRespSize = default_int (10 * 1024 * 1024) (MaxResponseBodySize config),
          cn_maxReqSize = default_int (10 * 1024 * 1024) (MaxRequestBodySize config),
          cn_headerReadSize = default_int (4 * 1024) (HeaderReadChunkSize config),
          cn_bodyReadSize = default_int (64 * 1024) (BodyReadChunkSize config),
          cn_isForwardProxy = isForwardProxy,
          cn_proxyAuthHeader = (case dialer of Some d \<Rightarrow> if isForwardProxy then dv_auth d else [] | None \<Rightarrow> [])\<rparr>)"

section \<open>Buffers\<close>

text \<open>
  \<open>buf\<close> is what the pool's Get returned. The two selections differ in the pool and in the limit.
\<close>

definition pick_buf :: "int \<Rightarrow> bytes \<Rightarrow> nat \<Rightarrow> bytes" where
  "pick_buf limit buf requiredSize =
     (if length buf \<ge> requiredSize then buf
      else
        (let newSize = int (length buf) * 2;
             newSize = (if newSize < int requiredSize then int requiredSize else newSize);
             over = newSize > limit;
             newSize = (if over then limit else newSize)
         in if over \<and> newSize < int requiredSize then zeros requiredSize
            else zeros (nat (if newSize mod 4096 \<noteq> 0 then (newSize div 4096 + 1) * 4096 else newSize))))"

definition getReadBuf :: "Connection \<Rightarrow> bytes \<Rightarrow> nat \<Rightarrow> bytes" where
  "getReadBuf c buf requiredSize = pick_buf (cn_readBufSize c) buf requiredSize"

definition getWriteBuf :: "Connection \<Rightarrow> bytes \<Rightarrow> nat \<Rightarrow> bytes" where
  "getWriteBuf c buf requiredSize = pick_buf (cn_writeBufSize c) buf requiredSize"

text \<open>What goes back into the pool, if anything.\<close>

definition putReadBuf :: "bytes option \<Rightarrow> bytes option" where
  "putReadBuf buf = map_option (\<lambda>b. if length b > initialConnectionReadBufSize * 4
     then zeros initialConnectionReadBufSize else b) buf"

definition putWriteBuf :: "bytes option \<Rightarrow> bytes option" where
  "putWriteBuf buf = map_option (\<lambda>b. if length b > initialConnectionWriteBufSize * 4
     then zeros initialConnectionWriteBufSize else b) buf"

section \<open>Health\<close>

definition IsHealthy :: "Connection \<Rightarrow> bool" where
  "IsHealthy c \<longleftrightarrow> cn_healthy c \<and> \<not> cn_stopped c"

definition CanAcceptRequest :: "Connection \<Rightarrow> bool" where
  "CanAcceptRequest c =
     (if \<not> IsHealthy c then False
      else if EnablePipelining (cn_config c) then
        cn_activeReqs c < (if cn_pipelineDepth c \<le> 0 then 10 else cn_pipelineDepth c)
      else cn_activeReqs c = 0)"

definition tunePipelineDepth :: "int \<Rightarrow> Connection \<Rightarrow> Connection" where
  "tunePipelineDepth ewmaNs c =
     (let ms = quot ewmaNs 1000000;
          cur = cn_pipelineDepth c;
          maxDepth = i32 (MaxPipelinedRequests (cn_config c));
          maxDepth = (if maxDepth \<le> 0 then 10 else maxDepth);
          maxDepth = (if maxDepth > 32 then 32 else maxDepth)
      in if ms < 10 then
           (let target = i32 (cur + 1)
            in c\<lparr>cn_pipelineDepth := (if target > maxDepth then maxDepth else target)\<rparr>)
         else if ms > 100 then
           (let target = i32 (cur - 1) in c\<lparr>cn_pipelineDepth := (if target < 1 then 1 else target)\<rparr>)
         else c)"

definition health_score :: "int \<Rightarrow> int \<Rightarrow> int" where
  "health_score latency errors =
     (let latMs = quot latency 1000000;
          score = (if latMs > 50 then 100 - (let p = quot (latMs - 50) 10 in if p > 60 then 60 else p) else 100);
          score = (if errors > 0 then i32 (score - quot (i32 (40 * errors)) (i32 healthWindowSize)) else score)
      in if score < 0 then 0 else score)"

definition advanceHealthWindow :: "Connection \<Rightarrow> Connection" where
  "advanceHealthWindow c =
     (let total = i32 (cn_totalWindow c + 1) in
      if total < healthWindowSize then c\<lparr>cn_totalWindow := total\<rparr>
      else c\<lparr>cn_errorCount := 0, cn_totalWindow := 0,
             cn_healthScore := health_score (cn_latencyEWMA c) (cn_errorCount c)\<rparr>)"

definition next_ewma :: "int \<Rightarrow> int \<Rightarrow> int" where
  "next_ewma old ns = (if old = 0 then ns else i64 (old + i64 (ns - old) div 8))"

definition recordSuccess :: "int \<Rightarrow> Connection \<Rightarrow> Connection" where
  "recordSuccess elapsed c =
     (if \<not> EnableHealthScoring (cn_config c) then c
      else
        (let newEWMA = next_ewma (cn_latencyEWMA c) elapsed;
             c = advanceHealthWindow (c\<lparr>cn_latencyEWMA := newEWMA\<rparr>)
         in if EnablePipelineAutoTune (cn_config c) \<and> EnablePipelining (cn_config c)
            then tunePipelineDepth newEWMA c else c))"

definition recordError :: "Connection \<Rightarrow> Connection" where
  "recordError c =
     (if \<not> EnableHealthScoring (cn_config c) then c
      else advanceHealthWindow (c\<lparr>cn_errorCount := i32 (cn_errorCount c + 1)\<rparr>))"

definition HealthScore :: "Connection \<Rightarrow> int" where
  "HealthScore c = (if cn_healthScore c = 0 \<and> cn_latencyEWMA c = 0 then 100 else cn_healthScore c)"

definition updateTimeCache :: "int \<Rightarrow> Connection \<Rightarrow> Connection" where
  "updateTimeCache now c =
     (let ctr = u32 (int (cn_timeCounter c) + 1) in
      if ctr mod 128 = 0 then c\<lparr>cn_timeCounter := ctr, cn_cachedNow := now, cn_lastUsed := now\<rparr>
      else c\<lparr>cn_timeCounter := ctr, cn_lastUsed := cn_cachedNow c\<rparr>)"

section \<open>Connecting\<close>

text \<open>A net.Conn that has been closed and forgotten by the connection is no longer part of its state.\<close>

record network =
  DialAddr :: "bytes \<Rightarrow> int \<Rightarrow> goerror + netconn"
  DialForward :: "goerror + netconn"
  Handshake :: handshake_fun

definition connectLocked :: "network \<Rightarrow> Connection \<Rightarrow> goerror option \<times> Connection" where
  "connectLocked net c =
     (if \<not> cn_dialer c then (Some (WrapError ErrorTypeNetwork ''dialer is nil'' ErrConnectFailed), c)
      else
        (case (if cn_isForwardProxy c then DialForward net else DialAddr net (cn_host c) (cn_port c)) of
           Inl e \<Rightarrow> (Some e, c)
         | Inr conn \<Rightarrow>
             (case (case cn_tlsConfig c of
                      None \<Rightarrow> Inr conn
                    | Some t \<Rightarrow> fst (WrapConnection (Handshake net) t (Some conn))) of
                Inl e \<Rightarrow> (Some e, c)
              | Inr conn \<Rightarrow> (None, c\<lparr>cn_conn := Some conn, cn_reqsOnConn := 0, cn_healthy := True\<rparr>))))"

definition conn_usable :: "Connection \<Rightarrow> bool" where
  "conn_usable c \<longleftrightarrow> cn_healthy c \<and>
     (IdleTimeout (cn_config c) > 0 \<longrightarrow> i64 (cn_cachedNow c - cn_lastUsed c) \<le> IdleTimeout (cn_config c))"

text \<open>The part of ensureConnection under the mutex.\<close>

definition ensure_locked :: "network \<Rightarrow> int \<Rightarrow> Connection \<Rightarrow> bool \<times> Connection" where
  "ensure_locked net now c =
     (if conn_usable c then (True, c)
      else
        (case connectLocked net (c\<lparr>cn_conn := None, cn_healthy := False\<rparr>) of
           (Some e, c) \<Rightarrow> (False, c)
         | (None, c) \<Rightarrow> (True, c\<lparr>cn_closing := False, cn_readerStopped := False, cn_cachedNow := now,
                              cn_lastUsed := now, cn_timeCounter := 0\<rparr>)))"

definition ensureConnection :: "network \<Rightarrow> int \<Rightarrow> Connection \<Rightarrow> bool \<times> Connection" where
  "ensureConnection net now c = (if conn_usable c then (True, c) else ensure_locked net now c)"

section \<open>Closing\<close>

definition close_error :: goerror where
  "close_error = WrapError ErrorTypeNetwork ''connection closed'' ErrConnectFailed"

text \<open>A send to a channel of capacity one, with a default case: it is dropped when the channel is full.\<close>

definition send_err :: "goerror \<Rightarrow> PendingRequest \<Rightarrow> PendingRequest" where
  "send_err e p = (if pr_err p = None then p\<lparr>pr_err := Some e\<rparr> else p)"

definition send_response :: "Response \<Rightarrow> PendingRequest \<Rightarrow> PendingRequest" where
  "send_response r p = (if pr_response p = None then p\<lparr>pr_response := Some r\<rparr> else p)"

definition fail_pending :: "goerror \<Rightarrow> nat \<Rightarrow> (nat \<rightharpoonup> PendingRequest) \<Rightarrow> (nat \<rightharpoonup> PendingRequest)" where
  "fail_pending e i m = (case m i of None \<Rightarrow> m | Some p \<Rightarrow> m(i \<mapsto> send_err e p))"

definition closeConn :: "Connection \<Rightarrow> Connection" where
  "closeConn c =
     (if cn_closing c then c
      else c\<lparr>cn_closing := True, cn_conn := None, cn_healthy := False,
             cn_pr := fold (fail_pending close_error) (cn_pendingReqs c) (cn_pr c),
             cn_pendingReqs := [], cn_responseReader := None, cn_readerStopped := True\<rparr>)"

definition Connection_Stop :: "Connection \<Rightarrow> Connection" where
  "Connection_Stop c = (if cn_stopped c then c else closeConn (c\<lparr>cn_stopped := True\<rparr>))"

definition removePending :: "nat \<Rightarrow> Connection \<Rightarrow> Connection" where
  "removePending i c = c\<lparr>cn_pendingReqs := remove1 i (cn_pendingReqs c)\<rparr>"

section \<open>Preparing a request\<close>

definition prepareBody ::
  "gzip_fun \<Rightarrow> Connection \<Rightarrow> Request \<Rightarrow> (goerror + bytes \<times> bool) \<times> Request" where
  "prepareBody gzip c req =
     (let body = req_Body req in
      if int (length body) > cn_maxReqSize c then (Inl ErrRequestTooLarge, req)
      else
        (case cn_compressor c of
           None \<Rightarrow> (Inr (body, False), req)
         | Some z \<Rightarrow>
             if \<not> Compressed req \<or> body = [] then (Inr (body, False), req)
             else
               (let needed = int (length body + length body div 10 + 100);
                    needed = (if maxBodySize req > 0 \<and> needed > maxBodySize req then maxBodySize req else needed)
                in case ensureBodyBufferSize req needed of
                     (False, req) \<Rightarrow>
                       (Inl (WrapError ErrorTypeInternal ''body buffer too small for compression'' ErrRequestTooLarge), req)
                   | (True, req) \<Rightarrow>
                       (case CompressInto gzip z (req_bodyBuf req) body of
                          (Inl e, dst) \<Rightarrow>
                            (Inl (WrapError ErrorTypeInternal ''compression failed'' e), req\<lparr>req_bodyBuf := dst\<rparr>)
                        | (Inr packed, dst) \<Rightarrow>
                            (Inr (if packed \<noteq> [] then (packed, True) else (body, False)), req\<lparr>req_bodyBuf := dst\<rparr>)))))"

text \<open>\<open>deadline\<close> is the Deadline method of a context.\<close>

definition effectiveReadTimeout :: "(nat \<Rightarrow> int option) \<Rightarrow> int \<Rightarrow> Connection \<Rightarrow> Request \<Rightarrow> int" where
  "effectiveReadTimeout deadline now c req =
     (let t = (if req_ReadTimeout req = 0 then ReadTimeout (cn_config c) else req_ReadTimeout req) in
      case Option.bind (ctx req) deadline of
        None \<Rightarrow> t
      | Some dl \<Rightarrow>
          (let remaining = dl - now in
           if remaining \<le> 0 then Millisecond
           else if t = 0 \<or> remaining < t then remaining
           else t))"

section \<open>Buffers are large enough\<close>

lemma pick_buf_length: "requiredSize \<le> length (pick_buf limit buf requiredSize)"
proof (cases "length buf \<ge> requiredSize")
  case False
  have round: "x \<le> (if x mod 4096 \<noteq> 0 then (x div 4096 + 1) * 4096 else x)" for x :: int
    using mult_div_mod_eq [of 4096 x] pos_mod_bound [of 4096 x] by (simp split: if_splits) linarith
  have le: "requiredSize \<le> nat (if x mod 4096 \<noteq> 0 then (x div 4096 + 1) * 4096 else x)" if "int requiredSize \<le> x" for x
    using that round [of x] by linarith
  show ?thesis using False by (auto simp: pick_buf_def Let_def intro!: le)
qed (simp add: pick_buf_def)

end
