(* ===== verification/Health.thy ===== *)
theory Health
  imports Connection
begin

text \<open>
  What the health score, the latency average and the pipeline depth of a connection can be: the
  invariant of a run of successes and failures, and what the score is before its first window ends.
\<close>

datatype health_op = Success int | Failure

fun health_step :: "health_op \<Rightarrow> Connection \<Rightarrow> Connection" where
  "health_step (Success elapsed) c = recordSuccess elapsed c"
| "health_step Failure c = recordError c"

definition configured_depth :: "Config \<Rightarrow> int" where
  "configured_depth cfg = (let d = i32 (MaxPipelinedRequests cfg) in if d \<le> 0 then 10 else d)"

definition health_ok :: "int \<Rightarrow> int \<Rightarrow> Connection \<Rightarrow> bool" where
  "health_ok lo hi c \<longleftrightarrow>
     0 \<le> cn_healthScore c \<and> cn_healthScore c \<le> 100 \<and>
     0 \<le> cn_errorCount c \<and> cn_errorCount c \<le> cn_totalWindow c \<and> cn_totalWindow c < 50 \<and>
     configured_depth (cn_config c) < 2 ^ 31 - 1 \<and> 1 \<le> cn_pipelineDepth c \<and> cn_pipelineDepth c \<le> configured_depth (cn_config c) \<and>
     (cn_latencyEWMA c = 0 \<or> lo \<le> cn_latencyEWMA c \<and> cn_latencyEWMA c \<le> hi)"

lemma i32_small: "- 1000 \<le> x \<Longrightarrow> x \<le> 100000 \<Longrightarrow> i32 x = x"
  by (rule i32_id) simp_all

lemma health_score_range:
  assumes "0 \<le> latency" "0 \<le> errors" "errors \<le> 50"
  shows "0 \<le> health_score latency errors \<and> health_score latency errors \<le> 100"
proof -
  define s where "s = (let latMs = quot latency 1000000
    in if latMs > 50 then 100 - (let p = quot (latMs - 50) 10 in if p > 60 then 60 else p) else 100)"
  have s: "40 \<le> s \<and> s \<le> 100"
    by (auto simp: s_def Let_def quot_nonneg)
  define q where "q = quot (i32 (40 * errors)) (i32 healthWindowSize)"
  have "q = 40 * errors div 50" using assms by (simp add: q_def i32_small healthWindowSize_def quot_nonneg)
  then have q: "0 \<le> q \<and> q \<le> 40" using assms by linarith
  have h: "health_score latency errors = (let t = (if errors > 0 then i32 (s - q) else s) in if t < 0 then 0 else t)"
    by (simp add: health_score_def s_def q_def Let_def)
  have "i32 (s - q) = s - q" using s q by (intro i32_small) simp_all
  then show ?thesis using s q by (simp add: h Let_def)
qed

lemma advanceHealthWindow_ok:
  assumes "0 \<le> cn_healthScore c" "cn_healthScore c \<le> 100" "0 \<le> cn_errorCount c"
    "cn_errorCount c \<le> cn_totalWindow c + 1" "0 \<le> cn_totalWindow c" "cn_totalWindow c < 50" "0 \<le> cn_latencyEWMA c"
  shows "0 \<le> cn_healthScore (advanceHealthWindow c) \<and> cn_healthScore (advanceHealthWindow c) \<le> 100 \<and>
    0 \<le> cn_errorCount (advanceHealthWindow c) \<and>
    cn_errorCount (advanceHealthWindow c) \<le> cn_totalWindow (advanceHealthWindow c) \<and>
    cn_totalWindow (advanceHealthWindow c) < 50"
proof -
  have t: "i32 (cn_totalWindow c + 1) = cn_totalWindow c + 1" using assms by (intro i32_small) simp_all
  show ?thesis
    using assms health_score_range [of "cn_latencyEWMA c" "cn_errorCount c"]
    by (auto simp: advanceHealthWindow_def t Let_def healthWindowSize_def)
qed

lemma advanceHealthWindow_keeps [simp]:
  "cn_config (advanceHealthWindow c) = cn_config c" "cn_latencyEWMA (advanceHealthWindow c) = cn_latencyEWMA c"
  "cn_pipelineDepth (advanceHealthWindow c) = cn_pipelineDepth c"
  by (simp_all add: advanceHealthWindow_def Let_def)

lemma tunePipelineDepth_keeps [simp]:
  "cn_config (tunePipelineDepth e c) = cn_config c" "cn_latencyEWMA (tunePipelineDepth e c) = cn_latencyEWMA c"
  "cn_healthScore (tunePipelineDepth e c) = cn_healthScore c" "cn_errorCount (tunePipelineDepth e c) = cn_errorCount c"
  "cn_totalWindow (tunePipelineDepth e c) = cn_totalWindow c"
  by (simp_all add: tunePipelineDepth_def Let_def)

lemma tunePipelineDepth_ok:
  assumes "1 \<le> cn_pipelineDepth c" "cn_pipelineDepth c \<le> configured_depth (cn_config c)"
    "configured_depth (cn_config c) < 2 ^ 31 - 1"
  shows "1 \<le> cn_pipelineDepth (tunePipelineDepth e c) \<and>
    cn_pipelineDepth (tunePipelineDepth e c) \<le> configured_depth (cn_config c)"
proof -
  have "i32 (cn_pipelineDepth c - 1) = cn_pipelineDepth c - 1" "i32 (cn_pipelineDepth c + 1) = cn_pipelineDepth c + 1"
    using assms by (auto intro!: i32_id)
  then show ?thesis using assms by (auto simp: tunePipelineDepth_def configured_depth_def Let_def)
qed

text \<open>One step of the moving average stays between the old value and the sample.\<close>

lemma next_ewma_between:
  assumes "0 < old" "old < 2 ^ 62" "0 \<le> ns" "ns < 2 ^ 62"
  shows "min old ns \<le> next_ewma old ns \<and> next_ewma old ns \<le> max old ns"
proof -
  have i: "i64 (ns - old) = ns - old" using assms by (intro i64_id) simp_all
  define d where "d = (ns - old) div 8"
  have d: "8 * d \<le> ns - old" "ns - old < 8 * d + 8" unfolding d_def by linarith+
  then have b: "min old ns \<le> old + d \<and> old + d \<le> max old ns" by linarith
  then have "i64 (old + d) = old + d" using assms by (intro i64_id) (auto simp: min_def max_def split: if_splits)
  then show ?thesis using b assms(1) by (simp add: next_ewma_def i d_def)
qed

lemma recordError_ok:
  assumes "health_ok lo hi c" "0 \<le> lo"
  shows "health_ok lo hi (recordError c)"
proof (cases "EnableHealthScoring (cn_config c)")
  case True
  have "i32 (cn_errorCount c + 1) = cn_errorCount c + 1"
    using assms by (intro i32_small) (simp_all add: health_ok_def)
  then show ?thesis
    using assms True advanceHealthWindow_ok [of "c\<lparr>cn_errorCount := cn_errorCount c + 1\<rparr>"]
    by (auto simp: health_ok_def recordError_def)
qed (use assms in \<open>simp add: recordError_def\<close>)

lemma recordSuccess_ok:
  assumes "health_ok lo hi c" "0 \<le> lo" "lo \<le> elapsed" "elapsed \<le> hi" "hi < 2 ^ 62"
  shows "health_ok lo hi (recordSuccess elapsed c)"
proof (cases "EnableHealthScoring (cn_config c)")
  case True
  define e where "e = next_ewma (cn_latencyEWMA c) elapsed"
  define c1 where "c1 = advanceHealthWindow (c\<lparr>cn_latencyEWMA := e\<rparr>)"
  have e: "lo \<le> e \<and> e \<le> hi"
  proof (cases "cn_latencyEWMA c = 0")
    case False
    then show ?thesis
      using assms next_ewma_between [of "cn_latencyEWMA c" elapsed] by (auto simp: health_ok_def e_def)
  qed (use assms in \<open>simp add: e_def next_ewma_def\<close>)
  have "health_ok lo hi c1"
    using assms(1,2) e advanceHealthWindow_ok [of "c\<lparr>cn_latencyEWMA := e\<rparr>"] by (auto simp: health_ok_def c1_def)
  then have "health_ok lo hi (tunePipelineDepth e c1)" "health_ok lo hi c1"
    using tunePipelineDepth_ok [of c1 e] by (simp_all add: health_ok_def)
  then show ?thesis using True by (simp add: recordSuccess_def Let_def e_def [symmetric] c1_def [symmetric])
qed (use assms in \<open>simp add: recordSuccess_def\<close>)

lemma health_steps_ok:
  assumes "health_ok lo hi c" "0 \<le> lo" "hi < 2 ^ 62" "\<forall>t. Success t \<in> set ops \<longrightarrow> lo \<le> t \<and> t \<le> hi"
  shows "health_ok lo hi (fold health_step ops c)"
  using assms(1,4)
proof (induction ops arbitrary: c)
  case (Cons x ops)
  have "health_ok lo hi (health_step x c)"
    using Cons.prems assms(2,3) by (cases x) (auto intro: recordSuccess_ok recordError_ok)
  then show ?case using Cons by simp
qed simp

lemma NewConnection_health:
  "configured_depth config < 2 ^ 31 - 1 \<Longrightarrow> health_ok lo hi (NewConnection now i host port config dialer tls gz)"
  by (auto simp: NewConnection_def health_ok_def configured_depth_def Let_def)

text \<open>
  C32. Whatever successes and failures a connection records, its health score stays between 0 and 100,
  the failures of a window never outnumber its requests, the pipeline depth stays between 1 and the
  configured depth, and the latency average, once set, lies between the smallest and the largest
  latency recorded.
\<close>

theorem health_invariant:
  assumes "configured_depth config < 2 ^ 31 - 1" "0 \<le> lo" "hi < 2 ^ 62"
    "\<forall>t. Success t \<in> set ops \<longrightarrow> lo \<le> t \<and> t \<le> hi"
  shows "health_ok lo hi (fold health_step ops (NewConnection now i host port config dialer tls gz))"
  using assms by (intro health_steps_ok NewConnection_health)

theorem health_invariant_witness:
  "health_ok 5 9 (fold health_step [Success 5, Failure, Success 9] (NewConnection 0 1 ''h'' 80 DefaultConfig None None None))"
  by (rule health_invariant) (auto simp: configured_depth_def DefaultConfig_def i32_def)

section \<open>The score before the first window ends\<close>

definition scoring :: "Connection \<Rightarrow> bool" where
  "scoring c \<longleftrightarrow> EnableHealthScoring (cn_config c) \<and> cn_healthScore c = 0"

lemma recordSuccess_early:
  assumes "scoring c" "0 \<le> cn_totalWindow c" "cn_totalWindow c < 49"
  shows "scoring (recordSuccess t c) \<and> cn_totalWindow (recordSuccess t c) = cn_totalWindow c + 1 \<and>
    cn_latencyEWMA (recordSuccess t c) = next_ewma (cn_latencyEWMA c) t"
proof -
  have "i32 (cn_totalWindow c + 1) = cn_totalWindow c + 1" using assms by (intro i32_small) simp_all
  then show ?thesis using assms
    by (simp add: scoring_def recordSuccess_def advanceHealthWindow_def Let_def healthWindowSize_def)
qed

lemma recordError_early:
  assumes "scoring c" "0 \<le> cn_totalWindow c" "cn_totalWindow c < 49"
  shows "scoring (recordError c) \<and> cn_totalWindow (recordError c) = cn_totalWindow c + 1 \<and>
    cn_latencyEWMA (recordError c) = cn_latencyEWMA c"
proof -
  have "i32 (cn_totalWindow c + 1) = cn_totalWindow c + 1" using assms by (intro i32_small) simp_all
  then show ?thesis using assms
    by (simp add: scoring_def recordError_def advanceHealthWindow_def Let_def healthWindowSize_def)
qed

lemma successes_early:
  assumes "scoring c" "0 \<le> cn_totalWindow c" "cn_totalWindow c + int (length ts) < 50"
    "\<forall>t \<in> set ts. 0 < t \<and> t < 2 ^ 62" "0 \<le> cn_latencyEWMA c" "cn_latencyEWMA c < 2 ^ 62"
  shows "scoring (fold health_step (map Success ts) c) \<and>
    (ts \<noteq> [] \<or> cn_latencyEWMA c \<noteq> 0 \<longrightarrow> 0 < cn_latencyEWMA (fold health_step (map Success ts) c))"
  using assms
proof (induction ts arbitrary: c)
  case (Cons t ts)
  have s: "scoring (recordSuccess t c)" "cn_totalWindow (recordSuccess t c) = cn_totalWindow c + 1"
    "cn_latencyEWMA (recordSuccess t c) = next_ewma (cn_latencyEWMA c) t"
    using recordSuccess_early [of c t] Cons.prems by simp_all
  have t: "0 < t" "t < 2 ^ 62" using Cons.prems by simp_all
  have e: "0 < next_ewma (cn_latencyEWMA c) t \<and> next_ewma (cn_latencyEWMA c) t < 2 ^ 62"
  proof (cases "cn_latencyEWMA c = 0")
    case False
    then show ?thesis using next_ewma_between [of "cn_latencyEWMA c" t] Cons.prems t by (simp add: min_def max_def split: if_splits)
  qed (use t in \<open>simp add: next_ewma_def\<close>)
  show ?case using Cons.IH [of "recordSuccess t c"] s e Cons.prems by simp
qed simp

lemma failures_early:
  assumes "scoring c" "0 \<le> cn_totalWindow c" "cn_totalWindow c + int n < 50"
  shows "scoring (fold health_step (replicate n Failure) c) \<and>
    cn_latencyEWMA (fold health_step (replicate n Failure) c) = cn_latencyEWMA c"
  using assms
proof (induction n arbitrary: c)
  case (Suc n)
  then show ?case using recordError_early [of c] by simp
qed simp

text \<open>
  Before its first window of 50 requests is complete a connection's score is turned upside down:
  one that has only succeeded scores 0, the worst, while one that has only failed scores 100, the
  score of a fresh connection.
\<close>

theorem HealthScore_inverted:
  assumes "EnableHealthScoring config" "ts \<noteq> []" "length ts < 50" "\<forall>t \<in> set ts. 0 < t \<and> t < 2 ^ 62" "n < 50"
  shows "HealthScore (fold health_step (map Success ts) (NewConnection now i host port config dialer tls gz)) = 0 \<and>
    HealthScore (fold health_step (replicate n Failure) (NewConnection now i host port config dialer tls gz)) = 100"
proof
  let ?c = "NewConnection now i host port config dialer tls gz"
  have c: "scoring ?c" "cn_totalWindow ?c = 0" "cn_latencyEWMA ?c = 0"
    using assms(1) by (simp_all add: scoring_def NewConnection_def Let_def)
  then show "HealthScore (fold health_step (map Success ts) ?c) = 0"
    using successes_early [of ?c ts] assms by (simp add: HealthScore_def scoring_def)
  show "HealthScore (fold health_step (replicate n Failure) ?c) = 100"
    using failures_early [of ?c n] c assms(5) by (simp add: HealthScore_def scoring_def)
qed

theorem HealthScore_inverted_witness:
  "HealthScore (fold health_step (map Success [Millisecond]) (NewConnection 0 1 ''h'' 80 HighThroughputConfig None None None)) = 0 \<and>
   HealthScore (fold health_step (replicate 49 Failure) (NewConnection 0 1 ''h'' 80 HighThroughputConfig None None None)) = 100"
  by (rule HealthScore_inverted) (simp_all add: HighThroughputConfig_def)

end
