(* ===== verification/Frame.thy ===== *)
theory Frame
  imports Receive
begin

text \<open>
  What the response readers leave alone: an assertion that every single read keeps is kept by every
  reader of Receive. On a network connection this covers what was written, the results of the writes
  to come and whether the connection is closed.
\<close>

text \<open>The assertion on a result that carries a reader, with a rule for each form of the chunk loop's code.\<close>

definition ends_in :: "('r \<Rightarrow> bool) \<Rightarrow> ('a \<times> 'b \<times> 'c \<times> 'r) outcome option \<Rightarrow> bool" where
  "ends_in keep x \<longleftrightarrow> (\<forall>a b c r. x = Some (Done (a, b, c, r)) \<longrightarrow> keep r)"

lemma ends_in_intros:
  "(\<And>y. x = Some y \<Longrightarrow> ends_in keep (f y)) \<Longrightarrow> ends_in keep (Option.bind x f)"
  "(\<And>y z. p = (y, z) \<Longrightarrow> ends_in keep (g y z)) \<Longrightarrow> ends_in keep (case p of (y, z) \<Rightarrow> g y z)"
  "(\<And>y. s = Inl y \<Longrightarrow> ends_in keep (h y)) \<Longrightarrow> (\<And>z. s = Inr z \<Longrightarrow> ends_in keep (k z)) \<Longrightarrow>
     ends_in keep (case s of Inl y \<Rightarrow> h y | Inr z \<Rightarrow> k z)"
  "(v = None \<Longrightarrow> ends_in keep m) \<Longrightarrow> (\<And>y. v = Some y \<Longrightarrow> ends_in keep (l y)) \<Longrightarrow>
     ends_in keep (case v of None \<Rightarrow> m | Some y \<Rightarrow> l y)"
  "(P \<Longrightarrow> ends_in keep m) \<Longrightarrow> (\<not> P \<Longrightarrow> ends_in keep n) \<Longrightarrow> ends_in keep (if P then m else n)"
  "keep r \<Longrightarrow> ends_in keep (Some (Done (a, b, c, r)))"
  "ends_in keep (Some Panic)"
  by (auto simp: ends_in_def bind_eq_Some_conv split: prod.split sum.split option.split)

locale framed_reader =
  fixes read :: "'r read_fun"
    and keep :: "'r \<Rightarrow> bool"
  assumes read_inv: "keep r \<Longrightarrow> read r k = (d, e, r') \<Longrightarrow> keep r'"
begin

lemma read_loop_inv:
  assumes "read_loop read r k acc = Some (d, e, r')" "keep r"
  shows "keep r'"
proof -
  have "rd = read \<longrightarrow> keep r \<longrightarrow> keep (snd (snd y))" if "read_loop rd r k acc = Some y" for rd r k acc y
    using that
  proof (rule read_loop.raw_induct [rotated], goal_cases)
    case (1 f rd r k acc y)
    then show ?case
      by (cases y; cases "rd r k") (fastforce split: if_splits option.splits dest: read_inv)
  qed
  with assms show ?thesis by fastforce
qed

lemma readFull_inv: "readFull read r k = Some (d, e, r') \<Longrightarrow> keep r \<Longrightarrow> keep r'"
  by (auto simp: readFull_def dest: read_loop_inv)

lemma read_header_inv:
  assumes "read_header read r blen k acc = Some (x, r')" "keep r"
  shows "keep r'"
proof -
  have "rd = read \<longrightarrow> keep r \<longrightarrow> keep (snd y)" if "read_header rd r blen k acc = Some y" for rd r acc y
    using that
  proof (rule read_header.raw_induct [rotated], goal_cases)
    case (1 f rd r blen k acc y)
    then show ?case
      by (cases y; cases "rd r (min (blen - length acc) k)") (fastforce split: if_splits option.splits dest: read_inv)
  qed
  with assms show ?thesis by fastforce
qed

lemma read_body_inv:
  assumes "read_body read r buf off rem k = Some (e, b, n, r')" "keep r"
  shows "keep r'"
proof -
  have "rd = read \<longrightarrow> keep r \<longrightarrow> keep (snd (snd (snd y)))" if "read_body rd r buf off rem k = Some y" for rd r buf off rem y
    using that
  proof (rule read_body.raw_induct [rotated], goal_cases)
    case (1 f rd r buf off rem k y)
    then show ?case
      by (cases y; cases "rd r (min rem k)") (fastforce split: if_splits option.splits dest: read_inv)
  qed
  with assms show ?thesis by fastforce
qed

lemma read_byte_loop_inv:
  assumes "read_byte_loop read r = Some (x, r')" "keep r"
  shows "keep r'"
proof -
  have "rd = read \<longrightarrow> keep r \<longrightarrow> keep (snd y)" if "read_byte_loop rd r = Some y" for rd r y
    using that
  proof (rule read_byte_loop.raw_induct [rotated], goal_cases)
    case (1 f rd r y)
    then show ?case by (cases y; cases "rd r 1") (fastforce split: list.splits option.splits dest: read_inv)
  qed
  with assms show ?thesis by fastforce
qed

lemma readByte_inv: "readByte read r lo = Some (x, lo', r') \<Longrightarrow> keep r \<Longrightarrow> keep r'"
  by (auto simp: readByte_def split: list.splits dest: read_byte_loop_inv)

lemma readLine_inv:
  assumes "readLine read r lo line = Some (x, lo', r')" "keep r"
  shows "keep r'"
proof -
  have "rd = read \<longrightarrow> keep r \<longrightarrow> keep (snd (snd y))" if "readLine rd r lo line = Some y" for rd r lo line y
    using that
  proof (rule readLine.raw_induct [rotated], goal_cases)
    case (1 f rd r lo line y)
    then show ?case
      by (cases y; cases "readByte rd r lo") (fastforce split: if_splits sum.splits dest: readByte_inv)+
  qed
  with assms show ?thesis by fastforce
qed

lemma read_exact_loop_inv:
  assumes "read_exact_loop read r k acc = Some (e, d, r')" "keep r"
  shows "keep r'"
proof -
  have "rd = read \<longrightarrow> keep r \<longrightarrow> keep (snd (snd y))" if "read_exact_loop rd r k acc = Some y" for rd r k acc y
    using that
  proof (rule read_exact_loop.raw_induct [rotated], goal_cases)
    case (1 f rd r k acc y)
    then show ?case
      by (cases y; cases "rd r k") (fastforce split: if_splits option.splits dest: read_inv)
  qed
  with assms show ?thesis by fastforce
qed

lemma readExact_inv: "readExact read r lo k = Some (e, d, lo', r') \<Longrightarrow> keep r \<Longrightarrow> keep r'"
  by (auto simp: readExact_def dest: read_exact_loop_inv)

lemma drain_trailers_inv:
  assumes "drain_trailers read r lo = Some (lo', r')" "keep r"
  shows "keep r'"
proof -
  have "rd = read \<longrightarrow> keep r \<longrightarrow> keep (snd y)" if "drain_trailers rd r lo = Some y" for rd r lo y
    using that
  proof (rule drain_trailers.raw_induct [rotated], goal_cases)
    case (1 f rd r lo y)
    then show ?case
      by (cases y; cases "readLine rd r lo []") (fastforce split: if_splits sum.splits dest: readLine_inv)+
  qed
  with assms show ?thesis by fastforce
qed

lemma until_eof_loop_inv:
  assumes "until_eof_loop read r resp off maxBody k = Some (e, n, resp', r')" "keep r"
  shows "keep r'"
proof -
  have "rd = read \<longrightarrow> keep r \<longrightarrow> keep (snd (snd (snd y)))" if "until_eof_loop rd r resp off maxBody k = Some y" for rd r resp off y
    using that
  proof (rule until_eof_loop.raw_induct [rotated], goal_cases)
    case (1 f rd r resp off maxBody k y)
    obtain ok resp1 where e: "ensureBufferSize resp (eof_required off k maxBody) = (ok, resp1)" by fastforce
    obtain d er r1 where rd: "rd r (eof_to_read (length (bodyBuf resp1)) off k maxBody) = (d, er, r1)"
      by (cases "rd r (eof_to_read (length (bodyBuf resp1)) off k maxBody)") auto
    have ih: "keep (snd (snd (snd y)))" if "f read r2 rs n maxBody k = Some y" "keep r2" for r2 rs n
      using 1(1) that by blast
    show ?case
    proof (intro impI)
      assume a: "rd = read" and r: "keep r"
      then have r1: "keep r1" using read_inv rd by blast
      show "keep (snd (snd (snd y)))"
        using 1(2) r r1 ih unfolding a
        by (auto simp: e rd [unfolded a] Let_def split: if_splits option.splits)
    qed
  qed
  with assms show ?thesis by fastforce
qed

text \<open>The chunk loop ends in one of its reads: its reader is reached through lines and exact reads only.\<close>

lemma chunk_loop_inv:
  assumes "chunk_loop read r lo resp n maxBody = Some (Done (e, m, resp', r'))" "keep r"
  shows "keep r'"
proof -
  have "rd = read \<longrightarrow> keep r \<longrightarrow> ends_in keep (Some y)" if "chunk_loop rd r lo resp n maxBody = Some y" for rd r lo resp n y
    using that
  proof (rule chunk_loop.raw_induct [rotated], goal_cases)
    case (1 f rd r lo resp n maxBody y)
    have ih: "ends_in keep (f read r2 l rs k maxBody)" if "keep r2" for r2 l rs k
      using 1(1) that by (cases "f read r2 l rs k maxBody") (auto simp: ends_in_def)
    show ?case
    proof (intro impI)
      assume a: "rd = read" "keep r"
      show "ends_in keep (Some y)"
        unfolding 1(2) [symmetric] a(1) Let_def
        by (intro ends_in_intros ih) (use a(2) in \<open>auto dest: readLine_inv readExact_inv drain_trailers_inv\<close>)
    qed
  qed
  with assms show ?thesis by (fastforce simp: ends_in_def)
qed

lemma readChunkedBody_inv:
  "readChunkedBody read r lo resp maxBody = Some (Done (e, resp', r')) \<Longrightarrow> keep r \<Longrightarrow> keep r'"
  by (cases "chunk_loop read r lo resp 0 maxBody")
    (auto simp: readChunkedBody_def split: outcome.splits option.splits dest: chunk_loop_inv)

lemma readResponseUntilEOF_inv:
  "readResponseUntilEOF read r head lo resp maxBody k = Some (e, resp', r') \<Longrightarrow> keep r \<Longrightarrow> keep r'"
  by (auto simp: readResponseUntilEOF_def Let_def split: if_splits prod.splits option.splits dest: until_eof_loop_inv)

lemma read_sized_body_inv:
  "read_sized_body read r head lo status len resp maxBody k = Some (Done (e, resp', r')) \<Longrightarrow> keep r \<Longrightarrow> keep r'"
  by (auto simp: read_sized_body_def Let_def split: if_splits prod.splits option.splits dest: read_body_inv)

lemma readResponse_inv:
  assumes "readResponse read r blen resp maxBody meth hsize bsize = Some (Done (e, resp', r'))" "keep r"
  shows "keep r'"
proof -
  obtain x r1 where h: "read_header read r blen (nat hsize) [] = Some (x, r1)"
    using assms(1) by (auto simp: readResponse_def bind_eq_Some_conv split: if_splits)
  then have r1: "keep r1" using read_header_inv assms(2) by blast
  show ?thesis
  proof (cases x)
    case (Inr p)
    then show ?thesis
      using assms(1) h r1 readChunkedBody_inv readResponseUntilEOF_inv read_sized_body_inv
      by (auto simp: readResponse_def Let_def split: if_splits prod.splits)
  qed (use assms(1) h r1 in \<open>auto simp: readResponse_def split: if_splits\<close>)
qed

end

interpretation net_frame: framed_reader conn_Read "\<lambda>c. nc_out c = written \<and> nc_wr c = writes \<and> nc_closed c = shut"
  for written writes shut
  by unfold_locales (auto simp: conn_Read_def split: if_splits list.splits)

section \<open>A dialogue with a peer\<close>

text \<open>
  \<open>talk c out inp rest\<close>: the connection takes every write, \<open>out\<close> has been written, the peer's bytes
  \<open>inp\<close> arrive without an error and \<open>rest\<close> is what follows them. A write extends the first, an exact
  read consumes the second; how the network cuts the stream does not matter.
\<close>

definition talk :: "netconn \<Rightarrow> bytes \<Rightarrow> bytes \<Rightarrow> bytes \<Rightarrow> bool" where
  "talk c out inp rest \<longleftrightarrow> writable c \<and> nc_out c = out \<and> conn_pending c = inp @ rest \<and> conn_safe c (length inp)"

lemma talk_Write:
  assumes "talk c out inp rest"
  obtains c' where "conn_Write c p = (length p, None, c')" "talk c' (out @ p) inp rest"
  using assms conn_Write_writable [of c p] that
  by (auto simp: talk_def conn_pending_def conn_safe_def writable_def)

lemma talk_readFull:
  assumes "talk c out (d @ inp) rest" "k = length d"
  obtains c' where "readFull conn_Read c k = Some (d, None, c')" "talk c' out inp rest"
proof -
  from assms(1) have s: "conn_safe c (length (d @ inp))" and p: "conn_pending c = (d @ inp) @ rest"
    and w: "writable c" "nc_out c = out"
    by (auto simp: talk_def)
  from net.read_loop_safe [OF s, of k "[]"] assms(2) p obtain c' where
    c': "readFull conn_Read c k = Some (d, None, c')" "conn_pending c' = inp @ rest" "conn_safe c' (length inp)"
    by (auto simp: readFull_def)
  moreover have "nc_out c' = nc_out c \<and> nc_wr c' = nc_wr c \<and> nc_closed c' = nc_closed c"
    using net_frame.readFull_inv [OF c'(1), of "nc_out c" "nc_wr c" "nc_closed c"] by simp
  ultimately show ?thesis using w that by (auto simp: talk_def writable_def)
qed

end
