(* ===== verification/Exchange.thy ===== *)
theory Exchange
  imports Connection Health Delivery Frame
begin

text \<open>
  One request and its response on a connection that is not pipelined: writeRequest, readResponse and
  doSequential of \<^verbatim>\<open>connection.go\<close>. The network connection is the one stored in the Connection; every
  function that reads or writes returns the Connection with its new state. The response object of the
  request is shared with the caller: it is part of the returned Request. Deadlines only matter through
  the errors of SetReadDeadline and SetWriteDeadline; an expired deadline is a read or write of the
  connection's script that fails with a timeout.
  A panic ends the program; \<open>None\<close> would be a call that never returns.
\<close>

record seq_env =
  se_net :: network
  se_now :: int
  se_elapsed :: int
  se_gzip :: gzip_fun
  se_gunzip :: "bytes \<Rightarrow> gunzip_result"
  se_deadline :: "nat \<Rightarrow> int option"
  se_done :: "nat \<Rightarrow> goerror option"
  se_rbuf :: bytes
  se_wbuf :: bytes

section \<open>Writing\<close>

definition length_line :: "nat \<Rightarrow> bytes" where
  "length_line n = take 64 (''Content-Length: '' @ itoa n @ CRLF @ CRLF)"

definition Connection_writeRequest ::
  "bytes \<Rightarrow> Connection \<Rightarrow> netconn \<Rightarrow> Request \<Rightarrow> bytes \<Rightarrow> bool \<Rightarrow> int \<Rightarrow> (goerror option \<times> netconn) option" where
  "Connection_writeRequest wbuf c conn req body compressed timeout =
     (case (if timeout > 0 then conn_SetDeadline conn else None) of
        Some e \<Rightarrow> Some (Some (WrapError ErrorTypeNetwork ''set write deadline failed'' e), conn)
      | None \<Rightarrow>
          if PreEncodedHeaderPrefix req \<noteq> [] then
            (case Buffers_WriteTo conn [PreEncodedHeaderPrefix req, length_line (length body), body] of
               (Some e, conn) \<Rightarrow> Some (Some (WrapError ErrorTypeNetwork ''write pre-encoded request failed'' e), conn)
             | (None, conn) \<Rightarrow> Some (None, conn))
          else
            (case writeRequestPart1 (getWriteBuf c wbuf 512) req (cn_config c) (cn_host c) (cn_port c)
                    (UseTLS (cn_config c)) compressed (cn_isForwardProxy c) of
               Inl e \<Rightarrow> Some (Some (WrapError ErrorTypeInternal ''encode request part1 failed'' e), conn)
             | Inr p1 \<Rightarrow>
                 (case writeRequestPart3 (zeros 128) req (int (length body)) (cn_proxyAuthHeader c) of
                    Inl e \<Rightarrow> Some (Some (WrapError ErrorTypeInternal ''encode request part3 failed'' e), conn)
                  | Inr p3 \<Rightarrow>
                      (case Buffers_WriteTo conn
                              [p1, if headerLen req > 0 then take (headerLen req) (headerBuf req) else [], p3] of
                         (Some e, conn) \<Rightarrow> Some (Some (WrapError ErrorTypeNetwork ''write request failed'' e), conn)
                       | (None, conn) \<Rightarrow>
                           if body = [] then Some (None, conn)
                           else
                             (case writeAll conn body of
                                None \<Rightarrow> None
                              | Some (Some e, conn) \<Rightarrow>
                                  Some (Some (WrapError ErrorTypeNetwork ''write body failed'' e), conn)
                              | Some (None, conn) \<Rightarrow> Some (None, conn))))))"

section \<open>Reading\<close>

definition Connection_readResponse ::
  "(bytes \<Rightarrow> gunzip_result) \<Rightarrow> bytes \<Rightarrow> Connection \<Rightarrow> netconn \<Rightarrow> Response \<Rightarrow> int \<Rightarrow> bytes \<Rightarrow>
   (goerror option \<times> Response \<times> netconn) outcome option" where
  "Connection_readResponse gunzip rbuf c conn resp timeout meth =
     (case (if timeout > 0 then conn_SetDeadline conn else None) of
        Some e \<Rightarrow> Some (Done (Some (WrapError ErrorTypeNetwork ''set read deadline failed'' e), resp, conn))
      | None \<Rightarrow>
          map_option (outcome_map (then_decompress gunzip))
            (readResponse conn_Read conn (length (getReadBuf c rbuf (nat (cn_readBufSize c)))) resp (cn_maxRespSize c)
               meth (cn_headerReadSize c) (cn_bodyReadSize c)))"

section \<open>doSequential\<close>

type_synonym exchange = "((goerror + Response) \<times> Connection \<times> Request) outcome option"

definition failed :: "goerror \<Rightarrow> Connection \<Rightarrow> Request \<Rightarrow> exchange" where
  "failed e c req = Some (Done (Inl e, c, req))"

definition unhealthy :: "Connection \<Rightarrow> Connection" where
  "unhealthy c = c\<lparr>cn_healthy := False\<rparr>"

text \<open>The statements that end an exchange whose response arrived, complete or not.\<close>

definition finish :: "int \<Rightarrow> Connection \<Rightarrow> Connection" where
  "finish now c = updateTimeCache now (c\<lparr>cn_reqsOnConn := i32 (cn_reqsOnConn c + 1)\<rparr>)"

definition errors_As_timeout :: "goerror \<Rightarrow> bool" where
  "errors_As_timeout e \<longleftrightarrow> errors_As_net e = Some True"

definition read_failure :: "goerror \<Rightarrow> goerror" where
  "read_failure e =
     (if errors_As_timeout e then WrapError ErrorTypeTimeout ''read timeout'' e
      else if e = EOF then WrapError ErrorTypeNetwork ''connection closed by server'' e
      else e)"

definition seq_receive ::
  "seq_env \<Rightarrow> Connection \<Rightarrow> netconn \<Rightarrow> Request \<Rightarrow> Response \<Rightarrow> bytes \<Rightarrow> int \<Rightarrow> exchange" where
  "seq_receive env c conn req resp body readTimeout =
     (case Connection_readResponse (se_gunzip env) (se_rbuf env) c conn resp readTimeout (Method req) of
        None \<Rightarrow> None
      | Some Panic \<Rightarrow> Some Panic
      | Some (Done (e, resp, conn)) \<Rightarrow>
          (let c = c\<lparr>cn_conn := Some conn\<rparr>; req = req\<lparr>req_resp := Some resp\<rparr> in
           case e of
             Some err \<Rightarrow>
               if StatusCode resp > 0 then Some (Done (Inr resp, finish (se_now env) c, req))
               else failed (read_failure err) (recordError (unhealthy c)) req
           | None \<Rightarrow>
               (let c = recordSuccess (se_elapsed env) (finish (se_now env) c);
                    c = c\<lparr>cn_bytesWritten := i64 (cn_bytesWritten c + int (length body)),
                          cn_bytesRead := i64 (cn_bytesRead c + ContentLength resp)\<rparr>
                in Some (Done (Inr resp, if isConnectionClose resp then unhealthy c else c, req)))))"

text \<open>The request with Expect: 100-continue: the interim response is read before the body is sent.\<close>

definition continue_response :: Response where
  "continue_response = responsePool_New\<lparr>bodyBuf := zeros 512\<rparr>"

definition adopt_response :: "Response \<Rightarrow> Response \<Rightarrow> Response" where
  "adopt_response resp cr = resp\<lparr>StatusCode := StatusCode cr, Headers := Headers cr,
     Body := Other (Body_bytes cr), ContentLength := ContentLength cr\<rparr>"

definition seq_expect ::
  "seq_env \<Rightarrow> Connection \<Rightarrow> netconn \<Rightarrow> Request \<Rightarrow> Response \<Rightarrow> bytes \<Rightarrow> bool \<Rightarrow> int \<Rightarrow> int \<Rightarrow> exchange" where
  "seq_expect env c conn req resp body compressed writeTimeout readTimeout =
     (case Connection_writeRequest (se_wbuf env) c conn req [] compressed writeTimeout of
        None \<Rightarrow> None
      | Some (Some e, conn) \<Rightarrow> failed e (unhealthy (c\<lparr>cn_conn := Some conn\<rparr>)) (req\<lparr>req_resp := Some resp\<rparr>)
      | Some (None, conn) \<Rightarrow>
          (case Connection_readResponse (se_gunzip env) (se_rbuf env) c conn continue_response readTimeout (Method req) of
             None \<Rightarrow> None
           | Some Panic \<Rightarrow> Some Panic
           | Some (Done (Some e, _, conn)) \<Rightarrow>
               failed e (unhealthy (c\<lparr>cn_conn := Some conn\<rparr>)) (req\<lparr>req_resp := Some resp\<rparr>)
           | Some (Done (None, cr, conn)) \<Rightarrow>
               if StatusCode cr \<noteq> 100 then
                 (let resp = adopt_response resp cr
                  in Some (Done (Inr resp, finish (se_now env) (c\<lparr>cn_conn := Some conn\<rparr>), req\<lparr>req_resp := Some resp\<rparr>)))
               else
                 (case writeAll conn body of
                    None \<Rightarrow> None
                  | Some (Some e, conn) \<Rightarrow>
                      failed (WrapError ErrorTypeNetwork ''write body after 100-continue failed'' e)
                        (unhealthy (c\<lparr>cn_conn := Some conn\<rparr>)) (req\<lparr>req_resp := Some resp\<rparr>)
                  | Some (None, conn) \<Rightarrow> seq_receive env c conn req resp body readTimeout)))"

definition seq_send ::
  "seq_env \<Rightarrow> Connection \<Rightarrow> netconn \<Rightarrow> Request \<Rightarrow> Response \<Rightarrow> bytes \<Rightarrow> bool \<Rightarrow> int \<Rightarrow> int \<Rightarrow> exchange" where
  "seq_send env c conn req resp body compressed writeTimeout readTimeout =
     (case Connection_writeRequest (se_wbuf env) c conn req body compressed writeTimeout of
        None \<Rightarrow> None
      | Some (Some e, conn) \<Rightarrow> failed e (unhealthy (c\<lparr>cn_conn := Some conn\<rparr>)) (req\<lparr>req_resp := Some resp\<rparr>)
      | Some (None, conn) \<Rightarrow> seq_receive env c conn req resp body readTimeout)"

definition seq_connected :: "seq_env \<Rightarrow> Connection \<Rightarrow> Request \<Rightarrow> exchange" where
  "seq_connected env c req =
     (case cn_conn c of
        None \<Rightarrow> failed (WrapError ErrorTypeNetwork ''connection is nil'' ErrConnectFailed) c req
      | Some conn \<Rightarrow>
          (case prepareBody (se_gzip env) c req of
             (Inl e, req) \<Rightarrow> failed e c req
           | (Inr (body, compressed), req) \<Rightarrow>
               (let writeTimeout = (if req_WriteTimeout req = 0 then WriteTimeout (cn_config c) else req_WriteTimeout req);
                    readTimeout = effectiveReadTimeout (se_deadline env) (se_now env) c req
                in case req_resp req of
                     None \<Rightarrow> failed (WrapError ErrorTypeInternal ''response object is nil'' ErrInvalidResponse) c req
                   | Some resp \<Rightarrow>
                       (let resp = Response_Reset resp in
                        if ExpectContinue req \<and> body \<noteq> []
                        then seq_expect env c conn req resp body compressed writeTimeout readTimeout
                        else seq_send env c conn req resp body compressed writeTimeout readTimeout))))"

definition seq_rotate :: "seq_env \<Rightarrow> Connection \<Rightarrow> Request \<Rightarrow> exchange" where
  "seq_rotate env c req =
     (if MaxRequestsPerConn (cn_config c) > 0 \<and> cn_reqsOnConn c \<ge> MaxRequestsPerConn (cn_config c) then
        (case ensureConnection (se_net env) (se_now env) (closeConn c) of
           (False, c) \<Rightarrow> failed (WrapError ErrorTypeNetwork ''connection not available'' ErrConnectFailed) c req
         | (True, c) \<Rightarrow> seq_connected env c req)
      else seq_connected env c req)"

definition request_done :: "seq_env \<Rightarrow> Request \<Rightarrow> goerror option" where
  "request_done env req = Option.bind (ctx req) (se_done env)"

text \<open>The claim of the pool, or the counter; the deferred decrement runs on every path.\<close>

definition enter :: "Connection \<Rightarrow> Connection" where
  "enter c = (if cn_poolClaimed c then c\<lparr>cn_poolClaimed := False\<rparr>
     else c\<lparr>cn_poolClaimed := False, cn_activeReqs := i32 (cn_activeReqs c + 1)\<rparr>)"

definition leave :: "Connection \<Rightarrow> Connection" where
  "leave c = c\<lparr>cn_activeReqs := i32 (cn_activeReqs c - 1)\<rparr>"

definition doSequential :: "seq_env \<Rightarrow> Connection \<Rightarrow> Request \<Rightarrow> exchange" where
  "doSequential env c req =
     (let c = enter c in
      map_option (outcome_map (\<lambda>(r, c, req). (r, leave c, req)))
        (case request_done env req of
           Some e \<Rightarrow> failed (WrapError ErrorTypeTimeout ''request cancelled'' e) c req
         | None \<Rightarrow> seq_rotate env c req))"

section \<open>Every exchange returns\<close>

named_theorems total_intros \<open>introduction rules for a computation that returns\<close>

lemma total_option [total_intros]:
  "(x = None \<Longrightarrow> a \<noteq> None) \<Longrightarrow> (\<And>y. f y \<noteq> None) \<Longrightarrow> (case x of None \<Rightarrow> a | Some y \<Rightarrow> f y) \<noteq> None"
  by (cases x) simp_all

lemma total_cases [total_intros]:
  "(\<And>y z. g y z \<noteq> None) \<Longrightarrow> (case p of (y, z) \<Rightarrow> g y z) \<noteq> None"
  "(\<And>y. f y \<noteq> None) \<Longrightarrow> (\<And>z. h z \<noteq> None) \<Longrightarrow> (case s of Inl y \<Rightarrow> f y | Inr z \<Rightarrow> h z) \<noteq> None"
  "a \<noteq> None \<Longrightarrow> b \<noteq> None \<Longrightarrow> (if P then a else b) \<noteq> None"
  "(\<And>y. k y \<noteq> None) \<Longrightarrow> b \<noteq> None \<Longrightarrow> (case out of Done y \<Rightarrow> k y | Panic \<Rightarrow> b) \<noteq> None"
  "a \<noteq> None \<Longrightarrow> b \<noteq> None \<Longrightarrow> (case P of True \<Rightarrow> a | False \<Rightarrow> b) \<noteq> None"
  "Some v \<noteq> None" "m \<noteq> None \<Longrightarrow> map_option w m \<noteq> None"
  by (auto split: prod.split sum.split outcome.split bool.split)

lemma total_failed [total_intros]: "failed e c req \<noteq> None"
  by (simp add: failed_def)

lemma writeAll_total [simp]: "writeAll c buf \<noteq> None"
  using writeAll_result [of c buf] by auto

lemma Connection_writeRequest_total [simp]: "Connection_writeRequest wbuf c conn req body compressed timeout \<noteq> None"
  unfolding Connection_writeRequest_def by (intro total_intros) (simp_all del: not_None_eq)

lemma Connection_readResponse_total [simp]: "Connection_readResponse gunzip rbuf c conn resp timeout meth \<noteq> None"
  unfolding Connection_readResponse_def by (intro total_intros net.readResponse_total)

lemma seq_receive_total [total_intros]: "seq_receive env c conn req resp body rt \<noteq> None"
  unfolding seq_receive_def Let_def by (intro total_intros) (simp_all del: not_None_eq)

lemma seq_send_total [total_intros]: "seq_send env c conn req resp body z wt rt \<noteq> None"
  unfolding seq_send_def by (intro total_intros) (simp_all del: not_None_eq)

lemma seq_expect_total [total_intros]: "seq_expect env c conn req resp body z wt rt \<noteq> None"
  unfolding seq_expect_def Let_def by (intro total_intros) (simp_all del: not_None_eq)

lemma seq_connected_total [total_intros]: "seq_connected env c req \<noteq> None"
  unfolding seq_connected_def Let_def by (intro total_intros)

lemma seq_rotate_total [total_intros]: "seq_rotate env c req \<noteq> None"
  unfolding seq_rotate_def by (intro total_intros)

lemma doSequential_total: "doSequential env c req \<noteq> None"
  unfolding doSequential_def Let_def by (intro total_intros)

section \<open>What holds after an exchange\<close>

definition post :: "(goerror + Response \<Rightarrow> Connection \<Rightarrow> Request \<Rightarrow> bool) \<Rightarrow> exchange \<Rightarrow> bool" where
  "post P x \<longleftrightarrow> (\<forall>r c req. x = Some (Done (r, c, req)) \<longrightarrow> P r c req)"

named_theorems post_intros \<open>introduction rules for the postcondition of an exchange\<close>

lemma post_option [post_intros]:
  "(x = None \<Longrightarrow> post P a) \<Longrightarrow> (\<And>y. x = Some y \<Longrightarrow> post P (f y)) \<Longrightarrow> post P (case x of None \<Rightarrow> a | Some y \<Rightarrow> f y)"
  by (cases x) simp_all

lemma post_cases [post_intros]:
  "(\<And>y z. p = (y, z) \<Longrightarrow> post P (g y z)) \<Longrightarrow> post P (case p of (y, z) \<Rightarrow> g y z)"
  "(\<And>y. s = Inl y \<Longrightarrow> post P (l y)) \<Longrightarrow> (\<And>z. s = Inr z \<Longrightarrow> post P (h z)) \<Longrightarrow>
     post P (case s of Inl y \<Rightarrow> l y | Inr z \<Rightarrow> h z)"
  "(Q \<Longrightarrow> post P a) \<Longrightarrow> (\<not> Q \<Longrightarrow> post P b) \<Longrightarrow> post P (if Q then a else b)"
  "(\<And>y. out = Done y \<Longrightarrow> post P (k y)) \<Longrightarrow> post P b \<Longrightarrow> post P (case out of Done y \<Rightarrow> k y | Panic \<Rightarrow> b)"
  "(Q \<Longrightarrow> post P a) \<Longrightarrow> (\<not> Q \<Longrightarrow> post P b) \<Longrightarrow> post P (case Q of True \<Rightarrow> a | False \<Rightarrow> b)"
  by (auto split: prod.split sum.split outcome.split bool.split)

lemma post_return [post_intros]:
  "post P None" "post P (Some Panic)" "P r c req \<Longrightarrow> post P (Some (Done (r, c, req)))"
  "P (Inl e) c req \<Longrightarrow> post P (failed e c req)"
  by (simp_all add: post_def failed_def)

lemma post_leave:
  "post P x \<Longrightarrow> (\<And>r c req. P r c req \<Longrightarrow> Q r (leave c) req) \<Longrightarrow>
    post Q (map_option (outcome_map (\<lambda>(r, c, req). (r, leave c, req))) x)"
  unfolding post_def by (cases x; force elim: outcome_map.elims)

text \<open>The bookkeeping at the end of an exchange touches neither the claim nor the connection.\<close>

definition same_claim :: "Connection \<Rightarrow> Connection \<Rightarrow> bool" where
  "same_claim c c' \<longleftrightarrow> cn_activeReqs c' = cn_activeReqs c \<and> cn_poolClaimed c' = cn_poolClaimed c"

lemma bookkeeping_keeps [simp]:
  "cn_activeReqs (recordError c) = cn_activeReqs c" "cn_poolClaimed (recordError c) = cn_poolClaimed c"
  "cn_healthy (recordError c) = cn_healthy c" "cn_conn (recordError c) = cn_conn c"
  "cn_activeReqs (recordSuccess t c) = cn_activeReqs c" "cn_poolClaimed (recordSuccess t c) = cn_poolClaimed c"
  "cn_healthy (recordSuccess t c) = cn_healthy c" "cn_conn (recordSuccess t c) = cn_conn c"
  "cn_activeReqs (updateTimeCache n c) = cn_activeReqs c" "cn_poolClaimed (updateTimeCache n c) = cn_poolClaimed c"
  "cn_healthy (updateTimeCache n c) = cn_healthy c" "cn_conn (updateTimeCache n c) = cn_conn c"
  by (simp_all add: recordError_def recordSuccess_def advanceHealthWindow_def tunePipelineDepth_def updateTimeCache_def Let_def)

lemma finish_keeps [simp]:
  "cn_activeReqs (finish n c) = cn_activeReqs c" "cn_poolClaimed (finish n c) = cn_poolClaimed c"
  "cn_healthy (finish n c) = cn_healthy c" "cn_conn (finish n c) = cn_conn c"
  by (simp_all add: finish_def)

lemma unhealthy_keeps [simp]:
  "cn_activeReqs (unhealthy c) = cn_activeReqs c" "cn_poolClaimed (unhealthy c) = cn_poolClaimed c"
  "\<not> cn_healthy (unhealthy c)" "cn_conn (unhealthy c) = cn_conn c"
  by (simp_all add: unhealthy_def)

lemma closeConn_claim [simp]:
  "cn_activeReqs (closeConn c) = cn_activeReqs c" "cn_poolClaimed (closeConn c) = cn_poolClaimed c"
  by (simp_all add: closeConn_def)

lemma ensureConnection_claim:
  "ensureConnection net now c = (ok, c') \<Longrightarrow> same_claim c c'"
  by (auto simp: ensureConnection_def ensure_locked_def connectLocked_def same_claim_def
      split: if_splits option.splits sum.splits)

lemma seq_receive_claim: "same_claim c0 c \<Longrightarrow> post (\<lambda>r c' req'. same_claim c0 c') (seq_receive env c conn req resp body rt)"
  unfolding seq_receive_def Let_def by (intro post_intros) (simp_all add: same_claim_def)

lemma seq_send_claim: "same_claim c0 c \<Longrightarrow> post (\<lambda>r c' req'. same_claim c0 c') (seq_send env c conn req resp body z wt rt)"
  unfolding seq_send_def by (intro post_intros seq_receive_claim) (simp_all add: same_claim_def)

lemma seq_expect_claim: "same_claim c0 c \<Longrightarrow> post (\<lambda>r c' req'. same_claim c0 c') (seq_expect env c conn req resp body z wt rt)"
  unfolding seq_expect_def Let_def by (intro post_intros seq_receive_claim) (simp_all add: same_claim_def)

lemma seq_connected_claim: "same_claim c0 c \<Longrightarrow> post (\<lambda>r c' req'. same_claim c0 c') (seq_connected env c req)"
  unfolding seq_connected_def Let_def by (intro post_intros seq_send_claim seq_expect_claim)

lemma seq_rotate_claim: "post (\<lambda>r c' req'. same_claim c c') (seq_rotate env c req)"
proof -
  have "same_claim c c'" if "ensureConnection net now (closeConn c) = (ok, c')" for net now ok c'
    using ensureConnection_claim [OF that] by (simp add: same_claim_def)
  then show ?thesis
    unfolding seq_rotate_def by (intro post_intros seq_connected_claim) (auto simp: same_claim_def)
qed


definition demo_env :: seq_env where
  "demo_env = \<lparr>se_net = \<lparr>DialAddr = (\<lambda>h p. Inl ErrConnectFailed), DialForward = Inl ErrConnectFailed,
     Handshake = (\<lambda>t c. Inr c)\<rparr>, se_now = 7, se_elapsed = Millisecond, se_gzip = (\<lambda>l b. GzCloseErr EOF),
     se_gunzip = (\<lambda>b. GzReadErr EOF), se_deadline = (\<lambda>n. None), se_done = (\<lambda>n. None),
     se_rbuf = zeros 16384, se_wbuf = zeros 16384\<rparr>"

definition demo_connection :: "netconn \<Rightarrow> Connection" where
  "demo_connection conn = (NewConnection 0 1 ''h'' 443 (DefaultConfig\<lparr>EnablePipelining := False\<rparr>) None None None)
     \<lparr>cn_conn := Some conn, cn_healthy := True\<rparr>"


section \<open>After an error\<close>

text \<open>Either the connection has been marked unhealthy or it is the one of before, untouched.\<close>

definition isolated :: "netconn \<Rightarrow> goerror + Response \<Rightarrow> Connection \<Rightarrow> Request \<Rightarrow> bool" where
  "isolated conn r c req \<longleftrightarrow> (\<forall>e. r = Inl e \<longrightarrow> \<not> cn_healthy c \<or> cn_conn c = Some conn)"

lemma seq_receive_isolated: "post (isolated conn) (seq_receive env c conn1 req resp body rt)"
  unfolding seq_receive_def Let_def by (intro post_intros) (simp_all add: isolated_def)

lemma seq_send_isolated: "post (isolated conn) (seq_send env c conn1 req resp body z wt rt)"
  unfolding seq_send_def by (intro post_intros seq_receive_isolated) (simp_all add: isolated_def)

lemma seq_expect_isolated: "post (isolated conn) (seq_expect env c conn1 req resp body z wt rt)"
  unfolding seq_expect_def Let_def by (intro post_intros seq_receive_isolated) (simp_all add: isolated_def)

lemma seq_connected_isolated: "cn_conn c = Some conn \<Longrightarrow> post (isolated conn) (seq_connected env c req)"
  unfolding seq_connected_def Let_def
  by (intro post_intros seq_send_isolated seq_expect_isolated) (simp_all add: isolated_def)

definition rotates :: "Connection \<Rightarrow> bool" where
  "rotates c \<longleftrightarrow> MaxRequestsPerConn (cn_config c) > 0 \<and> cn_reqsOnConn c \<ge> MaxRequestsPerConn (cn_config c)"

lemma enter_keeps [simp]:
  "cn_conn (enter c) = cn_conn c" "cn_healthy (enter c) = cn_healthy c" "cn_config (enter c) = cn_config c"
  "cn_reqsOnConn (enter c) = cn_reqsOnConn c" "cn_host (enter c) = cn_host c" "cn_port (enter c) = cn_port c"
  "rotates (enter c) = rotates c"
  by (simp_all add: enter_def rotates_def)

lemma seq_rotate_stays: "\<not> rotates c \<Longrightarrow> seq_rotate env c req = seq_connected env c req"
  by (auto simp: seq_rotate_def rotates_def)

text \<open>
  C12. A failed exchange never leaves a half-used connection behind: when doSequential returns an
  error, the connection has been marked unhealthy, or nothing was read from or written to it.
\<close>

theorem doSequential_error_isolated:
  assumes "cn_conn c = Some conn" "\<not> rotates c" "doSequential env c req = Some (Done (Inl e, c', req'))"
  shows "\<not> cn_healthy c' \<or> cn_conn c' = Some conn"
proof -
  have "post (isolated conn)
      (case request_done env req of
         Some e \<Rightarrow> failed (WrapError ErrorTypeTimeout ''request cancelled'' e) (enter c) req
       | None \<Rightarrow> seq_rotate env (enter c) req)"
    using assms(1,2) by (intro post_intros) (simp_all add: seq_rotate_stays seq_connected_isolated, simp add: isolated_def)
  then have "post (isolated conn) (doSequential env c req)"
    unfolding doSequential_def Let_def by (elim post_leave) (simp add: isolated_def leave_def)
  then show ?thesis using assms(3) by (simp add: post_def isolated_def)
qed

definition demo_req :: Request where
  "demo_req = requestPool_New\<lparr>req_resp := Some demo_response\<rparr>"

definition demo_closed :: netconn where
  "demo_closed = (demo_conn [])\<lparr>nc_closed := True\<rparr>"

lemma demo_closed_result:
  "\<exists>e c'. doSequential demo_env (demo_connection demo_closed) demo_req = Some (Done (Inl e, c', demo_req\<lparr>req_resp := Some (Response_Reset demo_response)\<rparr>)) \<and>
    \<not> cn_healthy c'"
  by (simp add: doSequential_def seq_rotate_def seq_connected_def seq_send_def Connection_writeRequest_def request_done_def
      demo_env_def demo_connection_def demo_closed_def demo_req_def demo_conn_def enter_def NewConnection_def Let_def failed_def
      prepareBody_def requestPool_New_def new_Request_def DefaultConfig_def conn_SetDeadline_def default_int_def leave_def)

theorem doSequential_error_isolated_witness:
  "\<exists>e c' req'. doSequential demo_env (demo_connection demo_closed) demo_req = Some (Done (Inl e, c', req')) \<and>
    (\<not> cn_healthy c' \<or> cn_conn c' = Some demo_closed)"
proof -
  obtain e c' req' where d: "doSequential demo_env (demo_connection demo_closed) demo_req = Some (Done (Inl e, c', req'))"
    using demo_closed_result by blast
  have "cn_conn (demo_connection demo_closed) = Some demo_closed" "\<not> rotates (demo_connection demo_closed)"
    by (simp_all add: demo_connection_def rotates_def NewConnection_def Let_def DefaultConfig_def)
  from doSequential_error_isolated [OF this d] d show ?thesis by blast
qed

section \<open>A complete exchange\<close>

lemma writeAll_open:
  assumes "\<not> nc_closed conn" "nc_wr conn = []"
  shows "writeAll conn body = Some (None, conn\<lparr>nc_out := nc_out conn @ body\<rparr>)"
proof (cases "body = []")
  case False
  then show ?thesis using assms
    by (subst writeAll.simps, subst writeAll.simps) (simp add: conn_Write_def)
qed (subst writeAll.simps, simp)

text \<open>The bytes of a request on the wire.\<close>

definition request_bytes :: "Connection \<Rightarrow> Request \<Rightarrow> bytes \<Rightarrow> bool \<Rightarrow> bytes" where
  "request_bytes c req body compressed =
     render_request req (cn_config c) (cn_host c) (cn_port c) (UseTLS (cn_config c)) body compressed
       (cn_isForwardProxy c) (cn_proxyAuthHeader c) @ body"

text \<open>The parts of the request fit the fixed buffers.\<close>

definition encodable :: "Connection \<Rightarrow> Request \<Rightarrow> bytes \<Rightarrow> bool \<Rightarrow> bool" where
  "encodable c req body compressed \<longleftrightarrow>
     PreEncodedHeaderPrefix req = [] \<and> header_wf req \<and>
     length (render_start req (cn_config c) (cn_host c) (cn_port c) (UseTLS (cn_config c)) compressed (cn_isForwardProxy c)) \<le> 512 \<and>
     length (cn_proxyAuthHeader c @ (if ExpectContinue req \<and> body \<noteq> [] then expect_line else []) @
       render_length (length body)) \<le> 128 \<and>
     (cn_isForwardProxy c \<or> cn_proxyAuthHeader c = [])"

lemma Connection_writeRequest_sends:
  assumes "\<not> nc_closed conn" "nc_wr conn = []" "encodable c req body z"
  shows "Connection_writeRequest wbuf c conn req body z wt =
    Some (None, conn\<lparr>nc_out := nc_out conn @ request_bytes c req body z\<rparr>)"
proof -
  have l: "512 \<le> length (getWriteBuf c wbuf 512)" by (simp add: getWriteBuf_def pick_buf_length)
  have h: "(if headerLen req > 0 then take (headerLen req) (headerBuf req) else []) = header_bytes req"
    by (simp add: header_bytes_def)
  define p1 where "p1 = render_start req (cn_config c) (cn_host c) (cn_port c) (UseTLS (cn_config c)) z (cn_isForwardProxy c)"
  define p3 where "p3 = cn_proxyAuthHeader c @ (if ExpectContinue req \<and> body \<noteq> [] then expect_line else []) @
    render_length (length body)"
  have 1: "writeRequestPart1 (getWriteBuf c wbuf 512) req (cn_config c) (cn_host c) (cn_port c) (UseTLS (cn_config c)) z
      (cn_isForwardProxy c) = Inr p1"
    using l assms(3) by (simp add: writeRequestPart1_eq Let_def p1_def [symmetric] encodable_def)
  have 3: "writeRequestPart3 (zeros 128) req (int (length body)) (cn_proxyAuthHeader c) = Inr p3"
    using assms(3) by (simp add: writeRequestPart3_eq Let_def p3_def encodable_def)
  have w: "Buffers_WriteTo conn [p1, header_bytes req, p3] = (None, conn\<lparr>nc_out := nc_out conn @ p1 @ header_bytes req @ p3\<rparr>)"
    using assms(1,2) by (simp add: conn_Write_def)
  have r: "request_bytes c req body z = p1 @ header_bytes req @ p3 @ body"
    using assms(3) by (auto simp: request_bytes_def render_request_def p1_def p3_def encodable_def)
  have d: "conn_SetDeadline conn = None" using assms(1) by (simp add: conn_SetDeadline_def)
  have "PreEncodedHeaderPrefix req = []" using assms(3) by (simp add: encodable_def)
  then show ?thesis
    unfolding Connection_writeRequest_def h 1 3 d sum.case w
    using assms(1,2) by (simp add: writeAll_open r)
qed

lemma Connection_readResponse_delivers:
  assumes "\<not> nc_closed conn" "wire_ok meth head wb" "conn_pending conn = head @ render_body wb @ s"
    "conn_safe conn (length head + length (render_body wb))" "length head \<le> nat (cn_readBufSize c)"
    "0 < cn_headerReadSize c" "int (length (body_data wb)) \<le> cn_maxRespSize c" "room resp wb" "maxSize resp = 0"
    "content gunzip (head_fields head) (body_data wb) = Some out"
  shows "\<exists>conn' resp'. Connection_readResponse gunzip rbuf c conn resp timeout meth = Some (Done (None, resp', conn')) \<and>
    carries resp' (fst (parseStatusCode head)) (head_fields head) out \<and> nc_out conn' = nc_out conn"
proof -
  have "nat (cn_readBufSize c) \<le> length (getReadBuf c rbuf (nat (cn_readBufSize c)))"
    by (simp add: getReadBuf_def pick_buf_length)
  then have l: "length head \<le> length (getReadBuf c rbuf (nat (cn_readBufSize c)))" using assms(5) by simp
  obtain conn' resp1 where r: "readResponse conn_Read conn (length (getReadBuf c rbuf (nat (cn_readBufSize c)))) resp
        (cn_maxRespSize c) meth (cn_headerReadSize c) (cn_bodyReadSize c) = Some (Done (None, resp1, conn'))"
      "carries resp1 (fst (parseStatusCode head)) (head_fields head) (body_data wb)" "maxSize resp1 = maxSize resp"
    using net.readResponse_ready [OF assms(2-4) l assms(6-8)] by blast
  have "nc_out conn' = nc_out conn"
    using net_frame.readResponse_inv [OF r(1), of "nc_out conn" "nc_wr conn" "nc_closed conn"] by simp
  moreover obtain resp' where "decompressBody gunzip resp1 = (None, resp')"
      "carries resp' (fst (parseStatusCode head)) (head_fields head) out"
    using decompressBody_carries [OF r(2) assms(10)] r(3) assms(9) by (auto simp: within_limit_def)
  ultimately show ?thesis
    using assms(1) r(1) by (auto simp: Connection_readResponse_def conn_SetDeadline_def then_decompress_def)
qed

end
