(* ===== verification/Sequential.thy ===== *)
theory Sequential
  imports Exchange
begin

text \<open>
  End-to-end properties of a sequential exchange: the request bytes on the wire and the response
  delivered, a response that is cut short, the 100-continue handshake, and proxy credentials that do not
  fit the encoder's buffer.
\<close>

lemma enter_fields [simp]:
  "cn_maxRespSize (enter c) = cn_maxRespSize c" "cn_readBufSize (enter c) = cn_readBufSize c"
  "cn_headerReadSize (enter c) = cn_headerReadSize c" "cn_bodyReadSize (enter c) = cn_bodyReadSize c"
  "cn_compressor (enter c) = cn_compressor c" "cn_maxReqSize (enter c) = cn_maxReqSize c"
  "cn_isForwardProxy (enter c) = cn_isForwardProxy c" "cn_proxyAuthHeader (enter c) = cn_proxyAuthHeader c"
  by (simp_all add: enter_def)

lemma enter_same [simp]:
  "prepareBody gzip (enter c) req = prepareBody gzip c req" "encodable (enter c) req body z = encodable c req body z"
  "request_bytes (enter c) req body z = request_bytes c req body z"
  "effectiveReadTimeout dl now (enter c) req = effectiveReadTimeout dl now c req"
  "Connection_readResponse gunzip rbuf (enter c) conn resp t m = Connection_readResponse gunzip rbuf c conn resp t m"
  unfolding prepareBody_def encodable_def request_bytes_def effectiveReadTimeout_def Connection_readResponse_def
    getReadBuf_def enter_fields enter_keeps by (rule refl)+

lemma conn_out_same [simp]:
  "conn_pending (conn\<lparr>nc_out := w\<rparr>) = conn_pending conn" "conn_safe (conn\<lparr>nc_out := w\<rparr>) n = conn_safe conn n"
  "conn_closing (conn\<lparr>nc_out := w\<rparr>) = conn_closing conn"
  by (simp_all add: conn_pending_def conn_safe_def conn_closing_def)

text \<open>A connection ready for a request: nothing cancelled, no rotation due, an open connection that takes writes.\<close>

definition ready :: "seq_env \<Rightarrow> Connection \<Rightarrow> netconn \<Rightarrow> Request \<Rightarrow> bool" where
  "ready env c conn req \<longleftrightarrow> request_done env req = None \<and> \<not> rotates c \<and> cn_conn c = Some conn \<and>
     \<not> nc_closed conn \<and> nc_wr conn = []"

text \<open>The exchange up to the response: the request is written and the response is read.\<close>

lemma doSequential_after_send:
  assumes "ready env c conn req" "prepareBody (se_gzip env) c req = (Inr (body, z), req1)" "req_resp req1 = Some resp"
    "\<not> ExpectContinue req1 \<or> body = []" "encodable c req1 body z"
  shows "doSequential env c req = map_option (outcome_map (\<lambda>(r, c, req). (r, leave c, req)))
    (seq_receive env (enter c) (conn\<lparr>nc_out := nc_out conn @ request_bytes c req1 body z\<rparr>) req1 (Response_Reset resp) body
       (effectiveReadTimeout (se_deadline env) (se_now env) c req1))"
proof -
  have w: "Connection_writeRequest (se_wbuf env) (enter c) conn req1 body z t =
      Some (None, conn\<lparr>nc_out := nc_out conn @ request_bytes c req1 body z\<rparr>)" for t
    using Connection_writeRequest_sends [of conn "enter c" req1 body z] assms(1,5) by (simp add: ready_def)
  have "seq_connected env (enter c) req =
      seq_send env (enter c) conn req1 (Response_Reset resp) body z
        (if req_WriteTimeout req1 = 0 then WriteTimeout (cn_config (enter c)) else req_WriteTimeout req1)
        (effectiveReadTimeout (se_deadline env) (se_now env) c req1)"
    using assms(1-4) by (auto simp: seq_connected_def ready_def Let_def)
  then show ?thesis
    using assms(1) w by (simp add: doSequential_def Let_def ready_def seq_rotate_stays seq_send_def)
qed

lemma leave_keeps [simp]: "cn_conn (leave c) = cn_conn c" "cn_healthy (leave c) = cn_healthy c"
  by (simp_all add: leave_def)

lemma sequential_exchange:
  assumes "ready env c conn req" "prepareBody (se_gzip env) c req = (Inr (body, z), req1)" "req_resp req1 = Some resp"
    "\<not> ExpectContinue req1 \<or> body = []" "encodable c req1 body z"
    "wire_ok (Method req1) head wb" "conn_pending conn = head @ render_body wb @ s"
    "conn_safe conn (length head + length (render_body wb))" "length head \<le> nat (cn_readBufSize c)"
    "0 < cn_headerReadSize c" "int (length (body_data wb)) \<le> cn_maxRespSize c" "room (Response_Reset resp) wb"
    "content (se_gunzip env) (head_fields head) (body_data wb) = Some out"
  shows "\<exists>resp' c' req' conn'. doSequential env c req = Some (Done (Inr resp', c', req')) \<and>
    carries resp' (fst (parseStatusCode head)) (head_fields head) out \<and>
    cn_conn c' = Some conn' \<and> nc_out conn' = nc_out conn @ request_bytes c req1 body z \<and>
    (cn_healthy c' \<longleftrightarrow> cn_healthy c \<and> \<not> isConnectionClose resp')"
proof -
  let ?conn = "conn\<lparr>nc_out := nc_out conn @ request_bytes c req1 body z\<rparr>"
  have open': "\<not> nc_closed ?conn" using assms(1) by (simp add: ready_def)
  have m: "maxSize (Response_Reset resp) = 0" by (simp add: Response_Reset_def)
  obtain conn' resp' where r: "Connection_readResponse (se_gunzip env) (se_rbuf env) c ?conn (Response_Reset resp)
        (effectiveReadTimeout (se_deadline env) (se_now env) c req1) (Method req1) = Some (Done (None, resp', conn'))"
      "carries resp' (fst (parseStatusCode head)) (head_fields head) out" "nc_out conn' = nc_out ?conn"
    using Connection_readResponse_delivers [OF open' assms(6), where s = s] assms(7-13) m by fastforce
  show ?thesis
    unfolding doSequential_after_send [OF assms(1-5)]
    using r by (auto simp: seq_receive_def Let_def)
qed

text \<open>
  C10. A sequential exchange is correct from end to end: the bytes written to the connection are exactly
  the encoding of the request followed by its (possibly compressed) body, and the response delivered
  carries the status, the header fields and the decompressed body of the response on the wire, in any
  of the self-delimiting framings and in any segmentation; the connection stays healthy unless the
  response asked to close it.
\<close>

theorem doSequential_exchanges:
  assumes "ready env c conn req" "prepareBody (se_gzip env) c req = (Inr (body, z), req1)" "req_resp req1 = Some resp"
    "\<not> ExpectContinue req1 \<or> body = []" "encodable c req1 body z"
    "wire_ok (Method req1) head wb" "conn_pending conn = head @ render_body wb @ s"
    "conn_safe conn (length head + length (render_body wb))" "length head \<le> nat (cn_readBufSize c)"
    "0 < cn_headerReadSize c" "int (length (body_data wb)) \<le> cn_maxRespSize c" "room (Response_Reset resp) wb"
    "content (se_gunzip env) (head_fields head) (body_data wb) = Some out"
  shows "\<exists>resp' c' req' conn'. doSequential env c req = Some (Done (Inr resp', c', req')) \<and>
    carries resp' (fst (parseStatusCode head)) (head_fields head) out \<and>
    cn_conn c' = Some conn' \<and> nc_out conn' = nc_out conn @ request_bytes c req1 body z \<and>
    (cn_healthy c' \<longleftrightarrow> cn_healthy c \<and> \<not> isConnectionClose resp')"
  using assms by (rule sequential_exchange)

definition demo_wire :: netconn where
  "demo_wire = demo_conn [take 20 demo_head, drop 20 demo_head @ ''he'', ''llo'']"

lemma demo_ready:
  "nc_wr conn = [] \<Longrightarrow> \<not> nc_closed conn \<Longrightarrow> ready demo_env (demo_connection conn) conn demo_req"
  "prepareBody (se_gzip demo_env) (demo_connection conn) demo_req = (Inr ([], False), demo_req)"
  "req_resp demo_req = Some demo_response" "\<not> ExpectContinue demo_req" "Method demo_req = []"
  "cn_readBufSize (demo_connection conn) = 65536" "cn_headerReadSize (demo_connection conn) = 4096"
  "cn_maxRespSize (demo_connection conn) = 10485760"
  by (simp_all add: ready_def request_done_def rotates_def demo_connection_def NewConnection_def DefaultConfig_def Let_def
      demo_req_def requestPool_New_def new_Request_def prepareBody_def default_int_def)

lemma demo_encodable: "encodable (demo_connection conn) demo_req [] False"
  by (simp add: encodable_def demo_connection_def NewConnection_def Let_def demo_req_def requestPool_New_def new_Request_def
      header_wf_def render_start_def render_port_def effectivePath_def DefaultConfig_def render_length_def itoa_one)

theorem doSequential_exchanges_witness:
  "\<exists>resp' c' req' conn'. doSequential demo_env (demo_connection demo_wire) demo_req = Some (Done (Inr resp', c', req')) \<and>
    carries resp' (fst (parseStatusCode demo_head)) (head_fields demo_head) ''hello'' \<and>
    cn_conn c' = Some conn' \<and> nc_out conn' = nc_out demo_wire @ request_bytes (demo_connection demo_wire) demo_req [] False \<and>
    (cn_healthy c' \<longleftrightarrow> cn_healthy (demo_connection demo_wire) \<and> \<not> isConnectionClose resp')"
proof (rule doSequential_exchanges [where wb = "Sized ''hello''" and s = "[]"])
  show "ready demo_env (demo_connection demo_wire) demo_wire demo_req"
    by (rule demo_ready) (simp_all add: demo_wire_def demo_conn_def)
  show "wire_ok (Method demo_req) demo_head (Sized ''hello'')" unfolding demo_ready by code_simp
  show "conn_pending demo_wire = demo_head @ render_body (Sized ''hello'') @ []" by code_simp
  show "conn_safe demo_wire (length demo_head + length (render_body (Sized ''hello'')))" by code_simp
  show "room (Response_Reset demo_response) (Sized ''hello'')" by code_simp
  have "content (\<lambda>b. GzReadErr EOF) (head_fields demo_head) (body_data (Sized ''hello'')) = Some ''hello''" by code_simp
  then show "content (se_gunzip demo_env) (head_fields demo_head) (body_data (Sized ''hello'')) = Some ''hello''"
    by (simp add: demo_env_def)
  have "length demo_head = 38" by code_simp
  then show "length demo_head \<le> nat (cn_readBufSize (demo_connection demo_wire))" by (simp add: demo_ready)
qed (simp_all add: demo_ready demo_encodable)

section \<open>A response that is cut short\<close>

interpretation net_closes: framed_reader conn_Read conn_closing
  by unfold_locales (auto simp: conn_Read_def conn_closing_def split: if_splits list.splits)

context closing_reader
begin

lemma read_body_short:
  "closing r \<Longrightarrow> length (pending r) < rem \<Longrightarrow> off + rem \<le> length buf \<Longrightarrow> 0 < k \<Longrightarrow>
   \<exists>r'. read_body read r buf off rem k = Some (Some EOF, blit buf off (pending r), off + length (pending r), r')"
proof (induction "budget r" arbitrary: r buf off rem rule: less_induct)
  case less
  have k: "0 < min rem k" using less.prems by simp
  from less.prems(1) k show ?case
  proof (cases rule: read_closing_cases)
    case (data d r')
    have "\<exists>r2. read_body read r' (blit buf off d) (off + length d) (rem - length d) k =
        Some (Some EOF, blit (blit buf off d) (off + length d) (pending r'), off + length d + length (pending r'), r2)"
      using less.prems data by (intro less.hyps) auto
    moreover have "blit (blit buf off d) (off + length d) (pending r') = blit buf off (pending r)"
      using less.prems data by (subst blit_blit) auto
    ultimately show ?thesis using data k by (subst read_body.simps) (auto simp: add.assoc)
  next
    case (ended r')
    with less.prems k show ?thesis by (subst read_body.simps) auto
  qed
qed

end

lemma closing_safe: "conn_closing c \<Longrightarrow> n \<le> length (conn_pending c) \<Longrightarrow> conn_safe c n"
proof -
  have "list_all (\<lambda>x. fst x \<noteq> [] \<and> snd x = None) s \<Longrightarrow> n \<le> length (concat (map fst s)) \<Longrightarrow> script_safe s n" for s
    by (induction s n rule: script_safe.induct) auto
  then show "conn_closing c \<Longrightarrow> n \<le> length (conn_pending c) \<Longrightarrow> conn_safe c n"
    by (auto simp: conn_closing_def conn_safe_def conn_pending_def)
qed

text \<open>A response whose body of announced length \<open>n\<close> ends after \<open>part\<close>.\<close>

definition cut_short :: "bytes \<Rightarrow> bytes \<Rightarrow> int \<Rightarrow> nat \<Rightarrow> bytes \<Rightarrow> bool" where
  "cut_short meth head status n part \<longleftrightarrow>
     header_block head \<and> parseStatusCode head = (status, True) \<and> \<not> no_body meth status \<and>
     \<not> parseTransferEncoding head \<and> parseContentLength head = (int n, True) \<and> length part < n"

lemma readResponse_cut_short:
  assumes "cut_short meth head status n part" "conn_closing conn" "conn_pending conn = head @ part"
    "length head \<le> blen" "0 < hsize" "int n \<le> maxBody" "n \<le> length (bodyBuf resp)"
  shows "\<exists>conn' resp'. readResponse conn_Read conn blen resp maxBody meth hsize bsize = Some (Done (Some EOF, resp', conn')) \<and>
    StatusCode resp' = status \<and> Body_bytes resp' = part @ drop (length part) (take n (bodyBuf resp))"
proof -
  have h: "header_block head" and st: "parseStatusCode head = (status, True)" and n: "length part < n"
    using assms(1) by (simp_all add: cut_short_def)
  have "0 < length head" using h by (auto simp: header_block_iff)
  with h assms(2-5) obtain lo c1 where c1: "read_header conn_Read conn blen (nat hsize) [] = Some (Inr (head @ lo, length head), c1)"
      "lo @ conn_pending c1 = part"
    using net.read_header_ready [of head blen "nat hsize" "[]" conn part "length head"] closing_safe [of conn "length head"] by auto
  have cl: "conn_closing c1" using net_closes.read_header_inv [OF c1(1)] assms(2) by blast
  let ?resp = "parseHeaders head (resp\<lparr>StatusCode := status, ContentLength := int n\<rparr>)"
  have b: "bodyBuf ?resp = bodyBuf resp" using h by (simp add: parseHeaders_block)
  have e: "ensureBufferSize ?resp (int n) = (True, ?resp)" using b assms(7) by (simp add: ensureBufferSize_def)
  let ?buf = "blit (bodyBuf resp) 0 lo"
  have lo: "length lo + length (conn_pending c1) = length part" using c1(2) by (metis length_append)
  have k: "0 < body_read_size bsize" by (simp add: body_read_size_def)
  have s: "length (conn_pending c1) < n - length lo" "length lo + (n - length lo) \<le> length ?buf"
    using lo n assms(7) by simp_all
  obtain c2 where r: "read_body conn_Read c1 ?buf (length lo) (n - length lo) (body_read_size bsize) =
      Some (Some EOF, blit ?buf (length lo) (conn_pending c1), length lo + length (conn_pending c1), c2)"
    using net_closing.read_body_short [OF cl s k] by blast
  have bb: "blit ?buf (length lo) (conn_pending c1) = blit (bodyBuf resp) 0 part"
    using blit_blit [of 0 lo "conn_pending c1" "bodyBuf resp"] lo c1(2) n assms(7) by simp
  have m: "min (length lo) n = length lo" using lo n by simp
  let ?resp2 = "?resp\<lparr>Body := OwnBuf n, bodyBuf := blit (bodyBuf resp) 0 part\<rparr>"
  have "read_sized_body conn_Read c1 head lo status (int n) resp maxBody bsize = Some (Done (Some EOF, ?resp2, c2))"
    using e m r bb b assms(6) n unfolding read_sized_body_def Let_def by simp
  then have "readResponse conn_Read conn blen resp maxBody meth hsize bsize = Some (Done (Some EOF, ?resp2, c2))"
    using c1(1) st assms(1,5) by (simp add: readResponse_def cut_short_def Let_def)
  moreover have "StatusCode ?resp2 = status" using h by (simp add: parseHeaders_block)
  moreover have "Body_bytes ?resp2 = part @ drop (length part) (take n (bodyBuf resp))"
    using n assms(7) by (simp add: Body_bytes_def blit_def drop_take)
  ultimately show ?thesis by blast
qed

text \<open>
  C39. A response whose connection ends before the announced body is complete is reported as a success:
  the caller gets a body of the announced length whose missing part is whatever the pooled buffer
  held before, and the connection is still considered healthy.
\<close>

theorem truncated_body_is_success:
  assumes "ready env c conn req" "prepareBody (se_gzip env) c req = (Inr (body, z), req1)" "req_resp req1 = Some resp"
    "\<not> ExpectContinue req1 \<or> body = []" "encodable c req1 body z"
    "cut_short (Method req1) head status n part" "0 < status" "conn_closing conn" "conn_pending conn = head @ part"
    "length head \<le> nat (cn_readBufSize c)" "0 < cn_headerReadSize c" "int n \<le> cn_maxRespSize c" "n \<le> length (bodyBuf resp)"
  shows "\<exists>resp' c' req'. doSequential env c req = Some (Done (Inr resp', c', req')) \<and>
    Body_bytes resp' = part @ drop (length part) (take n (bodyBuf resp)) \<and> StatusCode resp' = status \<and>
    cn_healthy c' = cn_healthy c"
proof -
  let ?conn = "conn\<lparr>nc_out := nc_out conn @ request_bytes c req1 body z\<rparr>"
  have open': "\<not> nc_closed ?conn" using assms(1) by (simp add: ready_def)
  have bb: "bodyBuf (Response_Reset resp) = bodyBuf resp" by (simp add: Response_Reset_def)
  have l: "length head \<le> length (getReadBuf c (se_rbuf env) (nat (cn_readBufSize c)))"
    using assms(10) pick_buf_length order_trans by (fastforce simp: getReadBuf_def)
  obtain conn' resp' where r: "readResponse conn_Read ?conn (length (getReadBuf c (se_rbuf env) (nat (cn_readBufSize c))))
        (Response_Reset resp) (cn_maxRespSize c) (Method req1) (cn_headerReadSize c) (cn_bodyReadSize c) =
        Some (Done (Some EOF, resp', conn'))"
      "StatusCode resp' = status" "Body_bytes resp' = part @ drop (length part) (take n (bodyBuf resp))"
    using readResponse_cut_short [OF assms(6), of ?conn _ "cn_headerReadSize c" "cn_maxRespSize c" "Response_Reset resp"]
      assms(8,9,11,12,13) l bb by fastforce
  have "Connection_readResponse (se_gunzip env) (se_rbuf env) c ?conn (Response_Reset resp) t (Method req1) =
      Some (Done (Some EOF, resp', conn'))" for t
    using r(1) open' by (simp add: Connection_readResponse_def conn_SetDeadline_def then_decompress_def)
  then show ?thesis
    unfolding doSequential_after_send [OF assms(1-5)]
    using r(2,3) assms(7) by (auto simp: seq_receive_def Let_def)
qed

definition demo_cut :: netconn where
  "demo_cut = demo_conn [demo_head @ ''he'']"

theorem truncated_body_is_success_witness:
  "\<exists>resp' c' req'. doSequential demo_env (demo_connection demo_cut) demo_req = Some (Done (Inr resp', c', req')) \<and>
    Body_bytes resp' = ''he'' @ drop (length ''he'') (take 5 (bodyBuf demo_response)) \<and> StatusCode resp' = 200 \<and>
    cn_healthy c' = cn_healthy (demo_connection demo_cut)"
proof (rule truncated_body_is_success [where head = demo_head and body = "[]" and z = False])
  show "ready demo_env (demo_connection demo_cut) demo_cut demo_req"
    by (rule demo_ready) (simp_all add: demo_cut_def demo_conn_def)
  show "cut_short (Method demo_req) demo_head 200 5 ''he''" unfolding demo_ready by code_simp
  show "conn_closing demo_cut" "conn_pending demo_cut = demo_head @ ''he''" by code_simp+
  have "length demo_head = 38" by code_simp
  then show "length demo_head \<le> nat (cn_readBufSize (demo_connection demo_cut))" by (simp add: demo_ready)
qed (simp_all add: demo_ready demo_encodable demo_response_def)

section \<open>Expect: 100-continue\<close>

lemma digit_zero: "digit 0 = CHR ''0''"
  by code_simp

text \<open>
  C40. With Expect: 100-continue the peer is asked the wrong question: what is written is the request
  with an empty body, that is with Content-Length 0 and without the Expect header. A peer that takes it
  at its word and answers with a final response has answered a different request: its response is
  returned as the result although no byte of the body was ever sent.
\<close>

theorem expect_continue_drops_body:
  assumes "ready env c conn req" "prepareBody (se_gzip env) c req = (Inr (body, z), req1)" "req_resp req1 = Some resp"
    "ExpectContinue req1" "body \<noteq> []" "encodable c req1 [] z"
    "wire_ok (Method req1) head wb" "conn_pending conn = head @ render_body wb @ s"
    "conn_safe conn (length head + length (render_body wb))" "length head \<le> nat (cn_readBufSize c)"
    "0 < cn_headerReadSize c" "int (length (body_data wb)) \<le> cn_maxRespSize c" "room continue_response wb"
    "content (se_gunzip env) (head_fields head) (body_data wb) = Some out" "fst (parseStatusCode head) \<noteq> 100"
  shows "\<exists>resp' c' req' conn'. doSequential env c req = Some (Done (Inr resp', c', req')) \<and>
    StatusCode resp' = fst (parseStatusCode head) \<and> Body_bytes resp' = out \<and> cn_conn c' = Some conn' \<and>
    nc_out conn' = nc_out conn @ render_start req1 (cn_config c) (cn_host c) (cn_port c) (UseTLS (cn_config c)) z (cn_isForwardProxy c) @
      header_bytes req1 @ cn_proxyAuthHeader c @ ''Content-Length: 0'' @ CRLF @ CRLF"
proof -
  let ?conn = "conn\<lparr>nc_out := nc_out conn @ request_bytes c req1 [] z\<rparr>"
  let ?t = "effectiveReadTimeout (se_deadline env) (se_now env) c req1"
  have w: "Connection_writeRequest (se_wbuf env) (enter c) conn req1 [] z t = Some (None, ?conn)" for t
    using Connection_writeRequest_sends [of conn "enter c" req1 "[]" z] assms(1,6) by (simp add: ready_def)
  have o: "\<not> nc_closed ?conn" using assms(1) by (simp add: ready_def)
  have m: "maxSize continue_response = 0" by (simp add: continue_response_def responsePool_New_def)
  obtain conn' cr where cr: "Connection_readResponse (se_gunzip env) (se_rbuf env) c ?conn continue_response ?t (Method req1) =
        Some (Done (None, cr, conn'))" "StatusCode cr = fst (parseStatusCode head)" "Body_bytes cr = out" "nc_out conn' = nc_out ?conn"
    using Connection_readResponse_delivers [OF o assms(7), where s = s] assms(8-14) m by (fastforce simp: carries_def)
  have b: "request_bytes c req1 [] z = render_start req1 (cn_config c) (cn_host c) (cn_port c) (UseTLS (cn_config c)) z (cn_isForwardProxy c) @
      header_bytes req1 @ cn_proxyAuthHeader c @ ''Content-Length: 0'' @ CRLF @ CRLF"
    using assms(6) by (auto simp: request_bytes_def render_request_def encodable_def render_length_def itoa_one digit_zero)
  have "seq_connected env (enter c) req = Some (Done (Inr (adopt_response (Response_Reset resp) cr),
      finish (se_now env) (enter c\<lparr>cn_conn := Some conn'\<rparr>), req1\<lparr>req_resp := Some (adopt_response (Response_Reset resp) cr)\<rparr>))"
    using assms(1-5,15) w cr by (simp add: seq_connected_def ready_def seq_expect_def Let_def)
  then show ?thesis using assms(1) cr(2-4) b
    by (simp add: doSequential_def Let_def ready_def seq_rotate_stays adopt_response_def Body_bytes_def)
qed

definition demo_expect :: Request where
  "demo_expect = demo_req\<lparr>req_Body := ''data'', ExpectContinue := True\<rparr>"

theorem expect_continue_drops_body_witness:
  "\<exists>resp' c' req' conn'. doSequential demo_env (demo_connection demo_wire) demo_expect = Some (Done (Inr resp', c', req')) \<and>
    StatusCode resp' = fst (parseStatusCode demo_head) \<and> Body_bytes resp' = ''hello'' \<and> cn_conn c' = Some conn' \<and>
    nc_out conn' = nc_out demo_wire @ render_start demo_expect (cn_config (demo_connection demo_wire)) (cn_host (demo_connection demo_wire))
        (cn_port (demo_connection demo_wire)) (UseTLS (cn_config (demo_connection demo_wire))) False
        (cn_isForwardProxy (demo_connection demo_wire)) @
      header_bytes demo_expect @ cn_proxyAuthHeader (demo_connection demo_wire) @ ''Content-Length: 0'' @ CRLF @ CRLF"
proof (rule expect_continue_drops_body [where wb = "Sized ''hello''" and s = "[]" and body = "''data''"])
  have "ready demo_env (demo_connection demo_wire) demo_wire demo_req"
    by (rule demo_ready) (simp_all add: demo_wire_def demo_conn_def)
  then show "ready demo_env (demo_connection demo_wire) demo_wire demo_expect"
    by (simp add: ready_def demo_expect_def request_done_def)
  show "prepareBody (se_gzip demo_env) (demo_connection demo_wire) demo_expect = (Inr (''data'', False), demo_expect)"
    by (simp add: prepareBody_def demo_expect_def demo_connection_def NewConnection_def Let_def default_int_def DefaultConfig_def)
  have m: "Method demo_expect = []" by (simp add: demo_expect_def demo_ready)
  show "wire_ok (Method demo_expect) demo_head (Sized ''hello'')" unfolding m by code_simp
  show "conn_pending demo_wire = demo_head @ render_body (Sized ''hello'') @ []" by code_simp
  show "conn_safe demo_wire (length demo_head + length (render_body (Sized ''hello'')))" by code_simp
  show "room continue_response (Sized ''hello'')"
    by (simp add: room_def within_limit_def continue_response_def responsePool_New_def)
  have "content (\<lambda>b. GzReadErr EOF) (head_fields demo_head) (body_data (Sized ''hello'')) = Some ''hello''" by code_simp
  then show "content (se_gunzip demo_env) (head_fields demo_head) (body_data (Sized ''hello'')) = Some ''hello''"
    by (simp add: demo_env_def)
  have "length demo_head = 38" by code_simp
  then show "length demo_head \<le> nat (cn_readBufSize (demo_connection demo_wire))" by (simp add: demo_ready)
  show "fst (parseStatusCode demo_head) \<noteq> 100" by code_simp
  show "encodable (demo_connection demo_wire) demo_expect [] False"
    by (simp add: encodable_def demo_connection_def NewConnection_def Let_def demo_expect_def demo_req_def requestPool_New_def
        new_Request_def header_wf_def render_start_def render_port_def effectivePath_def DefaultConfig_def render_length_def itoa_one)
qed (simp_all add: demo_ready demo_expect_def)

section \<open>Proxy credentials\<close>

text \<open>
  The last part of a request is encoded into 128 bytes. A forward proxy's credentials that do not
  leave room for the Content-Length line in them make every request fail, although the credentials
  themselves were accepted when the client was built.
\<close>

theorem long_proxy_credentials_fail:
  assumes "\<not> nc_closed conn" "PreEncodedHeaderPrefix req = []"
    "length (render_start req (cn_config c) (cn_host c) (cn_port c) (UseTLS (cn_config c)) z (cn_isForwardProxy c)) \<le> 512"
    "107 < length (cn_proxyAuthHeader c)"
  shows "Connection_writeRequest wbuf c conn req body z wt =
    Some (Some (WrapError ErrorTypeInternal ''encode request part3 failed'' ErrHeaderBufferSmall), conn)"
proof -
  have "512 \<le> length (getWriteBuf c wbuf 512)" by (simp add: getWriteBuf_def pick_buf_length)
  then obtain p1 where 1: "writeRequestPart1 (getWriteBuf c wbuf 512) req (cn_config c) (cn_host c) (cn_port c)
      (UseTLS (cn_config c)) z (cn_isForwardProxy c) = Inr p1"
    using assms(3) by (simp add: writeRequestPart1_eq Let_def)
  have "Suc 0 \<le> length (itoa (length body))" by (simp add: Suc_le_eq)
  then have "21 \<le> length (render_length (length body))" by (simp add: render_length_def)
  then have 3: "writeRequestPart3 (zeros 128) req (int (length body)) (cn_proxyAuthHeader c) = Inl ErrHeaderBufferSmall"
    using assms(4) by (simp add: writeRequestPart3_eq Let_def)
  have d: "conn_SetDeadline conn = None" using assms(1) by (simp add: conn_SetDeadline_def)
  show ?thesis
    unfolding Connection_writeRequest_def d 1 3 using assms(2) by simp
qed

theorem long_proxy_credentials_fail_witness:
  "Connection_writeRequest [] ((demo_connection demo_wire)\<lparr>cn_isForwardProxy := True, cn_proxyAuthHeader := replicate 108 SP\<rparr>)
      demo_wire demo_req ''x'' False 0 =
    Some (Some (WrapError ErrorTypeInternal ''encode request part3 failed'' ErrHeaderBufferSmall), demo_wire)"
proof -
  have "length (itoa 443) = 3" by code_simp
  then show ?thesis
    by (intro long_proxy_credentials_fail) (simp_all add: demo_wire_def demo_conn_def demo_req_def requestPool_New_def new_Request_def demo_connection_def
        NewConnection_def Let_def render_start_def render_port_def effectivePath_def DefaultConfig_def)
qed

end
