(* ===== verification/IPAddr.thy ===== *)
theory IPAddr
  imports Prelude
begin

text \<open>
  What the package uses of package net to recognise literal addresses: net.ParseIP, which returns the
  sixteen-byte form of an IPv4 or IPv6 literal and nil for anything else (a zone included), and the
  method To4. The dialers decide by them whether a host is a name.
\<close>

fun fields :: "byte \<Rightarrow> bytes \<Rightarrow> bytes list" where
  "fields sep [] = [[]]"
| "fields sep (c # cs) = (if c = sep then [] # fields sep cs
     else case fields sep cs of [] \<Rightarrow> [[c]] | f # fs \<Rightarrow> (c # f) # fs)"

text \<open>A decimal octet: one to three digits, no leading zero, at most 255.\<close>

definition octet_ok :: "bytes \<Rightarrow> bool" where
  "octet_ok f \<longleftrightarrow> f \<noteq> [] \<and> list_all is_digit f \<and> (length f = 1 \<or> hd f \<noteq> CHR ''0'') \<and> horner 0 f \<le> 255"

definition parse_ipv4 :: "bytes \<Rightarrow> bytes option" where
  "parse_ipv4 s =
     (let fs = fields (CHR ''.'') s in
      if length fs = 4 \<and> list_all octet_ok fs then Some (map (\<lambda>f. byte_of (horner 0 f)) fs) else None)"

definition is_hex :: "byte \<Rightarrow> bool" where
  "is_hex c \<longleftrightarrow> (case hexval c of None \<Rightarrow> False | Some d \<Rightarrow> d < 16)"

text \<open>
  The group loop of the IPv6 parser: the counter is the number of 16-bit groups still free, \<open>ip\<close> the
  bytes parsed so far, \<open>ell\<close> the position of a double colon. The result is the three with what is left
  of the string.
\<close>

fun ipv6_loop :: "nat \<Rightarrow> bytes \<Rightarrow> nat option \<Rightarrow> bytes \<Rightarrow> (bytes \<times> nat option \<times> bytes) option" where
  "ipv6_loop 0 ip ell s = Some (ip, ell, s)"
| "ipv6_loop (Suc n) ip ell s =
     (let g = takeWhile is_hex s; r = drop (length g) s in
      if g = [] \<or> length g > 4 then None
      else if r \<noteq> [] \<and> hd r = CHR ''.'' then
        (if ell = None \<and> length ip \<noteq> 12 \<or> length ip + 4 > 16 then None
         else map_option (\<lambda>q. (ip @ q, ell, [])) (parse_ipv4 s))
      else
        (case digits_val 16 0 g of
           None \<Rightarrow> None
         | Some v \<Rightarrow>
             (let ip = ip @ [byte_of (v div 256), byte_of v] in
              case r of
                [] \<Rightarrow> Some (ip, ell, [])
              | c # r \<Rightarrow>
                  if c \<noteq> CHR '':'' \<or> r = [] then None
                  else if hd r = CHR '':'' then
                    (if ell \<noteq> None then None
                     else if tl r = [] then Some (ip, Some (length ip), [])
                     else ipv6_loop n ip (Some (length ip)) (tl r))
                  else ipv6_loop n ip ell r)))"

definition ipv6_finish :: "bytes \<times> nat option \<times> bytes \<Rightarrow> bytes option" where
  "ipv6_finish x =
     (case x of (ip, ell, s) \<Rightarrow>
        if s \<noteq> [] then None
        else if length ip < 16 then
          (case ell of None \<Rightarrow> None | Some e \<Rightarrow> Some (take e ip @ zeros (16 - length ip) @ drop e ip))
        else if ell \<noteq> None then None
        else Some ip)"

definition parse_ipv6 :: "bytes \<Rightarrow> bytes option" where
  "parse_ipv6 s =
     (if take 2 s = ''::'' then
        (if drop 2 s = [] then Some (zeros 16)
         else Option.bind (ipv6_loop 8 [] (Some 0) (drop 2 s)) ipv6_finish)
      else Option.bind (ipv6_loop 8 [] None s) ipv6_finish)"

definition v4_prefix :: bytes where
  "v4_prefix = zeros 10 @ [byte_of 255, byte_of 255]"

definition ParseIP :: "bytes \<Rightarrow> bytes option" where
  "ParseIP s =
     (if CHR ''%'' \<in> set s then None
      else case dropWhile (\<lambda>c. c \<noteq> CHR ''.'' \<and> c \<noteq> CHR '':'') s of
        [] \<Rightarrow> None
      | c # _ \<Rightarrow> if c = CHR ''.'' then map_option ((@) v4_prefix) (parse_ipv4 s) else parse_ipv6 s)"

definition To4 :: "bytes \<Rightarrow> bytes option" where
  "To4 ip = (if length ip = 16 \<and> take 12 ip = v4_prefix then Some (drop 12 ip) else None)"

lemma parse_ipv4_length: "parse_ipv4 s = Some q \<Longrightarrow> length q = 4"
  by (auto simp: parse_ipv4_def Let_def split: if_splits)

lemma ipv6_loop_length:
  "ipv6_loop n ip ell s = Some (ip', ell', s') \<Longrightarrow> length ip + 2 * n = 16 \<Longrightarrow> length ip' \<le> 16"
proof (induction n ip ell s rule: ipv6_loop.induct)
  case (2 n ip ell s)
  then show ?case
    by (auto simp: Let_def split: if_splits option.splits list.splits dest: parse_ipv4_length)
qed simp

lemma ParseIP_length: "ParseIP s = Some ip \<Longrightarrow> length ip = 16"
proof -
  have v4: "length v4_prefix = 12" by (simp add: v4_prefix_def)
  have fin: "length ip = 16" if "ipv6_finish x = Some ip" "length (fst x) \<le> 16" for x ip
    using that by (cases x) (auto simp: ipv6_finish_def split: if_splits option.splits)
  have "length ip = 16" if "Option.bind (ipv6_loop 8 [] ell t) ipv6_finish = Some ip" for ell t ip
    using that fin ipv6_loop_length [of 8 "[]"] by (fastforce simp: bind_eq_Some_conv)
  then show "ParseIP s = Some ip \<Longrightarrow> length ip = 16"
    using v4 by (auto simp: ParseIP_def parse_ipv6_def split: if_splits list.splits dest: parse_ipv4_length)
qed

lemma To4_length: "To4 ip = Some q \<Longrightarrow> length q = 4"
  by (auto simp: To4_def split: if_splits)

end
