(* ===== verification/Socks5.thy ===== *)
theory Socks5
  imports Frame Config IPAddr
begin

text \<open>
  The SOCKS5 client of \<^verbatim>\<open>socks5.go\<close>: method negotiation, the username and password
  subnegotiation, the CONNECT request and the reply. \<open>net.DialTimeout\<close> is the argument \<open>dial\<close>.
  An operation that reads in a loop is option-valued (\<open>None\<close>: it never returns); the value inside is
  the Go error and the connection after it.
\<close>

record SOCKS5Dialer =
  s5_proxyAddr :: bytes
  s5_username :: bytes
  s5_password :: bytes
  s5_timeout :: int

definition NewSOCKS5Dialer :: "Config \<Rightarrow> goerror + SOCKS5Dialer" where
  "NewSOCKS5Dialer config =
     (if SOCKS5Addr config = [] then Inl (WrapError ErrorTypeProxy ''SOCKS5 address is empty'' ErrProxyFailed)
      else
        (let timeout = ProxyConnectTimeout config;
             timeout = (if timeout \<le> 0 then DialTimeout config else timeout)
         in Inr \<lparr>s5_proxyAddr = SOCKS5Addr config, s5_username = SOCKS5Username config,
                 s5_password = SOCKS5Password config, s5_timeout = timeout\<rparr>))"

type_synonym dialogue = "netconn \<Rightarrow> (goerror option \<times> netconn) option"

text \<open>A write of the dialogue and a read of \<open>k\<close> bytes, each followed by the usual test of the error.\<close>

definition sending :: "bytes \<Rightarrow> dialogue \<Rightarrow> dialogue" where
  "sending p next conn =
     (case conn_Write conn p of (_, err, conn) \<Rightarrow>
        (case err of Some e \<Rightarrow> Some (Some e, conn) | None \<Rightarrow> next conn))"

definition receiving :: "nat \<Rightarrow> (bytes \<Rightarrow> dialogue) \<Rightarrow> dialogue" where
  "receiving k next conn =
     Option.bind (readFull conn_Read conn k) (\<lambda>(resp, err, conn).
       case err of Some e \<Rightarrow> Some (Some e, conn) | None \<Rightarrow> next resp conn)"

definition returning :: "goerror option \<Rightarrow> dialogue" where
  "returning e conn = Some (e, conn)"

abbreviation u8 :: "nat \<Rightarrow> byte" where "u8 \<equiv> byte_of"

definition auth_message :: "SOCKS5Dialer \<Rightarrow> bytes" where
  "auth_message d = [u8 1, u8 (length (s5_username d))] @ s5_username d @ [u8 (length (s5_password d))] @ s5_password d"

definition authenticate :: "SOCKS5Dialer \<Rightarrow> dialogue" where
  "authenticate d =
     (if length (s5_username d) > 255 \<or> length (s5_password d) > 255 then returning (Some errSOCKS5AuthFailed)
      else
        sending (auth_message d) (receiving 2 (\<lambda>resp.
          returning (if resp ! 1 \<noteq> u8 0 then Some errSOCKS5AuthFailed else None))))"

definition greeting :: "SOCKS5Dialer \<Rightarrow> bytes" where
  "greeting d = (if s5_username d \<noteq> [] then [u8 5, u8 2, u8 0, u8 2] else [u8 5, u8 1, u8 0])"

definition handshake :: "SOCKS5Dialer \<Rightarrow> dialogue" where
  "handshake d =
     sending (greeting d) (receiving 2 (\<lambda>resp.
       if resp ! 0 \<noteq> u8 5 then returning (Some errSOCKS5Unsupported)
       else if resp ! 1 = u8 0 then returning None
       else if resp ! 1 = u8 2 then authenticate d
       else if resp ! 1 = u8 255 then returning (Some errSOCKS5AuthFailed)
       else returning (Some errSOCKS5Unsupported)))"

text \<open>binary.BigEndian.PutUint16 of \<open>uint16(port)\<close>.\<close>

definition port_bytes :: "int \<Rightarrow> bytes" where
  "port_bytes port = (let p = nat (port mod 65536) in [u8 (p div 256), u8 (p mod 256)])"

definition connect_message :: "bytes \<Rightarrow> int \<Rightarrow> bytes" where
  "connect_message host port =
     (case ParseIP host of
        Some ip \<Rightarrow>
          (case To4 ip of
             Some ip4 \<Rightarrow> [u8 5, u8 1, u8 0, u8 1] @ ip4 @ port_bytes port
           | None \<Rightarrow> [u8 5, u8 1, u8 0, u8 4] @ ip @ port_bytes port)
      | None \<Rightarrow>
          (let host = (if length host > 255 then take 255 host else host) in
           [u8 5, u8 1, u8 0, u8 3, u8 (length host)] @ host @ port_bytes port))"

text \<open>What the first four bytes of the reply ask for: an error, or the bound address and port to skip.\<close>

definition connect_reply :: "bytes \<Rightarrow> dialogue" where
  "connect_reply hdr =
     (if hdr ! 0 \<noteq> u8 5 then returning (Some errSOCKS5Unsupported)
      else if hdr ! 1 \<noteq> u8 0 then
        returning (Some (DetailedError ErrorTypeProxy
          (''SOCKS5 connection failed with code '' @ itoa (bval (hdr ! 1))) (Some errSOCKS5ConnRefused)))
      else if hdr ! 3 = u8 1 then receiving 6 (\<lambda>_. returning None)
      else if hdr ! 3 = u8 4 then receiving 18 (\<lambda>_. returning None)
      else if hdr ! 3 = u8 3 then
        receiving 1 (\<lambda>dLen. receiving (bval (dLen ! 0) + 2) (\<lambda>_. returning None))
      else returning (Some errSOCKS5Unsupported))"

definition connectRequest :: "bytes \<Rightarrow> int \<Rightarrow> dialogue" where
  "connectRequest host port = sending (connect_message host port) (receiving 4 connect_reply)"

text \<open>The result, and the connection to the proxy when it has been given up.\<close>

definition SOCKS5_Dial ::
  "(bytes \<Rightarrow> goerror + netconn) \<Rightarrow> SOCKS5Dialer \<Rightarrow> bytes \<Rightarrow> int \<Rightarrow> ((goerror + netconn) \<times> netconn option) option" where
  "SOCKS5_Dial dial d host port =
     (case dial (s5_proxyAddr d) of
        Inl e \<Rightarrow> Some (Inl (LogErrorWithFlag ErrorTypeProxy ''SOCKS5 connect failed'' e), None)
      | Inr conn \<Rightarrow>
          (case conn_SetDeadline conn of
             Some e \<Rightarrow> Some (Inl e, Some (conn_Close conn))
           | None \<Rightarrow>
               Option.bind (handshake d conn) (\<lambda>(err, conn).
                 case err of
                   Some e \<Rightarrow> Some (Inl (LogErrorWithFlag ErrorTypeProxy ''SOCKS5 handshake failed'' e), Some (conn_Close conn))
                 | None \<Rightarrow>
                     Option.bind (connectRequest host port conn) (\<lambda>(err, conn).
                       case err of
                         Some e \<Rightarrow> Some (Inl (LogErrorWithFlag ErrorTypeProxy ''SOCKS5 connect request failed'' e), Some (conn_Close conn))
                       | None \<Rightarrow> Some (Inr conn, None)))))"

section \<open>The protocol on the wire\<close>

text \<open>Addresses of RFC 1928, as the request and the reply carry them.\<close>

datatype socks_addr = IP4 bytes | Domain bytes | IP6 bytes

fun addr_ok :: "socks_addr \<Rightarrow> bool" where
  "addr_ok (IP4 a) = (length a = 4)"
| "addr_ok (IP6 a) = (length a = 16)"
| "addr_ok (Domain n) = (length n \<le> 255)"

fun addr_bytes :: "socks_addr \<Rightarrow> bytes" where
  "addr_bytes (IP4 a) = u8 1 # a"
| "addr_bytes (IP6 a) = u8 4 # a"
| "addr_bytes (Domain n) = u8 3 # u8 (length n) # n"

text \<open>What a server reads: the address, the port and the bytes after the request.\<close>

definition split_port :: "bytes \<Rightarrow> (nat \<times> bytes) option" where
  "split_port s = (case s of hi # lo # rest \<Rightarrow> Some (bval hi * 256 + bval lo, rest) | _ \<Rightarrow> None)"

definition decode_addr :: "bytes \<Rightarrow> (socks_addr \<times> nat \<times> bytes) option" where
  "decode_addr s =
     (case s of
        [] \<Rightarrow> None
      | t # s \<Rightarrow>
          if t = u8 1 then map_option (Pair (IP4 (take 4 s))) (split_port (drop 4 s))
          else if t = u8 4 then map_option (Pair (IP6 (take 16 s))) (split_port (drop 16 s))
          else if t = u8 3 then
            (case s of
               [] \<Rightarrow> None
             | n # s \<Rightarrow> map_option (Pair (Domain (take (bval n) s))) (split_port (drop (bval n) s)))
          else None)"

definition decode_request :: "bytes \<Rightarrow> (socks_addr \<times> nat \<times> bytes) option" where
  "decode_request s = (if take 3 s = [u8 5, u8 1, u8 0] then decode_addr (drop 3 s) else None)"

text \<open>The address a host stands for.\<close>

definition target :: "bytes \<Rightarrow> socks_addr" where
  "target host =
     (case ParseIP host of
        None \<Rightarrow> Domain (take 255 host)
      | Some ip \<Rightarrow> (case To4 ip of Some ip4 \<Rightarrow> IP4 ip4 | None \<Rightarrow> IP6 ip))"

lemma u8_eq: "m < 256 \<Longrightarrow> n < 256 \<Longrightarrow> u8 m = u8 n \<longleftrightarrow> m = n"
  by (simp add: byte_of_eq_iff)

lemma split_port_bytes: "split_port (port_bytes port @ rest) = Some (nat (port mod 65536), rest)"
proof -
  have "nat (port mod 65536) div 256 < 256" by (simp add: nat_less_iff div_less_iff_less_mult)
  then show ?thesis by (simp add: split_port_def port_bytes_def Let_def)
qed

lemma connect_message_eq: "connect_message host port = [u8 5, u8 1, u8 0] @ addr_bytes (target host) @ port_bytes port"
  by (auto simp: connect_message_def target_def split: option.splits)

lemma target_ok: "addr_ok (target host)"
  by (auto simp: target_def split: option.splits dest: ParseIP_length To4_length)

lemma decode_addr_bytes:
  "addr_ok a \<Longrightarrow> decode_addr (addr_bytes a @ port_bytes p @ rest) = Some (a, nat (p mod 65536), rest)"
  by (cases a) (simp_all add: decode_addr_def split_port_bytes u8_eq)

lemma decode_connect_message:
  "decode_request (connect_message host port @ rest) = Some (target host, nat (port mod 65536), rest)"
  using decode_addr_bytes [OF target_ok, of host port rest]
  by (simp add: decode_request_def connect_message_eq)

section \<open>Running the dialogue\<close>

definition runs :: "(goerror option \<times> netconn) option \<Rightarrow> bytes \<Rightarrow> bytes \<Rightarrow> bytes \<Rightarrow> bool" where
  "runs x out inp rest \<longleftrightarrow> (\<exists>c. x = Some (None, c) \<and> talk c out inp rest)"

lemma runs_sending:
  assumes "talk c out inp rest" "\<And>c'. talk c' (out @ p) inp rest \<Longrightarrow> runs (next c') out' inp' rest'"
  shows "runs (sending p next c) out' inp' rest'"
proof -
  obtain c' where "conn_Write c p = (length p, None, c')" "talk c' (out @ p) inp rest"
    by (rule talk_Write [OF assms(1)])
  then show ?thesis using assms(2) by (simp add: sending_def)
qed

lemma runs_receiving:
  assumes "talk c out (d @ inp) rest" "k = length d" "\<And>c'. talk c' out inp rest \<Longrightarrow> runs (next d c') out' inp' rest'"
  shows "runs (receiving k next c) out' inp' rest'"
proof -
  obtain c' where "readFull conn_Read c k = Some (d, None, c')" "talk c' out inp rest"
    by (rule talk_readFull [OF assms(1,2)])
  then show ?thesis using assms(3) by (simp add: receiving_def)
qed

lemma runs_returning: "talk c out inp rest \<Longrightarrow> runs (returning None c) out inp rest"
  by (auto simp: runs_def returning_def)

text \<open>What a server that accepts says: its choice of a method with the outcome of the login, and its reply.\<close>

definition server_hello :: "bool \<Rightarrow> bytes" where
  "server_hello login = (if login then [u8 5, u8 2] @ [u8 1, u8 0] else [u8 5, u8 0])"

definition server_reply :: "socks_addr \<Rightarrow> int \<Rightarrow> bytes" where
  "server_reply bound port = [u8 5, u8 0, u8 0] @ addr_bytes bound @ port_bytes port"

definition login_message :: "SOCKS5Dialer \<Rightarrow> bool \<Rightarrow> bytes" where
  "login_message d login = (if login then auth_message d else [])"

definition login_fits :: "SOCKS5Dialer \<Rightarrow> bool" where
  "login_fits d \<longleftrightarrow> length (s5_username d) \<le> 255 \<and> length (s5_password d) \<le> 255"

lemma authenticate_runs:
  assumes "talk c out ([u8 1, u8 0] @ inp) rest" "login_fits d"
  shows "runs (authenticate d c) (out @ auth_message d) inp rest"
  using assms(2) unfolding authenticate_def login_fits_def
  by (auto intro!: runs_sending [OF assms(1)] runs_receiving [where d = "[u8 1, u8 0]"] runs_returning)

lemma handshake_runs:
  assumes "talk c out (server_hello login @ inp) rest" "login_fits d"
  shows "runs (handshake d c) (out @ greeting d @ login_message d login) inp rest"
proof (cases login)
  case True
  then have t: "talk c out ([u8 5, u8 2] @ [u8 1, u8 0] @ inp) rest" using assms(1) by (simp add: server_hello_def)
  have "runs (authenticate d c') (out @ greeting d @ auth_message d) inp rest"
    if "talk c' (out @ greeting d) ([u8 1, u8 0] @ inp) rest" for c'
    using authenticate_runs [OF that assms(2)] by simp
  then show ?thesis
    unfolding handshake_def using True
    by (auto simp: login_message_def u8_eq intro!: runs_sending [OF t] runs_receiving [where d = "[u8 5, u8 2]"])
next
  case False
  then have t: "talk c out ([u8 5, u8 0] @ inp) rest" using assms(1) by (simp add: server_hello_def)
  show ?thesis
    unfolding handshake_def using False
    by (auto simp: login_message_def u8_eq intro!: runs_sending [OF t] runs_receiving [where d = "[u8 5, u8 0]"] runs_returning)
qed

lemma length_port_bytes [simp]: "length (port_bytes p) = 2"
  by (simp add: port_bytes_def Let_def)

lemma connect_reply_runs:
  assumes "talk c out (server_reply bound p @ inp) rest" "addr_ok bound"
  shows "runs (receiving 4 connect_reply c) out inp rest"
proof -
  have addr: "runs (receiving (length a + 2) (\<lambda>_. returning None) c2) out inp rest"
    if "talk c2 out (a @ port_bytes p @ inp) rest" for a c2
    using that by (auto intro!: runs_receiving [where d = "a @ port_bytes p" and inp = inp] runs_returning)
  show ?thesis
  proof (cases bound)
    case (IP4 a)
    then have h: "talk c out ([u8 5, u8 0, u8 0, u8 1] @ (a @ port_bytes p @ inp)) rest" using assms(1) by (simp add: server_reply_def)
    show ?thesis using assms(2) IP4 addr [of _ a]
      by - (rule runs_receiving [OF h], auto simp: u8_eq connect_reply_def)
  next
    case (IP6 a)
    then have h: "talk c out ([u8 5, u8 0, u8 0, u8 4] @ (a @ port_bytes p @ inp)) rest" using assms(1) by (simp add: server_reply_def)
    show ?thesis using assms(2) IP6 addr [of _ a]
      by - (rule runs_receiving [OF h], auto simp: u8_eq connect_reply_def)
  next
    case (Domain a)
    then have h: "talk c out ([u8 5, u8 0, u8 0, u8 3] @ ([u8 (length a)] @ (a @ port_bytes p @ inp))) rest"
      using assms(1) by (simp add: server_reply_def)
    show ?thesis using assms(2) Domain addr [of _ a]
      by - (rule runs_receiving [OF h], auto simp: u8_eq connect_reply_def
        intro!: runs_receiving [where k = "Suc 0" and d = "[u8 (length a)]" and inp = "a @ port_bytes p @ inp"])
  qed
qed

lemma connectRequest_runs:
  assumes "talk c out (server_reply bound p @ inp) rest" "addr_ok bound"
  shows "runs (connectRequest host port c) (out @ connect_message host port) inp rest"
  unfolding connectRequest_def using connect_reply_runs [OF _ assms(2)] by (blast intro: runs_sending [OF assms(1)])

text \<open>Whatever the proxy does, Dial returns, and a connection it gives up has been closed.\<close>

definition returns :: "dialogue \<Rightarrow> bool" where
  "returns f \<longleftrightarrow> (\<forall>c. \<exists>y. f c = Some y)"

lemma returns_intros:
  "returns f \<Longrightarrow> returns (sending p f)"
  "(\<And>d. returns (g d)) \<Longrightarrow> returns (receiving k g)"
  "returns (returning e)"
  "returns f \<Longrightarrow> returns f' \<Longrightarrow> returns (if P then f else f')"
proof -
  show "(\<And>d. returns (g d)) \<Longrightarrow> returns (receiving k g)"
    unfolding returns_def
  proof
    fix c assume "\<And>d. \<forall>c. \<exists>y. g d c = Some y"
    moreover from net.read_loop_total [of c k "[]"] obtain d e c' where "readFull conn_Read c k = Some (d, e, c')"
      by (auto simp: readFull_def)
    ultimately show "\<exists>y. receiving k g c = Some y" by (cases e) (auto simp: receiving_def)
  qed
qed (auto simp: returns_def sending_def returning_def split: prod.split option.split)

lemma handshake_returns: "returns (handshake d)"
  unfolding handshake_def authenticate_def by (intro returns_intros)

lemma connectRequest_returns: "returns (connectRequest host port)"
  unfolding connectRequest_def
  by (intro returns_intros) (unfold connect_reply_def, intro returns_intros)

definition gives_up :: "(goerror + netconn) \<times> netconn option \<Rightarrow> bool" where
  "gives_up x \<longleftrightarrow> (case x of (Inl _, Some c) \<Rightarrow> nc_closed c | (Inl _, None) \<Rightarrow> False | (Inr _, c) \<Rightarrow> c = None)"

lemma SOCKS5_Dial_returns:
  "dial (s5_proxyAddr d) = Inr c \<Longrightarrow> \<exists>x. SOCKS5_Dial dial d host port = Some x \<and> gives_up x"
proof -
  assume dial: "dial (s5_proxyAddr d) = Inr c"
  obtain e1 c1 where 1: "handshake d c = Some (e1, c1)" using handshake_returns [of d] by (fastforce simp: returns_def)
  obtain e2 c2 where 2: "connectRequest host port c1 = Some (e2, c2)"
    using connectRequest_returns [of host port] by (fastforce simp: returns_def)
  show ?thesis
    using dial 1 2 by (auto simp: SOCKS5_Dial_def gives_up_def conn_Close_def split: option.split)
qed

text \<open>
  C18. Dialing through a SOCKS5 proxy that accepts opens a tunnel: for every way the proxy's answers are
  cut into segments, with or without the username login, for every kind of bound address in the reply,
  Dial returns a connection on which exactly the greeting, the login and the CONNECT request were
  written, and whose next byte is the first one after the reply. The request names the target: an
  RFC 1928 server decodes it to the literal address or the name (its first 255 bytes) and to the port
  modulo 65536.
\<close>

theorem SOCKS5_Dial_tunnels:
  assumes "dial (s5_proxyAddr d) = Inr c" "talk c [] (server_hello login @ server_reply bound p) rest"
    "login_fits d" "addr_ok bound"
  shows "\<exists>conn. SOCKS5_Dial dial d host port = Some (Inr conn, None) \<and> writable conn \<and> conn_pending conn = rest \<and>
    nc_out conn = greeting d @ login_message d login @ connect_message host port \<and>
    decode_request (connect_message host port) = Some (target host, nat (port mod 65536), [])"
proof -
  have open_conn: "conn_SetDeadline c = None" using assms(2) by (simp add: talk_def writable_def conn_SetDeadline_def)
  from handshake_runs [OF assms(2,3)] obtain c1 where
    1: "handshake d c = Some (None, c1)" "talk c1 (greeting d @ login_message d login) (server_reply bound p @ []) rest"
    by (auto simp: runs_def)
  from connectRequest_runs [OF 1(2) assms(4), of host port] obtain c2 where
    2: "connectRequest host port c1 = Some (None, c2)"
       "talk c2 ((greeting d @ login_message d login) @ connect_message host port) [] rest"
    by (auto simp: runs_def)
  have "SOCKS5_Dial dial d host port = Some (Inr c2, None)"
    using assms(1) open_conn 1(1) 2(1) by (simp add: SOCKS5_Dial_def)
  with 2(2) decode_connect_message [of host port "[]"] show ?thesis by (auto simp: talk_def)
qed

definition demo_socks :: SOCKS5Dialer where
  "demo_socks = \<lparr>s5_proxyAddr = ''p:1080'', s5_username = ''u'', s5_password = ''pw'', s5_timeout = Second\<rparr>"

definition demo_socks_peer :: netconn where
  "demo_socks_peer = \<lparr>nc_in = [([u8 5], None), ([u8 2, u8 1], None), ([u8 0, u8 5, u8 0, u8 0, u8 1, u8 10, u8 0, u8 0, u8 1, u8 31], None),
     ([u8 144, CHR ''x''], None)], nc_wr = [], nc_out = [], nc_closed = False\<rparr>"

theorem SOCKS5_Dial_tunnels_witness:
  "\<exists>conn. SOCKS5_Dial (\<lambda>_. Inr demo_socks_peer) demo_socks ''h'' 8080 = Some (Inr conn, None) \<and> writable conn \<and>
     conn_pending conn = ''x'' \<and>
     nc_out conn = greeting demo_socks @ login_message demo_socks True @ connect_message ''h'' 8080 \<and>
     decode_request (connect_message ''h'' 8080) = Some (target ''h'', nat (8080 mod 65536), [])"
  by (rule SOCKS5_Dial_tunnels [where c = demo_socks_peer and bound = "IP4 [u8 10, u8 0, u8 0, u8 1]" and p = 8080])
    (simp_all add: talk_def demo_socks_peer_def demo_socks_def writable_def conn_pending_def conn_safe_def
      server_hello_def server_reply_def port_bytes_def login_fits_def)

end
