(* ===== verification/Proxy.thy ===== *)
theory Proxy
  imports NetIO Parser Request Writer
begin

text \<open>
  The HTTP proxy dialer of \<^verbatim>\<open>proxy.go\<close>: its configuration with the base64 credentials, the CONNECT
  request and the reading of the proxy's answer. \<open>net.DialTimeout\<close> is the argument \<open>dial\<close> and
  \<open>url.Parse\<close> the argument \<open>parse\<close>, as in the theory Request.
\<close>

section \<open>Port numbers in fixed arrays\<close>

text \<open>
  The loop \<open>for n > 0 { start--; buf[start] = byte('0' + n%10); n /= 10 }\<close> of buildTarget and
  buildAddr: it panics when the digits do not fit below \<open>start\<close>. The result is \<open>buf[start:]\<close>.
\<close>

function port_loop :: "nat \<Rightarrow> nat \<Rightarrow> bytes \<Rightarrow> bytes outcome" where
  "port_loop start n acc =
     (if n > 0 then
        (case start of 0 \<Rightarrow> Panic | Suc s \<Rightarrow> port_loop s (n div 10) (digit (n mod 10) # acc))
      else Done acc)"
  by pat_completeness auto
termination
  by (relation "measure fst") auto

declare port_loop.simps [simp del]

lemma port_loop_fits: "n < 10 ^ start \<Longrightarrow> port_loop start n acc = Done (if n = 0 then acc else itoa n @ acc)"
proof (induction start n acc rule: port_loop.induct)
  case (1 start n acc)
  show ?case
  proof (cases start)
    case (Suc s)
    then have "n div 10 < 10 ^ s" using 1(2) by (simp add: less_mult_imp_div_less mult.commute)
    with 1(1) Suc have "0 < n \<Longrightarrow> port_loop s (n div 10) (digit (n mod 10) # acc) =
      Done (if n div 10 = 0 then digit (n mod 10) # acc else itoa (n div 10) @ digit (n mod 10) # acc)" by blast
    then show ?thesis using Suc by (subst port_loop.simps) (auto simp: itoa.simps [of n] div_eq_0_iff)
  qed (use 1(2) in \<open>simp add: port_loop.simps\<close>)
qed

lemma port_loop_overflows: "10 ^ start \<le> n \<Longrightarrow> port_loop start n acc = Panic"
proof (induction start n acc rule: port_loop.induct)
  case (1 start n acc)
  show ?case
  proof (cases start)
    case (Suc s)
    then have "10 ^ s \<le> n div 10" using 1(2) by (simp add: less_eq_div_iff_mult_less_eq mult.commute)
    moreover have "0 < n" using 1(2) by (metis gr0I not_less zero_less_numeral zero_less_power)
    ultimately show ?thesis using 1(1) Suc by (subst port_loop.simps) simp
  qed (use 1(2) in \<open>simp add: port_loop.simps\<close>)
qed

section \<open>Configuration\<close>

definition b64char :: "nat \<Rightarrow> byte" where
  "b64char n = ''ABCDEFGHIJKLMNOPQRSTUVWXYZabcdefghijklmnopqrstuvwxyz0123456789+/'' ! n"

text \<open>base64.StdEncoding.EncodeToString.\<close>

fun base64_encode :: "bytes \<Rightarrow> bytes" where
  "base64_encode [] = []"
| "base64_encode [a] = [b64char (bval a div 4), b64char (bval a mod 4 * 16), CHR ''='', CHR ''='']"
| "base64_encode [a, b] =
     [b64char (bval a div 4), b64char (bval a mod 4 * 16 + bval b div 16), b64char (bval b mod 16 * 4), CHR ''='']"
| "base64_encode (a # b # c # r) =
     [b64char (bval a div 4), b64char (bval a mod 4 * 16 + bval b div 16),
      b64char (bval b mod 16 * 4 + bval c div 64), b64char (bval c mod 64)] @ base64_encode r"

record proxy_url = url +
  url_Host :: bytes

record ProxyDialer =
  px_addr :: bytes
  px_authHeader :: bytes
  px_connectTimeout :: int
  px_readTimeout :: int

definition NewProxyDialer :: "(bytes \<Rightarrow> goerror + proxy_url) \<Rightarrow> Config \<Rightarrow> goerror + ProxyDialer" where
  "NewProxyDialer parse config =
     (case parse (ProxyURL config) of
        Inl e \<Rightarrow> Inl (LogErrorWithFlag ErrorTypeProxy ''invalid proxy URL'' e)
      | Inr u \<Rightarrow>
          if url_Host u = [] then Inl (WrapError ErrorTypeProxy ''empty proxy address'' ErrProxyFailed)
          else
            (let proxyAddr = url_Host u @
                   (if url_Port u = [] then (if Scheme u = ''https'' then '':443'' else '':80'') else []);
                 authHeader =
                   (if ProxyUsername config \<noteq> [] \<or> ProxyPassword config \<noteq> [] then
                      ''Proxy-Authorization: Basic '' @
                      base64_encode (ProxyUsername config @ '':'' @ ProxyPassword config) @ CRLF
                    else [])
             in Inr \<lparr>px_addr = proxyAddr, px_authHeader = authHeader,
                     px_connectTimeout = ProxyConnectTimeout config, px_readTimeout = ProxyReadTimeout config\<rparr>))"

definition ProxyDialer_DialForward :: "(bytes \<Rightarrow> goerror + netconn) \<Rightarrow> ProxyDialer \<Rightarrow> goerror + netconn" where
  "ProxyDialer_DialForward dial p =
     (case dial (px_addr p) of
        Inl e \<Rightarrow> Inl (LogErrorWithFlag ErrorTypeProxy ''forward proxy connection failed'' e)
      | Inr conn \<Rightarrow> Inr conn)"

section \<open>The CONNECT exchange\<close>

definition buildTarget :: "bytes \<Rightarrow> int \<Rightarrow> bytes outcome" where
  "buildTarget host port =
     (if port = 443 then Done (host @ '':443'')
      else if port = 80 then Done (host @ '':80'')
      else
        (case (if port = 0 then Done ''0'' else port_loop 12 (nat port) []) of
           Panic \<Rightarrow> Panic
         | Done digits \<Rightarrow> Done (host @ '':'' @ digits)))"

text \<open>A copy to the current position and the advance the code makes after it.\<close>

definition copy_at :: "bytes \<Rightarrow> nat \<Rightarrow> bytes \<times> nat \<Rightarrow> bytes \<times> nat" where
  "copy_at s n st = (case st of (buf, pos) \<Rightarrow> (blit buf pos s, pos + n))"

definition connect_buf :: "ProxyDialer \<Rightarrow> bytes \<Rightarrow> bytes" where
  "connect_buf p tgt =
     (let targetLen = length tgt;
          authLen = length (px_authHeader p);
          totalSize = 8 + targetLen + 17 + targetLen + 2 + authLen + 2;
          st = (zeros totalSize, 0);
          st = copy_at ''CONNECT '' 8 st;
          st = copy_at tgt targetLen st;
          st = copy_at ('' HTTP/1.1'' @ CRLF @ ''Host: '') 17 st;
          st = copy_at tgt targetLen st;
          st = copy_at CRLF 2 st;
          st = (if authLen > 0 then copy_at (px_authHeader p) authLen st else st)
      in fst (copy_at CRLF 2 st))"

definition writeConnect :: "ProxyDialer \<Rightarrow> netconn \<Rightarrow> bytes \<Rightarrow> (goerror option \<times> netconn) option" where
  "writeConnect p conn tgt =
     (case conn_SetDeadline conn of
        Some e \<Rightarrow> Some (Some e, conn)
      | None \<Rightarrow> writeAll conn (connect_buf p tgt))"

text \<open>The status check on \<open>buf[:total]\<close>; byte arithmetic wraps.\<close>

definition byte_digit :: "byte \<Rightarrow> nat" where
  "byte_digit c = (bval c + 208) mod 256"

definition connect_status :: "bytes \<Rightarrow> goerror option" where
  "connect_status buf =
     (if length buf < 12 then Some (WrapError ErrorTypeProtocol ''proxy response too short'' ErrInvalidResponse)
      else if \<not> (buf ! 9 = CHR ''2'' \<and> buf ! 10 = CHR ''0'' \<and> buf ! 11 = CHR ''0'') then
        (let statusCode = byte_digit (buf ! 9) * 100 + byte_digit (buf ! 10) * 10 + byte_digit (buf ! 11) in
         Some (WrapError ErrorTypeProxy (''proxy CONNECT rejected (HTTP '' @ itoa statusCode @ '')'') ErrProxyFailed))
      else None)"

definition proxy_closed :: goerror where
  "proxy_closed = WrapError ErrorTypeProtocol ''proxy connection closed'' ErrInvalidResponse"

definition readConnectResponse :: "netconn \<Rightarrow> goerror option \<times> netconn" where
  "readConnectResponse conn =
     (case conn_SetDeadline conn of
        Some e \<Rightarrow> (Some e, conn)
      | None \<Rightarrow>
          (case conn_Read conn 512 of (d, err, conn) \<Rightarrow>
             (case err of
                Some e \<Rightarrow> (Some e, conn)
              | None \<Rightarrow>
                  if d = [] then (Some proxy_closed, conn)
                  else if findHeaderEnd d < 0 then
                    (if length d \<ge> 512 then
                       (Some (WrapError ErrorTypeProtocol ''proxy response too large'' ErrHeaderTooLarge), conn)
                     else
                       (case conn_Read conn (512 - length d) of (d2, err, conn) \<Rightarrow>
                          (case err of
                             Some e \<Rightarrow> (Some e, conn)
                           | None \<Rightarrow>
                               if d2 = [] then (Some proxy_closed, conn)
                               else if findHeaderEnd (d @ d2) < 0 then
                                 (Some (WrapError ErrorTypeProtocol ''proxy response incomplete'' ErrInvalidResponse), conn)
                               else (connect_status (d @ d2), conn))))
                  else (connect_status d, conn))))"

text \<open>The result, and the connection to the proxy when it has been given up.\<close>

definition connect_result :: "netconn \<Rightarrow> (goerror + netconn) \<times> netconn option" where
  "connect_result conn =
     (case readConnectResponse conn of (err, conn) \<Rightarrow>
        (case err of
           Some e \<Rightarrow> (Inl (LogErrorWithFlag ErrorTypeProxy ''proxy CONNECT response failed'' e), Some (conn_Close conn))
         | None \<Rightarrow> (Inr conn, None)))"

definition Proxy_Dial ::
  "(bytes \<Rightarrow> goerror + netconn) \<Rightarrow> ProxyDialer \<Rightarrow> bytes \<Rightarrow> int \<Rightarrow> ((goerror + netconn) \<times> netconn option) outcome option" where
  "Proxy_Dial dial p host port =
     (case buildTarget host port of
        Panic \<Rightarrow> Some Panic
      | Done tgt \<Rightarrow>
          (case dial (px_addr p) of
             Inl e \<Rightarrow> Some (Done (Inl (LogErrorWithFlag ErrorTypeProxy ''proxy connection failed'' e), None))
           | Inr conn \<Rightarrow>
               Option.bind (writeConnect p conn tgt) (\<lambda>(err, conn).
                 case err of
                   Some e \<Rightarrow> Some (Done (Inl (LogErrorWithFlag ErrorTypeProxy ''proxy CONNECT write failed'' e), Some (conn_Close conn)))
                 | None \<Rightarrow> Some (Done (connect_result conn)))))"

section \<open>What goes over the wire\<close>

definition connect_text :: "ProxyDialer \<Rightarrow> bytes \<Rightarrow> bytes" where
  "connect_text p tgt =
     ''CONNECT '' @ tgt @ '' HTTP/1.1'' @ CRLF @ ''Host: '' @ tgt @ CRLF @ px_authHeader p @ CRLF"

lemma copy_at_blit:
  assumes "length done + length s \<le> length buf" "n = length s" "pos = length done"
  shows "copy_at s n (blit buf 0 done, pos) = (blit buf 0 (done @ s), length (done @ s))"
  using assms blit_blit [of 0 "done" s buf] by (simp add: copy_at_def)

lemma connect_buf_eq: "connect_buf p tgt = connect_text p tgt"
proof -
  let ?n = "8 + length tgt + 17 + length tgt + 2 + length (px_authHeader p) + 2"
  have z: "(zeros ?n, 0) = (blit (zeros ?n) 0 [], length ([] :: bytes))" by simp
  have "connect_buf p tgt = blit (zeros ?n) 0 (connect_text p tgt)"
    unfolding connect_buf_def Let_def z
    by (simp add: copy_at_blit connect_text_def del: blit_Nil)
  moreover have "length (connect_text p tgt) = ?n" by (simp add: connect_text_def)
  ultimately show ?thesis by (simp add: blit_def)
qed

definition target_text :: "bytes \<Rightarrow> int \<Rightarrow> bytes" where
  "target_text host port = host @ '':'' @ itoa (nat port)"

lemma itoa_ports: "itoa 443 = ''443''" "itoa 80 = ''80''" "itoa 8080 = ''8080''" "itoa 8443 = ''8443''" "itoa 0 = ''0''"
  by (simp_all add: itoa.simps digit_def byte_of_def char_of_def bit_0)

lemma buildTarget_fits: "0 \<le> port \<Longrightarrow> port < 10 ^ 12 \<Longrightarrow> buildTarget host port = Done (target_text host port)"
proof -
  assume p: "0 \<le> port" "port < 10 ^ 12"
  have "nat port < 10 ^ 12" using p by (simp add: nat_less_iff)
  then show ?thesis
    using p itoa_ports port_loop_fits [of "nat port" 12 "[]"] by (auto simp: buildTarget_def target_text_def)
qed

text \<open>Up to the answer, Dial has written the CONNECT request and nothing else.\<close>

lemma Proxy_Dial_written:
  assumes "dial (px_addr p) = Inr c" "writable c" "0 \<le> port" "port < 10 ^ 12"
  shows "\<exists>c'. nc_in c' = nc_in c \<and> nc_out c' = nc_out c @ connect_text p (target_text host port) \<and> writable c' \<and>
    Proxy_Dial dial p host port = Some (Done (connect_result c'))"
proof -
  obtain c' where c': "writeAll c (connect_text p (target_text host port)) = Some (None, c')"
    "nc_out c' = nc_out c @ connect_text p (target_text host port)" "nc_in c' = nc_in c" "writable c'"
    using writeAll_writable [OF assms(2)] by blast
  moreover have "conn_SetDeadline c = None" using assms(2) by (simp add: conn_SetDeadline_def writable_def)
  ultimately show ?thesis
    using assms(1) buildTarget_fits [OF assms(3,4), of host]
    by (intro exI [of _ c']) (simp add: Proxy_Dial_def writeConnect_def connect_buf_eq)
qed

text \<open>The proxy's header arrives in one segment or in two, within the 512 bytes of the array.\<close>

definition arrives :: "bytes list \<Rightarrow> bytes \<Rightarrow> bool" where
  "arrives segs head \<longleftrightarrow> head = concat segs \<and> length head \<le> 512 \<and> findHeaderEnd head \<ge> 0 \<and>
     (case segs of [a] \<Rightarrow> a \<noteq> [] | [a, b] \<Rightarrow> a \<noteq> [] \<and> b \<noteq> [] \<and> findHeaderEnd a < 0 | _ \<Rightarrow> False)"

lemma readConnectResponse_arrives:
  assumes "arrives segs head" "nc_in c = map (\<lambda>s. (s, None)) segs @ tail" "\<not> nc_closed c"
  shows "readConnectResponse c = (connect_status head, c\<lparr>nc_in := tail\<rparr>)"
  using assms
  by (auto simp: arrives_def readConnectResponse_def conn_SetDeadline_def conn_Read_def split: list.splits)

text \<open>
  C19. Dialing through an HTTP proxy writes exactly one CONNECT request for host and port with the
  configured credentials, and, when the proxy's header arrives in at most two reads, opens the tunnel
  if and only if bytes 9 to 11 of the answer are 200; on any other status the connection is closed and
  the error carries the status. The tunnel continues with the segment after the header.
\<close>

theorem Proxy_Dial_connects:
  assumes "dial (px_addr p) = Inr c" "writable c" "nc_out c = []" "0 \<le> port" "port < 10 ^ 12"
    "nc_in c = map (\<lambda>s. (s, None)) segs @ tail" "arrives segs head" "12 \<le> length head"
  shows "\<exists>conn. nc_out conn = connect_text p (target_text host port) \<and> nc_in conn = tail \<and> writable conn \<and>
    Proxy_Dial dial p host port = Some (Done
      (if take 3 (drop 9 head) = ''200'' then (Inr conn, None)
       else (Inl (DetailedError ErrorTypeProxy ''proxy CONNECT response failed'' (connect_status head)), Some (conn_Close conn))))"
proof -
  obtain c' where c': "nc_in c' = nc_in c" "nc_out c' = nc_out c @ connect_text p (target_text host port)" "writable c'"
    "Proxy_Dial dial p host port = Some (Done (connect_result c'))"
    using Proxy_Dial_written [where dial = dial and p = p and c = c and port = port and host = host, OF assms(1,2,4,5)] by blast
  have r: "readConnectResponse c' = (connect_status head, c'\<lparr>nc_in := tail\<rparr>)"
    using readConnectResponse_arrives [OF assms(7), of c' tail] assms(6) c'(1,3) by (simp add: writable_def)
  have "take 3 (drop 9 head) = [head ! 9, head ! 10, head ! 11]"
    using assms(8) by (simp add: numeral_eq_Suc Cons_nth_drop_Suc flip: Cons_nth_drop_Suc)
  then have "connect_status head = None \<longleftrightarrow> take 3 (drop 9 head) = ''200''"
    using assms(8) by (simp add: connect_status_def Let_def)
  with r c' assms(3) show ?thesis
    by (intro exI [of _ "c'\<lparr>nc_in := tail\<rparr>"]) (auto simp: connect_result_def LogErrorWithFlag_def writable_def split: option.split)
qed

definition demo_proxy :: ProxyDialer where
  "demo_proxy = \<lparr>px_addr = ''p:80'', px_authHeader = [], px_connectTimeout = Second, px_readTimeout = Second\<rparr>"

definition demo_proxy_conn :: "bytes list \<Rightarrow> netconn" where
  "demo_proxy_conn segs = \<lparr>nc_in = map (\<lambda>s. (s, None)) segs, nc_wr = [], nc_out = [], nc_closed = False\<rparr>"

definition demo_proxy_head :: "bytes list" where
  "demo_proxy_head = [''HTTP/1.1 200 OK'' @ CRLF, CRLF]"

theorem Proxy_Dial_connects_witness:
  "\<exists>conn. nc_out conn = connect_text demo_proxy (target_text ''h'' 8443) \<and> nc_in conn = [(''x'', None)] \<and> writable conn \<and>
     Proxy_Dial (\<lambda>_. Inr (demo_proxy_conn (demo_proxy_head @ [''x'']))) demo_proxy ''h'' 8443 = Some (Done (Inr conn, None))"
proof -
  have a: "arrives demo_proxy_head (concat demo_proxy_head)"
    by (simp add: arrives_def demo_proxy_head_def findHeaderEnd_first_occ first_occ.simps)
  show ?thesis
    using Proxy_Dial_connects [of "\<lambda>_. Inr (demo_proxy_conn (demo_proxy_head @ [''x'']))" demo_proxy "demo_proxy_conn (demo_proxy_head @ [''x''])"
        8443 demo_proxy_head "[(''x'', None)]" "concat demo_proxy_head" "''h''", OF _ _ _ _ _ _ a]
    by (simp add: demo_proxy_conn_def demo_proxy_head_def writable_def)
qed

text \<open>
  A proxy answer that needs a third read is refused: when the first two segments do not complete the
  header, Dial fails with an incomplete response and closes the connection, whatever follows.
\<close>

theorem proxy_third_segment_refused:
  assumes "dial (px_addr p) = Inr c" "writable c" "0 \<le> port" "port < 10 ^ 12"
    "nc_in c = (sA, None) # (sB, None) # tail" "sA \<noteq> []" "sB \<noteq> []" "length (sA @ sB) \<le> 512" "findHeaderEnd sA < 0"
    "findHeaderEnd (sA @ sB) < 0"
  shows "\<exists>conn. nc_in conn = tail \<and> Proxy_Dial dial p host port =
    Some (Done (Inl (WrapError ErrorTypeProxy ''proxy CONNECT response failed''
      (WrapError ErrorTypeProtocol ''proxy response incomplete'' ErrInvalidResponse)), Some (conn_Close conn)))"
proof -
  obtain c' where c': "nc_in c' = nc_in c" "nc_out c' = nc_out c @ connect_text p (target_text host port)" "writable c'"
    "Proxy_Dial dial p host port = Some (Done (connect_result c'))"
    using Proxy_Dial_written [where dial = dial and p = p and c = c and port = port and host = host, OF assms(1-4)] by blast
  have "length sA < 512" "\<not> 512 - length sA < length sB" using assms(7,8) by (cases sB; simp)+
  then have "readConnectResponse c' = (Some (WrapError ErrorTypeProtocol ''proxy response incomplete'' ErrInvalidResponse), c'\<lparr>nc_in := tail\<rparr>)"
    using assms(5-10) c'(1,3) by (simp add: readConnectResponse_def conn_SetDeadline_def conn_Read_def writable_def)
  with c'(4) show ?thesis by (intro exI [of _ "c'\<lparr>nc_in := tail\<rparr>"]) (simp add: connect_result_def LogErrorWithFlag_def WrapError_def)
qed

theorem proxy_third_segment_refused_witness:
  "\<exists>conn. nc_in conn = [(CRLF, None)] \<and>
     Proxy_Dial (\<lambda>_. Inr (demo_proxy_conn [''HTTP/1.1 200 OK'' @ CRLF, ''Via: p'' @ CRLF, CRLF])) demo_proxy ''h'' 443 =
       Some (Done (Inl (WrapError ErrorTypeProxy ''proxy CONNECT response failed''
         (WrapError ErrorTypeProtocol ''proxy response incomplete'' ErrInvalidResponse)), Some (conn_Close conn)))"
  by (rule proxy_third_segment_refused [where sA = "''HTTP/1.1 200 OK'' @ CRLF" and sB = "''Via: p'' @ CRLF"
      and c = "demo_proxy_conn [''HTTP/1.1 200 OK'' @ CRLF, ''Via: p'' @ CRLF, CRLF]"])
    (simp_all add: demo_proxy_conn_def writable_def findHeaderEnd_first_occ first_occ.simps)

text \<open>Whatever the proxy does, Dial returns, and a connection it gives up has been closed.\<close>

lemma Proxy_Dial_returns:
  assumes "dial (px_addr p) = Inr c" "0 \<le> port" "port < 10 ^ 12"
  shows "\<exists>res gone. Proxy_Dial dial p host port = Some (Done (res, gone)) \<and>
    (case res of Inl _ \<Rightarrow> (\<exists>c. gone = Some c \<and> nc_closed c) | Inr _ \<Rightarrow> gone = None)"
proof -
  obtain e1 c1 where 1: "writeConnect p c (target_text host port) = Some (e1, c1)"
    using writeAll_result [of c "connect_buf p (target_text host port)"]
    by (cases "conn_SetDeadline c") (auto simp: writeConnect_def)
  obtain e2 c2 where 2: "readConnectResponse c1 = (e2, c2)" by fastforce
  show ?thesis
    using assms(1) buildTarget_fits [OF assms(2,3)] 1 2
    by (cases e1; cases e2) (auto simp: Proxy_Dial_def connect_result_def conn_Close_def)
qed

end
