(* ===== verification/Dns.thy ===== *)
theory Dns
  imports Config Timing IPAddr
begin

text \<open>
  The resolver cache of \<^verbatim>\<open>dns.go\<close>. What a lock protects is one operation on the cache; between the
  operations other goroutines run, so a lookup is a small state machine (\<open>lookup_pc\<close>) and the cache
  with its goroutines a transition system (\<open>dns_step\<close>). The resolver, net.LookupHost, is the
  environment: any answer may come back at any time. A nil slice of addresses is the empty list.
  A dnsInflight is identified by its position in \<open>dc_flights\<close>; closing its channel is \<open>fl_done\<close>.
\<close>

record dnsInflight =
  fl_done :: bool
  fl_addrs :: "bytes list"
  fl_err :: "goerror option"

record dnsEntry =
  de_addrs :: "bytes list"
  de_expires :: int
  de_idx :: nat

record DNSCache =
  dc_ttl :: int
  dc_negativeTTL :: int
  dc_entries :: "bytes \<rightharpoonup> dnsEntry"
  dc_negative :: "bytes \<rightharpoonup> int"
  dc_inflight :: "bytes \<rightharpoonup> nat"
  dc_flights :: "dnsInflight list"
  dc_stopped :: bool

definition NewDNSCache :: "int \<Rightarrow> int \<Rightarrow> DNSCache" where
  "NewDNSCache ttl negativeTTL =
     \<lparr>dc_ttl = (if ttl \<le> 0 then 5 * Minute else ttl),
      dc_negativeTTL = (if negativeTTL \<le> 0 then 5 * Second else negativeTTL),
      dc_entries = Map.empty, dc_negative = Map.empty, dc_inflight = Map.empty, dc_flights = [], dc_stopped = False\<rparr>"

type_synonym lookup = "goerror + bytes list"

definition negative_error :: "bytes \<Rightarrow> goerror" where
  "negative_error host = NetError False (''lookup '' @ host @ '': no such host (negative cache)'')"

section \<open>LookupHost\<close>

text \<open>
  The part under the read lock: an answer (with a flag that asks for a background refresh) or a miss
  with the stale addresses, if any.
\<close>

datatype cached = Answer "lookup outcome" bool | Miss "bytes list"

definition entry_hit :: "int \<Rightarrow> DNSCache \<Rightarrow> bytes \<Rightarrow> dnsEntry \<Rightarrow> cached \<times> DNSCache" where
  "entry_hit now c host entry =
     (let addrs = de_addrs entry;
          idx = de_idx entry;
          c = c\<lparr>dc_entries := (dc_entries c)(host \<mapsto> entry\<lparr>de_idx := u32 (int idx + 1)\<rparr>)\<rparr>;
          age = i64 (dc_ttl c - (de_expires entry - now))
      in if addrs = [] then (Answer Panic False, c)
         else (Answer (Done (Inr [addrs ! (idx mod length addrs)])) (age > quot (i64 (dc_ttl c * 4)) 5), c))"

definition lookup_cached :: "int \<Rightarrow> DNSCache \<Rightarrow> bytes \<Rightarrow> cached \<times> DNSCache" where
  "lookup_cached now c host =
     (if ParseIP host \<noteq> None then (Answer (Done (Inr [host])) False, c)
      else if (case dc_negative c host of None \<Rightarrow> False | Some negExp \<Rightarrow> now < negExp) then
        (Answer (Done (Inl (negative_error host))) False, c)
      else
        (case dc_entries c host of
           None \<Rightarrow> (Miss [], c)
         | Some entry \<Rightarrow>
             if now < de_expires entry then entry_hit now c host entry else (Miss (de_addrs entry), c)))"

text \<open>
  A goroutine that needs the resolver is a caller of LookupHost, with the stale addresses it saw, or a
  background refresh. It joins a flight or leads one; a leader resolves, publishes the result,
  removes the flight and stores the result, in this order.
\<close>

datatype role = Caller "bytes list" | Background

datatype lookup_pc =
    Joining role
  | Waiting nat "bytes list"
  | Resolving nat role
  | Leaving nat role "bytes list" "goerror option"
  | Storing role "bytes list" "goerror option"
  | Finished "lookup outcome option"

definition join_flight :: "DNSCache \<Rightarrow> bytes \<Rightarrow> role \<Rightarrow> lookup_pc \<times> DNSCache" where
  "join_flight c host r =
     (case dc_inflight c host of
        Some fl \<Rightarrow> (case r of Caller stale \<Rightarrow> Waiting fl stale | Background \<Rightarrow> Finished None, c)
      | None \<Rightarrow>
          (let fl = length (dc_flights c) in
           (Resolving fl r,
            c\<lparr>dc_flights := dc_flights c @ [\<lparr>fl_done = False, fl_addrs = [], fl_err = None\<rparr>],
              dc_inflight := (dc_inflight c)(host \<mapsto> fl)\<rparr>)))"

definition publish :: "DNSCache \<Rightarrow> nat \<Rightarrow> bytes list \<Rightarrow> goerror option \<Rightarrow> DNSCache" where
  "publish c fl addrs err =
     c\<lparr>dc_flights := (dc_flights c)[fl := \<lparr>fl_done = True, fl_addrs = addrs, fl_err = err\<rparr>]\<rparr>"

definition leave_flight :: "DNSCache \<Rightarrow> bytes \<Rightarrow> DNSCache" where
  "leave_flight c host = c\<lparr>dc_inflight := (dc_inflight c)(host := None)\<rparr>"

definition first_addr :: "bytes list \<Rightarrow> lookup outcome" where
  "first_addr addrs = (case addrs of [] \<Rightarrow> Panic | a # _ \<Rightarrow> Done (Inr [a]))"

text \<open>What a waiter returns once the channel of its flight is closed.\<close>

definition flight_result :: "dnsInflight \<Rightarrow> bytes list \<Rightarrow> lookup outcome" where
  "flight_result fl stale =
     (case fl_err fl of
        Some e \<Rightarrow> if stale \<noteq> [] then Done (Inr stale) else Done (Inl e)
      | None \<Rightarrow> first_addr (fl_addrs fl))"

definition store_lookup :: "int \<Rightarrow> DNSCache \<Rightarrow> bytes \<Rightarrow> bytes list \<Rightarrow> bytes list \<Rightarrow> goerror option \<Rightarrow> lookup outcome \<times> DNSCache" where
  "store_lookup now c host stale addrs err =
     (case err of
        Some e \<Rightarrow>
          if stale \<noteq> [] then (Done (Inr stale), c)
          else (Done (Inl e), c\<lparr>dc_negative := (dc_negative c)(host \<mapsto> now + dc_negativeTTL c)\<rparr>)
      | None \<Rightarrow>
          (first_addr addrs,
           c\<lparr>dc_negative := (dc_negative c)(host := None),
             dc_entries := (dc_entries c)(host \<mapsto> \<lparr>de_addrs = addrs, de_expires = now + dc_ttl c, de_idx = 0\<rparr>)\<rparr>))"

definition store_refreshed :: "int \<Rightarrow> DNSCache \<Rightarrow> bytes \<Rightarrow> bytes list \<Rightarrow> goerror option \<Rightarrow> DNSCache" where
  "store_refreshed now c host addrs err =
     (if err \<noteq> None \<or> addrs = [] then c
      else
        (let idx = (case dc_entries c host of None \<Rightarrow> 0 | Some old \<Rightarrow> de_idx old) in
         c\<lparr>dc_negative := (dc_negative c)(host := None),
           dc_entries := (dc_entries c)(host \<mapsto> \<lparr>de_addrs = addrs, de_expires = now + dc_ttl c, de_idx = idx\<rparr>)\<rparr>))"

definition store_result :: "int \<Rightarrow> DNSCache \<Rightarrow> bytes \<Rightarrow> role \<Rightarrow> bytes list \<Rightarrow> goerror option \<Rightarrow> lookup outcome option \<times> DNSCache" where
  "store_result now c host r addrs err =
     (case r of
        Caller stale \<Rightarrow> (case store_lookup now c host stale addrs err of (res, c) \<Rightarrow> (Some res, c))
      | Background \<Rightarrow> (None, store_refreshed now c host addrs err))"

section \<open>A whole call\<close>

text \<open>
  LookupHost from its call to its return. \<open>answer fl\<close> is the flight a waiter finds when its channel is
  closed, filled in by another goroutine.
\<close>

definition LookupHost ::
  "(bytes \<Rightarrow> bytes list \<times> goerror option) \<Rightarrow> (nat \<Rightarrow> dnsInflight) \<Rightarrow> int \<Rightarrow> DNSCache \<Rightarrow> bytes \<Rightarrow> lookup outcome \<times> DNSCache" where
  "LookupHost resolver answer now c host =
     (case lookup_cached now c host of
        (Answer res _, c) \<Rightarrow> (res, c)
      | (Miss stale, c) \<Rightarrow>
          (case dc_inflight c host of
             Some fl \<Rightarrow> (flight_result (answer fl) stale, c)
           | None \<Rightarrow>
               (let fl = length (dc_flights c);
                    c = snd (join_flight c host (Caller stale))
                in case resolver host of (addrs, err) \<Rightarrow>
                     store_lookup now (leave_flight (publish c fl addrs err) host) host stale addrs err)))"

section \<open>The other operations\<close>

definition Refresh :: "(bytes \<Rightarrow> lookup) \<Rightarrow> int \<Rightarrow> DNSCache \<Rightarrow> bytes \<Rightarrow> lookup \<times> DNSCache" where
  "Refresh resolver now c host =
     (case resolver host of
        Inl e \<Rightarrow> (Inl e, c)
      | Inr addrs \<Rightarrow>
          (Inr addrs,
           c\<lparr>dc_entries := (dc_entries c)(host \<mapsto> \<lparr>de_addrs = addrs, de_expires = now + dc_ttl c, de_idx = 0\<rparr>)\<rparr>))"

definition Invalidate :: "DNSCache \<Rightarrow> bytes \<Rightarrow> DNSCache" where
  "Invalidate c host = c\<lparr>dc_entries := (dc_entries c)(host := None)\<rparr>"

definition Clear :: "DNSCache \<Rightarrow> DNSCache" where
  "Clear c = c\<lparr>dc_entries := Map.empty\<rparr>"

definition DNS_Stop :: "DNSCache \<Rightarrow> DNSCache" where
  "DNS_Stop c = c\<lparr>dc_stopped := True\<rparr>"

text \<open>
  One tick of the janitor: the hosts it collects under the read lock, as predicates, and what it
  deletes under the write lock afterwards.
\<close>

definition expired :: "int \<Rightarrow> DNSCache \<Rightarrow> bytes \<Rightarrow> bool" where
  "expired now c host = (case dc_entries c host of None \<Rightarrow> False | Some e \<Rightarrow> now > de_expires e)"

definition prefetch :: "int \<Rightarrow> DNSCache \<Rightarrow> bytes \<Rightarrow> bool" where
  "prefetch now c host =
     (case dc_entries c host of
        None \<Rightarrow> False
      | Some e \<Rightarrow> \<not> now > de_expires e \<and> de_expires e - now < quot (dc_ttl c) 5)"

definition expiredNeg :: "int \<Rightarrow> DNSCache \<Rightarrow> bytes \<Rightarrow> bool" where
  "expiredNeg now c host = (case dc_negative c host of None \<Rightarrow> False | Some e \<Rightarrow> now > e)"

definition janitor_delete :: "(bytes \<Rightarrow> bool) \<Rightarrow> (bytes \<Rightarrow> bool) \<Rightarrow> DNSCache \<Rightarrow> DNSCache" where
  "janitor_delete gone goneNeg c =
     c\<lparr>dc_entries := (\<lambda>h. if gone h then None else dc_entries c h),
       dc_negative := (\<lambda>h. if goneNeg h then None else dc_negative c h)\<rparr>"

definition janitor_interval :: "DNSCache \<Rightarrow> int" where
  "janitor_interval c = (let interval = quot (dc_ttl c) 4 in if interval < Second then Second else interval)"

section \<open>Goroutines\<close>

text \<open>Every goroutine with the host it is about.\<close>

record dns_state =
  ds_cache :: DNSCache
  ds_threads :: "nat \<rightharpoonup> bytes \<times> lookup_pc"

definition go :: "nat \<Rightarrow> bytes \<Rightarrow> lookup_pc \<Rightarrow> DNSCache \<Rightarrow> dns_state \<Rightarrow> dns_state" where
  "go t host pc c s = s\<lparr>ds_cache := c, ds_threads := (ds_threads s)(t \<mapsto> (host, pc))\<rparr>"

inductive dns_step :: "dns_state \<Rightarrow> dns_state \<Rightarrow> bool" where
  answered: "ds_threads s t = None \<Longrightarrow> lookup_cached now (ds_cache s) host = (Answer res wanted, c) \<Longrightarrow>
    dns_step s (go t host (Finished (Some res)) c s)"
| missed: "ds_threads s t = None \<Longrightarrow> lookup_cached now (ds_cache s) host = (Miss stale, c) \<Longrightarrow>
    dns_step s (go t host (Joining (Caller stale)) c s)"
| background: "ds_threads s t = None \<Longrightarrow> dns_step s (go t host (Joining Background) (ds_cache s) s)"
| joined: "ds_threads s t = Some (host, Joining r) \<Longrightarrow> join_flight (ds_cache s) host r = (pc, c) \<Longrightarrow>
    dns_step s (go t host pc c s)"
| resolved: "ds_threads s t = Some (host, Resolving fl r) \<Longrightarrow>
    dns_step s (go t host (Leaving fl r addrs err) (publish (ds_cache s) fl addrs err) s)"
| left: "ds_threads s t = Some (host, Leaving fl r addrs err) \<Longrightarrow>
    dns_step s (go t host (Storing r addrs err) (leave_flight (ds_cache s) host) s)"
| stored: "ds_threads s t = Some (host, Storing r addrs err) \<Longrightarrow>
    store_result now (ds_cache s) host r addrs err = (res, c) \<Longrightarrow> dns_step s (go t host (Finished res) c s)"
| woken: "ds_threads s t = Some (host, Waiting fl stale) \<Longrightarrow> fl_done (dc_flights (ds_cache s) ! fl) \<Longrightarrow>
    dns_step s (go t host (Finished (Some (flight_result (dc_flights (ds_cache s) ! fl) stale))) (ds_cache s) s)"
| refreshed: "Refresh resolver now (ds_cache s) host = (res, c) \<Longrightarrow> dns_step s (s\<lparr>ds_cache := c\<rparr>)"
| invalidated: "dns_step s (s\<lparr>ds_cache := Invalidate (ds_cache s) host\<rparr>)"
| cleared: "dns_step s (s\<lparr>ds_cache := Clear (ds_cache s)\<rparr>)"
| swept: "dns_step s (s\<lparr>ds_cache := janitor_delete gone goneNeg (ds_cache s)\<rparr>)"

definition dns_start :: "int \<Rightarrow> int \<Rightarrow> dns_state" where
  "dns_start ttl negativeTTL = \<lparr>ds_cache = NewDNSCache ttl negativeTTL, ds_threads = Map.empty\<rparr>"

definition dns_reachable :: "int \<Rightarrow> int \<Rightarrow> dns_state \<Rightarrow> bool" where
  "dns_reachable ttl negativeTTL = dns_step\<^sup>*\<^sup>* (dns_start ttl negativeTTL)"

section \<open>Single flight\<close>

fun flight_of :: "lookup_pc \<Rightarrow> nat option" where
  "flight_of (Resolving fl _) = Some fl"
| "flight_of (Leaving fl _ _ _) = Some fl"
| "flight_of _ = None"

text \<open>
  The registered flights are exactly those of the leaders, one leader each; a waiter's flight is done
  or is being resolved.
\<close>

record flights_view =
  fv_inflight :: "bytes \<rightharpoonup> nat"
  fv_flights :: "dnsInflight list"
  fv_threads :: "nat \<rightharpoonup> bytes \<times> lookup_pc"

definition view :: "dns_state \<Rightarrow> flights_view" where
  "view s = \<lparr>fv_inflight = dc_inflight (ds_cache s), fv_flights = dc_flights (ds_cache s), fv_threads = ds_threads s\<rparr>"

definition leading :: "flights_view \<Rightarrow> nat \<Rightarrow> bytes \<Rightarrow> nat \<Rightarrow> bool" where
  "leading v t host fl \<longleftrightarrow> (\<exists>pc. fv_threads v t = Some (host, pc) \<and> flight_of pc = Some fl)"

definition registered :: "flights_view \<Rightarrow> bool" where
  "registered v \<longleftrightarrow> (\<forall>t host fl. leading v t host fl \<longrightarrow> fv_inflight v host = Some fl) \<and>
     (\<forall>host fl. fv_inflight v host = Some fl \<longrightarrow> fl < length (fv_flights v) \<and> (\<exists>t. leading v t host fl)) \<and>
     (\<forall>t t' host host' fl. leading v t host fl \<longrightarrow> leading v t' host' fl \<longrightarrow> t = t')"

definition published :: "flights_view \<Rightarrow> bool" where
  "published v \<longleftrightarrow>
     (\<forall>t host fl r addrs err. fv_threads v t = Some (host, Leaving fl r addrs err) \<longrightarrow>
        fv_flights v ! fl = \<lparr>fl_done = True, fl_addrs = addrs, fl_err = err\<rparr>)"

definition awaited :: "flights_view \<Rightarrow> bool" where
  "awaited v \<longleftrightarrow>
     (\<forall>t host fl stale. fv_threads v t = Some (host, Waiting fl stale) \<longrightarrow>
        fl < length (fv_flights v) \<and>
        (fl_done (fv_flights v ! fl) \<or> (\<exists>t' r. fv_threads v t' = Some (host, Resolving fl r))))"

definition flights_ok :: "flights_view \<Rightarrow> bool" where
  "flights_ok v \<longleftrightarrow> registered v \<and> published v \<and> awaited v"

lemma leading_upd:
  "leading (v\<lparr>fv_threads := (fv_threads v)(t \<mapsto> (h, pc))\<rparr>) t' host fl \<longleftrightarrow>
     (if t' = t then host = h \<and> flight_of pc = Some fl else leading v t' host fl)"
  by (auto simp: leading_def)

text \<open>A goroutine that holds no flight before and after a move, and does not start to wait, keeps all of it.\<close>

definition bystander :: "flights_view \<Rightarrow> nat \<Rightarrow> bool" where
  "bystander v t \<longleftrightarrow> (case fv_threads v t of None \<Rightarrow> True | Some (h, pc) \<Rightarrow> flight_of pc = None)"

lemma flights_ok_bystander:
  assumes "flights_ok v" "bystander v t" "flight_of pc = None" "\<And>fl stale. pc \<noteq> Waiting fl stale"
  shows "flights_ok (v\<lparr>fv_threads := (fv_threads v)(t \<mapsto> (h, pc))\<rparr>)"
proof -
  have no: "\<not> leading v t host fl" for host fl
    using assms(2) by (auto simp: bystander_def leading_def)
  have "registered (v\<lparr>fv_threads := (fv_threads v)(t \<mapsto> (h, pc))\<rparr>)"
    using assms(1,3) no unfolding flights_ok_def registered_def leading_upd by (simp (no_asm_simp)) metis
  moreover have "published (v\<lparr>fv_threads := (fv_threads v)(t \<mapsto> (h, pc))\<rparr>)"
    using assms(1,3) by (auto simp: flights_ok_def published_def)
  moreover have "awaited (v\<lparr>fv_threads := (fv_threads v)(t \<mapsto> (h, pc))\<rparr>)"
    using assms no unfolding flights_ok_def awaited_def leading_def
    by (auto) (metis flight_of.simps(1))+
  ultimately show ?thesis by (simp add: flights_ok_def)
qed

lemma flights_ok_wait:
  assumes "flights_ok v" "bystander v t" "fv_inflight v h = Some fl"
  shows "flights_ok (v\<lparr>fv_threads := (fv_threads v)(t \<mapsto> (h, Waiting fl stale))\<rparr>)"
proof -
  have no: "\<not> leading v t host fl" for host fl
    using assms(2) by (auto simp: bystander_def leading_def)
  from assms(1,3) obtain t0 pc where l: "fl < length (fv_flights v)" "fv_threads v t0 = Some (h, pc)" "flight_of pc = Some fl"
    unfolding flights_ok_def registered_def leading_def by blast
  then have t0: "t0 \<noteq> t" using no by (auto simp: leading_def)
  have now: "fl_done (fv_flights v ! fl) \<or> (\<exists>t' r. t' \<noteq> t \<and> fv_threads v t' = Some (h, Resolving fl r))"
    using assms(1) l t0 by (cases pc) (auto simp: flights_ok_def published_def)
  have "registered (v\<lparr>fv_threads := (fv_threads v)(t \<mapsto> (h, Waiting fl stale))\<rparr>)"
    using assms(1) no unfolding flights_ok_def registered_def leading_upd by (simp (no_asm_simp)) metis
  moreover have "published (v\<lparr>fv_threads := (fv_threads v)(t \<mapsto> (h, Waiting fl stale))\<rparr>)"
    using assms(1) by (auto simp: flights_ok_def published_def)
  moreover have "awaited (v\<lparr>fv_threads := (fv_threads v)(t \<mapsto> (h, Waiting fl stale))\<rparr>)"
    using assms(1) no now l(1) unfolding flights_ok_def awaited_def leading_def
    by (auto) (metis flight_of.simps(1))+
  ultimately show ?thesis by (simp add: flights_ok_def)
qed

lemma flights_ok_lead:
  assumes "flights_ok v" "bystander v t" "fv_inflight v h = None"
  shows "flights_ok (v\<lparr>fv_inflight := (fv_inflight v)(h \<mapsto> length (fv_flights v)), fv_flights := fv_flights v @ [x],
     fv_threads := (fv_threads v)(t \<mapsto> (h, Resolving (length (fv_flights v)) r))\<rparr>)" (is "flights_ok ?v")
proof -
  have no: "\<not> leading v t host fl" for host fl
    using assms(2) by (auto simp: bystander_def leading_def)
  have lead: "leading ?v t' host fl \<longleftrightarrow> (if t' = t then host = h \<and> fl = length (fv_flights v) else leading v t' host fl)" for t' host fl
    by (auto simp: leading_def)
  have old: "leading v t' host fl \<Longrightarrow> host \<noteq> h \<and> fl < length (fv_flights v)" for t' host fl
    using assms(1,3) by (fastforce simp: flights_ok_def registered_def)
  have "registered ?v"
    using assms(1) no old unfolding flights_ok_def registered_def lead
    by (auto simp: less_Suc_eq split: if_splits) (metis less_irrefl)+
  moreover have "published ?v"
    using assms(1) old unfolding flights_ok_def published_def leading_def
    by (auto simp: nth_append) (metis flight_of.simps(2))+
  moreover have "awaited ?v"
    using assms(1) no unfolding flights_ok_def awaited_def leading_def
    by (auto simp: nth_append less_Suc_eq) (metis flight_of.simps(1))+
  ultimately show ?thesis by (simp add: flights_ok_def)
qed

lemma flights_ok_publish:
  assumes "flights_ok v" "fv_threads v t = Some (h, Resolving fl r)"
  shows "flights_ok (v\<lparr>fv_flights := (fv_flights v)[fl := \<lparr>fl_done = True, fl_addrs = addrs, fl_err = err\<rparr>],
     fv_threads := (fv_threads v)(t \<mapsto> (h, Leaving fl r addrs err))\<rparr>)" (is "flights_ok ?v")
proof -
  have mine: "leading v t h fl" using assms(2) by (auto simp: leading_def)
  then have here: "fl < length (fv_flights v)" using assms(1) unfolding flights_ok_def registered_def by blast
  have lead: "leading ?v t' host fl' \<longleftrightarrow> leading v t' host fl'" for t' host fl'
    using assms(2) by (auto simp: leading_def)
  have other: "t' = t" if "fv_threads v t' = Some (h', pc)" "flight_of pc = Some fl" for t' h' pc
    using assms(1) mine that unfolding flights_ok_def registered_def leading_def by blast
  have "registered ?v"
    using assms(1) unfolding flights_ok_def registered_def lead by simp
  moreover have "published ?v"
    using assms(1) other here unfolding flights_ok_def published_def
    by (auto simp: nth_list_update)
  moreover have "awaited ?v"
    using assms here unfolding flights_ok_def awaited_def
    by (auto simp: nth_list_update) (metis Pair_inject lookup_pc.inject(3) option.inject)+
  ultimately show ?thesis by (simp add: flights_ok_def)
qed

lemma flights_ok_leave:
  assumes "flights_ok v" "fv_threads v t = Some (h, Leaving fl r addrs err)"
  shows "flights_ok (v\<lparr>fv_inflight := (fv_inflight v)(h := None),
     fv_threads := (fv_threads v)(t \<mapsto> (h, Storing r addrs err))\<rparr>)" (is "flights_ok ?v")
proof -
  have mine: "leading v t h fl" using assms(2) by (auto simp: leading_def)
  have lead: "leading ?v t' host fl' \<longleftrightarrow> t' \<noteq> t \<and> leading v t' host fl'" for t' host fl'
    by (auto simp: leading_def)
  have only: "leading v t' h fl' \<Longrightarrow> t' = t" for t' fl'
    using assms(1) mine unfolding flights_ok_def registered_def by (metis option.inject)
  have "leading v t host fl' \<Longrightarrow> host = h" for host fl'
    using assms(2) by (auto simp: leading_def)
  then have "registered ?v"
    using assms(1) only unfolding flights_ok_def registered_def lead by (auto) metis+
  moreover have "published ?v"
    using assms(1) by (auto simp: flights_ok_def published_def)
  moreover have "awaited ?v"
    using assms unfolding flights_ok_def awaited_def by (auto) (metis Pair_inject lookup_pc.distinct(19) option.inject)
  ultimately show ?thesis by (simp add: flights_ok_def)
qed

text \<open>What the cached part, the stores and the maintenance operations leave alone.\<close>

lemma flights_frame:
  "lookup_cached now c host = (x, c') \<Longrightarrow> dc_inflight c' = dc_inflight c \<and> dc_flights c' = dc_flights c"
  "store_result now c host r addrs err = (y, c') \<Longrightarrow> dc_inflight c' = dc_inflight c \<and> dc_flights c' = dc_flights c"
  "Refresh resolver now c host = (z, c') \<Longrightarrow> dc_inflight c' = dc_inflight c \<and> dc_flights c' = dc_flights c"
  by (auto simp: lookup_cached_def entry_hit_def store_result_def store_lookup_def store_refreshed_def Refresh_def Let_def
      split: if_splits option.splits role.splits sum.splits)

lemma bystander_view: "bystander (view s) t \<longleftrightarrow> (case ds_threads s t of None \<Rightarrow> True | Some (h, pc) \<Rightarrow> flight_of pc = None)"
  by (simp add: bystander_def view_def)

lemma view_cache:
  "dc_inflight c = dc_inflight (ds_cache s) \<Longrightarrow> dc_flights c = dc_flights (ds_cache s) \<Longrightarrow> view (s\<lparr>ds_cache := c\<rparr>) = view s"
  by (simp add: view_def)

lemma flights_ok_go:
  assumes "flights_ok (view s)" "bystander (view s) t" "flight_of pc = None" "\<And>fl stale. pc \<noteq> Waiting fl stale"
    "dc_inflight c = dc_inflight (ds_cache s)" "dc_flights c = dc_flights (ds_cache s)"
  shows "flights_ok (view (go t host pc c s))"
  using flights_ok_bystander [OF assms(1-4), of host] assms(5,6) by (simp add: go_def view_def)

lemma dns_step_ok: "dns_step s s' \<Longrightarrow> flights_ok (view s) \<Longrightarrow> flights_ok (view s')"
proof (induction rule: dns_step.induct)
  case (joined s t host r pc c)
  let ?v = "view s"
  have idle: "bystander ?v t" using joined.hyps by (simp add: bystander_def view_def)
  show ?case
  proof (cases "dc_inflight (ds_cache s) host")
    case None
    then show ?thesis
      using flights_ok_lead [OF joined.prems idle, of host] joined.hyps(2)
      by (auto simp: join_flight_def Let_def go_def view_def)
  next
    case (Some fl)
    then show ?thesis
      using flights_ok_wait [OF joined.prems idle, of host fl] flights_ok_go [OF joined.prems idle] joined.hyps(2)
      by (auto simp: join_flight_def go_def view_def split: role.splits)
  qed
next
  case (resolved s t host fl r addrs err)
  then show ?case
    using flights_ok_publish [of "view s" t host fl r addrs err] by (simp add: go_def view_def publish_def)
next
  case (left s t host fl r addrs err)
  then show ?case
    using flights_ok_leave [of "view s" t host fl r addrs err] by (simp add: go_def view_def leave_flight_def)
next
  case (refreshed resolver now s host res c)
  then show ?case using flights_frame(3) by (simp add: view_def)
qed (auto intro!: flights_ok_go dest: flights_frame
      simp: bystander_view view_cache Invalidate_def Clear_def janitor_delete_def)

lemma dns_reachable_ok: "dns_reachable ttl negativeTTL s \<Longrightarrow> flights_ok (view s)"
  unfolding dns_reachable_def
proof (induction rule: rtranclp_induct)
  case base
  then show ?case
    by (simp add: flights_ok_def registered_def published_def awaited_def leading_def view_def dns_start_def NewDNSCache_def)
qed (blast intro: dns_step_ok)

text \<open>
  C17. The resolver is asked once: in every state the cache and its goroutines can reach, for whatever
  interleaving of lookups, background refreshes, janitor sweeps and forced refreshes, at most one
  goroutine is resolving a given host, and every goroutine that waits for a host waits on a lookup
  that is already answered or that this one goroutine is about to answer: none is left behind.
\<close>

theorem dns_single_flight:
  assumes "dns_reachable ttl negativeTTL s"
  shows "(\<exists>leader. {t. \<exists>fl r. ds_threads s t = Some (host, Resolving fl r)} \<subseteq> {leader}) \<and>
    {fl. \<exists>t stale. ds_threads s t = Some (host, Waiting fl stale)} \<subseteq>
      {fl. fl_done (dc_flights (ds_cache s) ! fl) \<or> (\<exists>t r. ds_threads s t = Some (host, Resolving fl r))}"
proof -
  have ok: "registered (view s)" "awaited (view s)" using dns_reachable_ok [OF assms] by (auto simp: flights_ok_def)
  have "t = t'" if "ds_threads s t = Some (host, Resolving fl r)" "ds_threads s t' = Some (host, Resolving fl' r')" for t t' fl fl' r r'
  proof -
    have l: "leading (view s) t host fl" "leading (view s) t' host fl'" using that by (simp_all add: leading_def view_def)
    with ok(1) show ?thesis unfolding registered_def by (metis option.inject)
  qed
  then have "\<exists>leader. {t. \<exists>fl r. ds_threads s t = Some (host, Resolving fl r)} \<subseteq> {leader}" by blast
  moreover have "fl_done (dc_flights (ds_cache s) ! fl) \<or> (\<exists>t r. ds_threads s t = Some (host, Resolving fl r))"
    if "ds_threads s t = Some (host, Waiting fl stale)" for t fl stale
    using ok(2) that by (fastforce simp: awaited_def view_def)
  ultimately show ?thesis by blast
qed

definition demo_lookup :: "nat \<Rightarrow> dns_state \<Rightarrow> dns_state" where
  "demo_lookup t s = (case join_flight (ds_cache s) ''h'' (Caller []) of (pc, c) \<Rightarrow>
     go t ''h'' pc c (go t ''h'' (Joining (Caller [])) (ds_cache s) s))"

lemma demo_lookup_steps:
  assumes "ds_threads s t = None" "dc_entries (ds_cache s) = Map.empty" "dc_negative (ds_cache s) = Map.empty"
  shows "dns_step\<^sup>*\<^sup>* s (demo_lookup t s)"
proof -
  have ip: "ParseIP ''h'' = None" by (simp add: ParseIP_def)
  have "lookup_cached 0 (ds_cache s) ''h'' = (Miss [], ds_cache s)"
    using assms by (simp add: lookup_cached_def ip)
  with assms(1) have "dns_step s (go t ''h'' (Joining (Caller [])) (ds_cache s) s)" by (rule dns_step.missed)
  moreover have "dns_step (go t ''h'' (Joining (Caller [])) (ds_cache s) s) (demo_lookup t s)"
    by (cases "join_flight (ds_cache s) ''h'' (Caller [])")
      (simp add: demo_lookup_def, rule dns_step.joined [where r = "Caller []"], simp_all add: go_def)
  ultimately show ?thesis by simp
qed

definition demo_waiting :: dns_state where
  "demo_waiting = demo_lookup 1 (demo_lookup 0 (dns_start 0 0))"

theorem dns_single_flight_witness:
  "ds_threads demo_waiting 0 = Some (''h'', Resolving 0 (Caller [])) \<and>
   ds_threads demo_waiting 1 = Some (''h'', Waiting 0 []) \<and>
   (\<exists>leader. {t. \<exists>fl r. ds_threads demo_waiting t = Some (''h'', Resolving fl r)} \<subseteq> {leader}) \<and>
   {fl. \<exists>t stale. ds_threads demo_waiting t = Some (''h'', Waiting fl stale)} \<subseteq>
     {fl. fl_done (dc_flights (ds_cache demo_waiting) ! fl) \<or> (\<exists>t r. ds_threads demo_waiting t = Some (''h'', Resolving fl r))}"
proof -
  note evaluate = demo_waiting_def demo_lookup_def join_flight_def dns_start_def NewDNSCache_def go_def Let_def
  have "dns_step\<^sup>*\<^sup>* (dns_start 0 0) (demo_lookup 0 (dns_start 0 0))"
    by (rule demo_lookup_steps) (simp_all add: dns_start_def NewDNSCache_def)
  moreover have "dns_step\<^sup>*\<^sup>* (demo_lookup 0 (dns_start 0 0)) demo_waiting"
    unfolding demo_waiting_def by (rule demo_lookup_steps) (simp_all add: evaluate)
  ultimately have "dns_reachable 0 0 demo_waiting" by (simp add: dns_reachable_def)
  from dns_single_flight [OF this, of "''h''"] show ?thesis by (simp add: evaluate)
qed

text \<open>A call that no other goroutine interferes with is a run of the transition system.\<close>

lemma go_go: "go t h pc c (go t h pc' c' s) = go t h pc c s"
  by (simp add: go_def)

lemma LookupHost_run:
  assumes "ds_threads s t = None" "dc_inflight (ds_cache s) host = None"
    "LookupHost resolver answer now (ds_cache s) host = (res, c)"
  shows "dns_step\<^sup>*\<^sup>* s (go t host (Finished (Some res)) c s)"
proof (cases "lookup_cached now (ds_cache s) host")
  case (Pair x cA)
  have frame: "dc_inflight cA = dc_inflight (ds_cache s)" using flights_frame(1) [OF Pair] by simp
  show ?thesis
  proof (cases x)
    case (Answer r wanted)
    then have "dns_step s (go t host (Finished (Some res)) c s)"
      using assms Pair dns_step.answered [OF assms(1), of now host r wanted cA] by (simp add: LookupHost_def)
    then show ?thesis by blast
  next
    case (Miss stale)
    obtain addrs err where r: "resolver host = (addrs, err)" by fastforce
    let ?fl = "length (dc_flights cA)" and ?cB = "snd (join_flight cA host (Caller stale))"
    let ?cC = "publish ?cB ?fl addrs err"
    have j: "join_flight cA host (Caller stale) = (Resolving ?fl (Caller stale), ?cB)"
      using assms(2) frame by (simp add: join_flight_def Let_def)
    have st: "store_result now (leave_flight ?cC host) host (Caller stale) addrs err = (Some res, c)"
      using assms(2,3) Pair Miss frame r by (simp add: LookupHost_def Let_def store_result_def)
    have at: "ds_threads (go t host pc d s) t = Some (host, pc)" "ds_cache (go t host pc d s) = d" for pc d
      by (simp_all add: go_def)
    have "dns_step s (go t host (Joining (Caller stale)) cA s)"
      using dns_step.missed [OF assms(1)] Pair Miss by simp
    also have "dns_step\<^sup>*\<^sup>* \<dots> (go t host (Resolving ?fl (Caller stale)) ?cB s)"
      using dns_step.joined [where s = "go t host (Joining (Caller stale)) (cA) s", OF at(1)] j by (auto simp: at go_go)
    also have "dns_step\<^sup>*\<^sup>* \<dots> (go t host (Leaving ?fl (Caller stale) addrs err) ?cC s)"
      using dns_step.resolved [where s = "go t host (Resolving ?fl (Caller stale)) (?cB) s", OF at(1)] by (auto simp: at go_go)
    also have "dns_step\<^sup>*\<^sup>* \<dots> (go t host (Storing (Caller stale) addrs err) (leave_flight ?cC host) s)"
      using dns_step.left [where s = "go t host (Leaving ?fl (Caller stale) addrs err) (?cC) s", OF at(1)] by (auto simp: at go_go)
    also have "dns_step\<^sup>*\<^sup>* \<dots> (go t host (Finished (Some res)) c s)"
      using dns_step.stored [where s = "go t host (Storing (Caller stale) addrs err) (leave_flight ?cC host) s", OF at(1)] st by (auto simp: at go_go)
    finally show ?thesis .
  qed
qed

section \<open>Entries\<close>

text \<open>While an entry is fresh its addresses are handed out in turn.\<close>

fun repeat_lookup :: "nat \<Rightarrow> int \<Rightarrow> DNSCache \<Rightarrow> bytes \<Rightarrow> lookup outcome list" where
  "repeat_lookup 0 now c host = []"
| "repeat_lookup (Suc n) now c host =
     (case lookup_cached now c host of
        (Answer res _, c) \<Rightarrow> res # repeat_lookup n now c host
      | (Miss _, c) \<Rightarrow> [])"

lemma round_robin:
  assumes "ParseIP host = None" "dc_negative c host = None" "dc_entries c host = Some e" "now < de_expires e"
    "de_addrs e \<noteq> []" "de_idx e + n \<le> 2 ^ 32"
  shows "repeat_lookup n now c host =
    map (\<lambda>k. Done (Inr [de_addrs e ! ((de_idx e + k) mod length (de_addrs e))])) [0..<n]"
  using assms(2-)
proof (induction n arbitrary: c e)
  case (Suc n)
  let ?e = "e\<lparr>de_idx := Suc (de_idx e)\<rparr>" and ?c = "c\<lparr>dc_entries := (dc_entries c)(host \<mapsto> e\<lparr>de_idx := u32 (int (de_idx e) + 1)\<rparr>)\<rparr>"
  have rest: "repeat_lookup n now ?c host = map (\<lambda>k. Done (Inr [de_addrs e ! ((Suc (de_idx e) + k) mod length (de_addrs e))])) [0..<n]"
  proof (cases n)
    case (Suc m)
    then have "u32 (int (de_idx e) + 1) = Suc (de_idx e)" using Suc.prems(5) by (simp add: u32_def nat_add_distrib)
    then show ?thesis using Suc.IH [of ?c ?e] Suc.prems by simp
  qed simp
  have "[0..<Suc n] = 0 # map Suc [0..<n]" by (simp add: map_Suc_upt upt_conv_Cons del: upt_Suc)
  with rest Suc.prems assms(1) show ?case
    by (simp add: lookup_cached_def entry_hit_def Let_def o_def del: upt_Suc)
qed simp

text \<open>After a sweep no entry that had expired is left, and the others are untouched.\<close>

lemma sweep_entries:
  "dc_entries (janitor_delete (expired now c) (expiredNeg now c) c) host =
     (case dc_entries c host of Some e \<Rightarrow> if now > de_expires e then None else Some e | None \<Rightarrow> None)"
  by (auto simp: janitor_delete_def expired_def split: option.split)

text \<open>
  A forced refresh does not end a negative answer: after Refresh has resolved a host and stored its
  addresses, LookupHost still fails with the negative-cache error until the negative entry expires.
\<close>

theorem refresh_keeps_negative:
  assumes "ParseIP host = None" "dc_negative c host = Some negExp" "now < negExp" "resolver host = Inr addrs"
  shows "fst (Refresh resolver now c host) = Inr addrs \<and>
    dc_entries (snd (Refresh resolver now c host)) host = Some \<lparr>de_addrs = addrs, de_expires = now + dc_ttl c, de_idx = 0\<rparr> \<and>
    fst (lookup_cached now (snd (Refresh resolver now c host)) host) = Answer (Done (Inl (negative_error host))) False"
  using assms by (simp add: Refresh_def lookup_cached_def)

definition demo_negative :: DNSCache where
  "demo_negative = snd (store_lookup 0 (NewDNSCache 0 0) ''h'' [] [] (Some (PlainError ''no such host'')))"

theorem refresh_keeps_negative_witness:
  "fst (Refresh (\<lambda>_. Inr [''10.0.0.1'']) 1 demo_negative ''h'') = Inr [''10.0.0.1''] \<and>
   fst (lookup_cached 1 (snd (Refresh (\<lambda>_. Inr [''10.0.0.1'']) 1 demo_negative ''h'')) ''h'') =
     Answer (Done (Inl (negative_error ''h''))) False"
  using refresh_keeps_negative [of "''h''" demo_negative "5 * Second" 1 "\<lambda>_. Inr [''10.0.0.1'']" "[''10.0.0.1'']"]
  by (simp add: demo_negative_def store_lookup_def NewDNSCache_def ParseIP_def)

end
