(* ===== verification/Dialer.thy ===== *)
theory Dialer
  imports Socks5 Proxy Dns
begin

text \<open>
  The dialer of \<^verbatim>\<open>dialer.go\<close> and \<^verbatim>\<open>dialer_linux.go\<close>: it chooses between a SOCKS5 proxy, an HTTP proxy and
  a direct connection, resolves names through the cache for the latter, and sets the socket options.
  The operating system is the record \<open>dial_env\<close>: what a TCP dial to an address returns, the
  result of setting a socket option, the resolver. The options whose result the code drops
  (keep-alive period, buffer sizes, those of applySocketOptions) do not influence the outcome.
\<close>

datatype sockopt = NoDelay bool | KeepAlive bool

record dial_env =
  ev_dial :: "bytes \<Rightarrow> goerror + netconn"
  ev_setopt :: "sockopt \<Rightarrow> goerror option"
  ev_resolver :: "bytes \<Rightarrow> bytes list \<times> goerror option"
  ev_flight :: "nat \<Rightarrow> dnsInflight"
  ev_now :: int

record Dialer =
  dl_config :: Config
  dl_proxy :: "ProxyDialer option"
  dl_socks5 :: "SOCKS5Dialer option"
  dl_dns :: "DNSCache option"

definition NewDialer :: "(bytes \<Rightarrow> goerror + proxy_url) \<Rightarrow> Config \<Rightarrow> goerror + Dialer" where
  "NewDialer parse config =
     (let dns = (if EnableDNSCache config then Some (NewDNSCache (DNSCacheTTL config) (DNSNegativeTTL config)) else None) in
      if SOCKS5Addr config \<noteq> [] then
        (case NewSOCKS5Dialer config of
           Inl e \<Rightarrow> Inl (WrapError ErrorTypeProxy ''failed to create SOCKS5 dialer'' e)
         | Inr s \<Rightarrow> Inr \<lparr>dl_config = config, dl_proxy = None, dl_socks5 = Some s, dl_dns = dns\<rparr>)
      else if ProxyURL config \<noteq> [] then
        (case NewProxyDialer parse config of
           Inl e \<Rightarrow> Inl (WrapError ErrorTypeProxy ''failed to create proxy dialer'' e)
         | Inr p \<Rightarrow> Inr \<lparr>dl_config = config, dl_proxy = Some p, dl_socks5 = None, dl_dns = dns\<rparr>)
      else Inr \<lparr>dl_config = config, dl_proxy = None, dl_socks5 = None, dl_dns = dns\<rparr>)"

definition IsForwardProxy :: "Dialer \<Rightarrow> bool \<Rightarrow> bool" where
  "IsForwardProxy d useTLS \<longleftrightarrow> dl_proxy d \<noteq> None \<and> \<not> useTLS"

definition ProxyAuthHeader :: "Dialer \<Rightarrow> bytes" where
  "ProxyAuthHeader d = (case dl_proxy d of Some p \<Rightarrow> px_authHeader p | None \<Rightarrow> [])"

definition Dialer_Stop :: "Dialer \<Rightarrow> Dialer" where
  "Dialer_Stop d = d\<lparr>dl_dns := map_option DNS_Stop (dl_dns d)\<rparr>"

section \<open>Socket options\<close>

text \<open>The setsockopt calls made before a direct connection: level, option, value.\<close>

definition tcpFastOpenConnect :: int where
  "tcpFastOpenConnect = 30"

definition soReusePort :: int where
  "soReusePort = 15"

definition applySocketOptions :: "Config \<Rightarrow> (int \<times> int \<times> int) list" where
  "applySocketOptions config =
     (if TCPFastOpen config then [(6, tcpFastOpenConnect, 1)] else []) @
     (if TCPReusePort config then [(1, soReusePort, 1)] else [])"

type_synonym dialed = "(goerror + netconn) \<times> netconn option"

definition configure_tcp :: "dial_env \<Rightarrow> Config \<Rightarrow> netconn \<Rightarrow> dialed" where
  "configure_tcp env config conn =
     (case ev_setopt env (NoDelay (TCPNoDelay config)) of
        Some e \<Rightarrow> (Inl (LogErrorWithFlag ErrorTypeInternal ''set TCP no delay failed'' e), Some (conn_Close conn))
      | None \<Rightarrow>
          if TCPKeepAlive config then
            (case ev_setopt env (KeepAlive True) of
               Some e \<Rightarrow> (Inl (LogErrorWithFlag ErrorTypeInternal ''set TCP keep alive failed'' e), Some (conn_Close conn))
             | None \<Rightarrow> (Inr conn, None))
          else (Inr conn, None))"

section \<open>Dialing\<close>

definition buildAddr :: "bytes \<Rightarrow> int \<Rightarrow> bytes outcome" where
  "buildAddr host port =
     (case (if port = 80 then Done ''80''
            else if port = 443 then Done ''443''
            else if port = 8080 then Done ''8080''
            else if port = 8443 then Done ''8443''
            else if port = 0 then Done ''0''
            else port_loop 8 (nat port) []) of
        Panic \<Rightarrow> Panic
      | Done portStr \<Rightarrow>
          Done (if CHR '':'' \<in> set host then ''['' @ host @ '']:'' @ portStr else host @ '':'' @ portStr))"

definition Dialer_DialForward :: "dial_env \<Rightarrow> Dialer \<Rightarrow> dialed" where
  "Dialer_DialForward env d =
     (case dl_proxy d of
        None \<Rightarrow> (Inl (WrapError ErrorTypeProxy ''no proxy configured for forward dial'' ErrProxyFailed), None)
      | Some p \<Rightarrow>
          (case ProxyDialer_DialForward (ev_dial env) p of
             Inl e \<Rightarrow> (Inl e, None)
           | Inr conn \<Rightarrow> configure_tcp env (dl_config d) conn))"

definition dial_host :: "Dialer \<Rightarrow> bytes \<Rightarrow> bytes" where
  "dial_host d host = (if host = [] then Host (dl_config d) else host)"

definition dial_port :: "Dialer \<Rightarrow> int \<Rightarrow> int" where
  "dial_port d port =
     (let port = (if port = 0 then Port (dl_config d) else port) in
      if port \<le> 0 then (if UseTLS (dl_config d) then 443 else 80) else port)"

text \<open>The name or address to dial directly: the first address of the cache, if it has one.\<close>

definition resolve_host :: "dial_env \<Rightarrow> Dialer \<Rightarrow> bytes \<Rightarrow> bytes outcome \<times> Dialer" where
  "resolve_host env d host =
     (case dl_dns d of
        None \<Rightarrow> (Done host, d)
      | Some dns \<Rightarrow>
          (case LookupHost (ev_resolver env) (ev_flight env) (ev_now env) dns host of (res, dns) \<Rightarrow>
             (case res of
                Panic \<Rightarrow> Panic
              | Done (Inl _) \<Rightarrow> Done host
              | Done (Inr []) \<Rightarrow> Done host
              | Done (Inr (a # _)) \<Rightarrow> Done a, d\<lparr>dl_dns := Some dns\<rparr>)))"

text \<open>What remains of DialAddr when one of the three ways has produced a connection or an error.\<close>

definition finish_dial :: "dial_env \<Rightarrow> Dialer \<Rightarrow> bytes \<Rightarrow> dialed \<Rightarrow> dialed" where
  "finish_dial env d message x =
     (case x of
        (Inl e, gone) \<Rightarrow> (Inl (LogErrorWithFlag (if message = ''dial failed'' then ErrorTypeNetwork else ErrorTypeProxy) message e), gone)
      | (Inr conn, _) \<Rightarrow> configure_tcp env (dl_config d) conn)"

definition Dialer_DialAddr :: "dial_env \<Rightarrow> Dialer \<Rightarrow> bytes \<Rightarrow> int \<Rightarrow> (dialed \<times> Dialer) outcome option" where
  "Dialer_DialAddr env d host port =
     (let host = dial_host d host; port = dial_port d port in
      case dl_socks5 d of
        Some s \<Rightarrow>
          map_option (\<lambda>x. Done (finish_dial env d ''SOCKS5 dial failed'' x, d)) (SOCKS5_Dial (ev_dial env) s host port)
      | None \<Rightarrow>
          (case dl_proxy d of
             Some p \<Rightarrow>
               map_option (\<lambda>x. case x of Panic \<Rightarrow> Panic | Done x \<Rightarrow> Done (finish_dial env d ''proxy dial failed'' x, d))
                 (Proxy_Dial (ev_dial env) p host port)
           | None \<Rightarrow>
               (case resolve_host env d host of
                  (Panic, d) \<Rightarrow> Some Panic
                | (Done dialHost, d) \<Rightarrow>
                    (case buildAddr dialHost port of
                       Panic \<Rightarrow> Some Panic
                     | Done address \<Rightarrow> Some (Done (finish_dial env d ''dial failed'' (ev_dial env address, None), d))))))"

definition Dialer_Dial :: "dial_env \<Rightarrow> Dialer \<Rightarrow> (dialed \<times> Dialer) outcome option" where
  "Dialer_Dial env d = Dialer_DialAddr env d [] 0"

section \<open>Addresses\<close>

definition addr_text :: "bytes \<Rightarrow> int \<Rightarrow> bytes" where
  "addr_text host port = (if CHR '':'' \<in> set host then ''['' @ host @ '']'' else host) @ '':'' @ itoa (nat port)"

lemma buildAddr_fits: "0 \<le> port \<Longrightarrow> port < 10 ^ 8 \<Longrightarrow> buildAddr host port = Done (addr_text host port)"
proof -
  assume p: "0 \<le> port" "port < 10 ^ 8"
  have "nat port < 10 ^ 8" using p by (simp add: nat_less_iff)
  from port_loop_fits [OF this, of "[]"] have "port_loop 8 (nat port) [] = Done (if port = 0 then [] else itoa (nat port))"
    using p(1) by (simp add: nat_eq_iff)
  then show ?thesis
    unfolding buildAddr_def addr_text_def using itoa_ports by (cases "port = 0") (auto split: if_splits)
qed

lemma buildAddr_overflows: "10 ^ 8 \<le> port \<Longrightarrow> buildAddr host port = Panic"
proof -
  assume p: "10 ^ 8 \<le> port"
  then have "10 ^ 8 \<le> nat port" by (simp add: le_nat_iff)
  then have o: "port_loop 8 (nat port) [] = Panic" by (rule port_loop_overflows)
  have "port \<noteq> 80" "port \<noteq> 443" "port \<noteq> 8080" "port \<noteq> 8443" "port \<noteq> 0" using p by auto
  then show ?thesis unfolding buildAddr_def o by simp
qed

section \<open>No connection is leaked\<close>

text \<open>A connection that was opened is returned, or closed when the dial fails.\<close>

definition no_leak :: "dialed \<Rightarrow> bool" where
  "no_leak x \<longleftrightarrow> (case x of (Inl _, Some c) \<Rightarrow> nc_closed c | (Inl _, None) \<Rightarrow> True | (Inr _, gone) \<Rightarrow> gone = None)"

lemma configure_tcp_no_leak: "no_leak (configure_tcp env config conn)"
  by (auto simp: configure_tcp_def no_leak_def conn_Close_def split: option.split)

lemma finish_dial_no_leak: "no_leak x \<Longrightarrow> no_leak (finish_dial env d m x)"
proof (cases x)
  case (Pair r gone)
  assume "no_leak x"
  with Pair show ?thesis
    by (cases r) (simp_all add: finish_dial_def configure_tcp_no_leak, simp add: no_leak_def)
qed

lemma SOCKS5_Dial_no_leak: "\<exists>x. SOCKS5_Dial dial s host port = Some x \<and> no_leak x"
proof (cases "dial (s5_proxyAddr s)")
  case (Inl e)
  then show ?thesis by (simp add: SOCKS5_Dial_def no_leak_def)
next
  case (Inr c)
  obtain x where x: "SOCKS5_Dial dial s host port = Some x" "gives_up x"
    using SOCKS5_Dial_returns [where dial = dial and d = s, OF Inr, of host port] by blast
  then have "no_leak x" by (cases x; cases "fst x"; cases "snd x") (auto simp: gives_up_def no_leak_def)
  with x show ?thesis by blast
qed

lemma Proxy_Dial_no_leak:
  assumes "0 \<le> port" "port < 10 ^ 12"
  shows "\<exists>x. Proxy_Dial dial p host port = Some (Done x) \<and> no_leak x"
proof (cases "dial (px_addr p)")
  case (Inl e)
  then show ?thesis using buildTarget_fits [OF assms, of host] by (simp add: Proxy_Dial_def no_leak_def)
next
  case (Inr c)
  obtain res gone where x: "Proxy_Dial dial p host port = Some (Done (res, gone))"
    "case res of Inl _ \<Rightarrow> (\<exists>c. gone = Some c \<and> nc_closed c) | Inr _ \<Rightarrow> gone = None"
    using Proxy_Dial_returns [where dial = dial and p = p, OF Inr assms, of host] by blast
  then have "no_leak (res, gone)" by (cases res) (auto simp: no_leak_def)
  with x show ?thesis by blast
qed

text \<open>
  C20. Dialing always returns and leaks nothing: whatever a SOCKS5 or HTTP proxy, the resolver and the
  operating system do, DialAddr ends for every port below one hundred million, and if it fails after a connection
  was opened that connection has been closed. (The resolver cache is assumed to hold no empty
  address list, which the resolver never returns without an error.)
\<close>

theorem DialAddr_no_leak:
  assumes "dial_port d port < 10 ^ 8" "\<exists>dialHost d'. resolve_host env d (dial_host d host) = (Done dialHost, d')"
  shows "\<exists>x d'. Dialer_DialAddr env d host port = Some (Done (x, d')) \<and> no_leak x"
proof -
  have p: "0 \<le> dial_port d port" "dial_port d port < 10 ^ 12" using assms(1) by (auto simp: dial_port_def Let_def)
  show ?thesis
  proof (cases "dl_socks5 d")
    case (Some s)
    obtain x where x: "SOCKS5_Dial (ev_dial env) s (dial_host d host) (dial_port d port) = Some x" "no_leak x"
      using SOCKS5_Dial_no_leak by blast
    with Some have "Dialer_DialAddr env d host port = Some (Done (finish_dial env d ''SOCKS5 dial failed'' x, d))"
      by (simp add: Dialer_DialAddr_def)
    with x(2) finish_dial_no_leak show ?thesis by blast
  next
    case None
    show ?thesis
    proof (cases "dl_proxy d")
      case (Some q)
      obtain x where x: "Proxy_Dial (ev_dial env) q (dial_host d host) (dial_port d port) = Some (Done x)" "no_leak x"
        using Proxy_Dial_no_leak [OF p] by blast
      with None Some have "Dialer_DialAddr env d host port = Some (Done (finish_dial env d ''proxy dial failed'' x, d))"
        by (simp add: Dialer_DialAddr_def)
      with x(2) finish_dial_no_leak show ?thesis by blast
    next
      case no_proxy: None
      obtain h d' where h: "resolve_host env d (dial_host d host) = (Done h, d')" using assms(2) by blast
      let ?x = "(ev_dial env (addr_text h (dial_port d port)), None)"
      have "Dialer_DialAddr env d host port = Some (Done (finish_dial env d' ''dial failed'' ?x, d'))"
        using None no_proxy h buildAddr_fits [OF p(1) assms(1), of h] by (simp add: Dialer_DialAddr_def)
      moreover have "no_leak ?x" by (cases "ev_dial env (addr_text h (dial_port d port))") (simp_all add: no_leak_def)
      ultimately show ?thesis using finish_dial_no_leak by blast
    qed
  qed
qed

definition demo_dial_env :: dial_env where
  "demo_dial_env = \<lparr>ev_dial = (\<lambda>_. Inr \<lparr>nc_in = [], nc_wr = [], nc_out = [], nc_closed = False\<rparr>),
     ev_setopt = (\<lambda>_. Some (PlainError ''EINVAL'')), ev_resolver = (\<lambda>_. ([], Some (PlainError ''timeout''))),
     ev_flight = (\<lambda>_. \<lparr>fl_done = True, fl_addrs = [], fl_err = None\<rparr>), ev_now = 0\<rparr>"

definition demo_dialer :: Dialer where
  "demo_dialer = \<lparr>dl_config = DefaultConfig, dl_proxy = None, dl_socks5 = None, dl_dns = Some (NewDNSCache 0 0)\<rparr>"

lemma demo_resolve: "\<exists>d'. resolve_host demo_dial_env demo_dialer ''h'' = (Done ''h'', d')"
  by (simp add: resolve_host_def demo_dialer_def demo_dial_env_def LookupHost_def lookup_cached_def NewDNSCache_def ParseIP_def
      store_lookup_def Let_def)

theorem DialAddr_no_leak_witness:
  "\<exists>x d'. Dialer_DialAddr demo_dial_env demo_dialer ''h'' 8080 = Some (Done (x, d')) \<and> no_leak x"
  by (rule DialAddr_no_leak) (use demo_resolve in \<open>auto simp: dial_port_def dial_host_def\<close>)

text \<open>
  A large port crashes the program: for a port of nine digits or more, which a URL may name, a
  direct dial indexes the eight-byte digit array of buildAddr out of range and panics, before any
  connection is attempted.
\<close>

theorem large_port_panics:
  assumes "10 ^ 8 \<le> port" "dl_socks5 d = None" "dl_proxy d = None"
  shows "Dialer_DialAddr env d host port = Some Panic"
proof -
  have "dial_port d port = port" using assms(1) by (simp add: dial_port_def)
  then show ?thesis
    using assms buildAddr_overflows [OF assms(1)] by (auto simp: Dialer_DialAddr_def split: prod.split outcome.split)
qed

theorem large_port_panics_witness:
  "fst (resolve_parsed (new_Request 8 8 0) \<lparr>Scheme = ''http'', Hostname = ''h'', url_Port = ''100000000'', RequestURI = ''/''\<rparr>) =
     (''h'', 100000000, False, ''/'', True) \<and>
   Dialer_DialAddr demo_dial_env demo_dialer ''h'' 100000000 = Some Panic"
proof
  show "Dialer_DialAddr demo_dial_env demo_dialer ''h'' 100000000 = Some Panic"
    by (rule large_port_panics) (simp_all add: demo_dialer_def)
  show "fst (resolve_parsed (new_Request 8 8 0) \<lparr>Scheme = ''http'', Hostname = ''h'', url_Port = ''100000000'', RequestURI = ''/''\<rparr>) =
     (''h'', 100000000, False, ''/'', True)"
    by (simp add: resolve_parsed_def ParseInt_def parse_uint_def hexval_def is_digit_def go_simps Let_def)
qed

text \<open>
  The negative cache does not spare the resolver: for a host that recently failed, LookupHost answers
  from the negative cache, but DialAddr ignores the error and dials the host by name, which makes the
  operating system resolve it again.
\<close>

theorem negative_host_dialed_by_name:
  assumes "dl_socks5 d = None" "dl_proxy d = None" "dl_dns d = Some dns" "host \<noteq> []" "ParseIP host = None"
    "dc_negative dns host = Some negExp" "ev_now env < negExp" "dial_port d port < 10 ^ 8"
  shows "fst (LookupHost (ev_resolver env) (ev_flight env) (ev_now env) dns host) = Done (Inl (negative_error host)) \<and>
    Dialer_DialAddr env d host port =
      Some (Done (finish_dial env d ''dial failed'' (ev_dial env (addr_text host (dial_port d port)), None), d))"
proof -
  have l: "LookupHost (ev_resolver env) (ev_flight env) (ev_now env) dns host = (Done (Inl (negative_error host)), dns)"
    using assms(5-7) by (simp add: LookupHost_def lookup_cached_def)
  have r: "resolve_host env d host = (Done host, d)" using assms(3) l by (simp add: resolve_host_def)
  have "0 \<le> dial_port d port" by (simp add: dial_port_def Let_def)
  then show ?thesis
    using assms(1,2,4) l r buildAddr_fits [OF _ assms(8), of host] by (simp add: Dialer_DialAddr_def Let_def dial_host_def)
qed

definition demo_failed :: Dialer where
  "demo_failed = snd (resolve_host demo_dial_env demo_dialer ''h'')"

theorem negative_host_dialed_by_name_witness:
  "Dialer_DialAddr demo_dial_env demo_failed ''h'' 8080 =
     Some (Done (finish_dial demo_dial_env demo_failed ''dial failed'' (ev_dial demo_dial_env (addr_text ''h'' 8080), None), demo_failed))"
proof -
  obtain dns where f: "demo_failed = demo_dialer\<lparr>dl_dns := Some dns\<rparr>" "dc_negative dns ''h'' = Some (5 * Second)"
    by (simp add: demo_failed_def resolve_host_def demo_dialer_def demo_dial_env_def LookupHost_def lookup_cached_def NewDNSCache_def
        ParseIP_def store_lookup_def leave_flight_def publish_def join_flight_def Let_def)
  have p: "dial_port demo_failed 8080 = 8080" by (simp add: dial_port_def)
  have g: "dl_socks5 demo_failed = None" "dl_proxy demo_failed = None" "dl_dns demo_failed = Some dns"
    by (simp_all add: f demo_dialer_def)
  have "ParseIP ''h'' = None" "ev_now demo_dial_env < 5 * Second" by (simp_all add: ParseIP_def demo_dial_env_def)
  with negative_host_dialed_by_name [OF g _ _ f(2), of demo_dial_env 8080] show ?thesis by (simp add: p)
qed

end
