(* ===== verification/Pipeline.thy ===== *)
theory Pipeline
  imports Exchange
begin

text \<open>
  Pipelining on a connection: doPipelined, startResponseReader and ResponseReader.run of
  \<^verbatim>\<open>connection.go\<close>. Writing a request and queueing it happens under one lock, and so is one operation
  (\<open>pipe_send\<close>); one pass of the reader's inner loop is \<open>reader_iter\<close>; a caller then takes its
  response, its error, or gives up when its context is done. The theory Ordering composes them into a
  transition system. A pending request is a number, the objects are in \<open>cn_pr\<close>; the responses given
  back through releaseFn are returned as a list.
\<close>

section \<open>Sending\<close>

definition startResponseReader :: "Connection \<Rightarrow> Connection" where
  "startResponseReader c =
     (if cn_readerStopped c \<or> cn_closing c \<or> cn_responseReader c \<noteq> None then c
      else if cn_conn c = None then c
      else c\<lparr>cn_responseReader := Some \<lparr>rr_buf = [], rr_err = None, rr_size = max (nat (cn_readBufSize c)) 16,
               rr_scratch = nat (cn_readBufSize c), rr_stop = False\<rparr>\<rparr>)"

definition closing_error :: goerror where
  "closing_error = WrapError ErrorTypeNetwork ''connection is closing'' ErrConnectFailed"

type_synonym sent = "(goerror option \<times> Connection \<times> Request) option"

definition not_sent :: "goerror \<Rightarrow> Connection \<Rightarrow> Request \<Rightarrow> sent" where
  "not_sent e c req = Some (Some e, c, req)"

definition new_pending :: "seq_env \<Rightarrow> Connection \<Rightarrow> Request \<Rightarrow> PendingRequest" where
  "new_pending env c req =
     \<lparr>pr_req = req, pr_response = None, pr_err = None, pr_cancelled = False, pr_releaseFn = False, pr_sentAt = 0,
      pr_resp = req_resp req, pr_readTimeout = effectiveReadTimeout (se_deadline env) (se_now env) c req,
      pr_method = Method req\<rparr>"

text \<open>The part under pendingMu, and the signal to the reader after it.\<close>

definition pipe_locked :: "seq_env \<Rightarrow> Connection \<Rightarrow> netconn \<Rightarrow> Request \<Rightarrow> nat \<Rightarrow> bytes \<Rightarrow> bool \<Rightarrow> int \<Rightarrow> sent" where
  "pipe_locked env c conn req i body compressed writeTimeout =
     (let p = new_pending env c req in
      if cn_closing c then not_sent closing_error c req
      else
        (let c = (if cn_responseReader c = None \<and> \<not> cn_readerStopped c then startResponseReader c else c);
             c = c\<lparr>cn_activeReqs := i32 (cn_activeReqs c + 1)\<rparr>
         in case Connection_writeRequest (se_wbuf env) c conn req body compressed writeTimeout of
              None \<Rightarrow> None
            | Some (Some e, conn) \<Rightarrow>
                not_sent e (closeConn (c\<lparr>cn_conn := Some conn, cn_activeReqs := i32 (cn_activeReqs c - 1)\<rparr>)) req
            | Some (None, conn) \<Rightarrow>
                Some (None,
                  c\<lparr>cn_conn := Some conn, cn_bytesWritten := i64 (cn_bytesWritten c + int (length body)),
                    cn_pendingReqs := cn_pendingReqs c @ [i],
                    cn_pr := (cn_pr c)(i \<mapsto> p\<lparr>pr_sentAt := se_now env\<rparr>), cn_pendingSignal := True\<rparr>, req)))"

definition pipe_prepared :: "seq_env \<Rightarrow> Connection \<Rightarrow> Request \<Rightarrow> nat \<Rightarrow> sent" where
  "pipe_prepared env c req i =
     (case prepareBody (se_gzip env) c req of
        (Inl e, req) \<Rightarrow> not_sent e c req
      | (Inr (body, compressed), req) \<Rightarrow>
          (let writeTimeout = (if req_WriteTimeout req = 0 then WriteTimeout (cn_config c) else req_WriteTimeout req) in
           case request_done env req of
             Some e \<Rightarrow> not_sent (WrapError ErrorTypeTimeout ''request cancelled before write'' e) c req
           | None \<Rightarrow>
               (case cn_conn c of
                  None \<Rightarrow> not_sent (WrapError ErrorTypeNetwork ''connection is nil'' ErrConnectFailed) c req
                | Some conn \<Rightarrow> pipe_locked env c conn req i body compressed writeTimeout)))"

definition pipe_send :: "seq_env \<Rightarrow> Connection \<Rightarrow> Request \<Rightarrow> nat \<Rightarrow> sent" where
  "pipe_send env c req i =
     (if cn_closing c then not_sent closing_error c req
      else if MaxRequestsPerConn (cn_config c) > 0 \<and> cn_reqsOnConn c \<ge> MaxRequestsPerConn (cn_config c) then
        (case ensureConnection (se_net env) (se_now env) (closeConn c) of
           (False, c) \<Rightarrow> not_sent (WrapError ErrorTypeNetwork ''connection not available after rotation'' ErrConnectFailed) c req
         | (True, c) \<Rightarrow> pipe_prepared env c req i)
      else pipe_prepared env c req i)"

section \<open>Waiting\<close>

text \<open>The three cases of the select: the response, the error, the end of the caller's context.\<close>

definition pipe_response :: "Connection \<Rightarrow> nat \<Rightarrow> (Response \<times> Connection) option" where
  "pipe_response c i =
     (case cn_pr c i of
        None \<Rightarrow> None
      | Some p \<Rightarrow> map_option (\<lambda>r. (r, c\<lparr>cn_pr := (cn_pr c)(i \<mapsto> p\<lparr>pr_response := None\<rparr>)\<rparr>)) (pr_response p))"

definition pipe_error :: "Connection \<Rightarrow> nat \<Rightarrow> (goerror \<times> Connection) option" where
  "pipe_error c i =
     (case cn_pr c i of
        None \<Rightarrow> None
      | Some p \<Rightarrow> map_option (\<lambda>e. (e, c\<lparr>cn_pr := (cn_pr c)(i \<mapsto> p\<lparr>pr_err := None\<rparr>)\<rparr>)) (pr_err p))"

definition pipe_cancel :: "Connection \<Rightarrow> nat \<Rightarrow> (goerror \<times> Connection) option" where
  "pipe_cancel c i =
     (case cn_pr c i of
        None \<Rightarrow> None
      | Some p \<Rightarrow>
          Some (errRespTransferred, c\<lparr>cn_pr := (cn_pr c)(i \<mapsto> p\<lparr>pr_releaseFn := req_releaseFn (pr_req p), pr_cancelled := True\<rparr>)\<rparr>))"

section \<open>The reader\<close>

text \<open>\<open>Idle\<close>: nothing is pending, the reader waits for a signal; \<open>Exited\<close>: the goroutine has ended.\<close>

datatype iteration = Idle | Again | Exited

type_synonym iterated = "(iteration \<times> netconn bufio \<times> Connection \<times> Response list) outcome option"

definition update_pr :: "nat \<Rightarrow> (PendingRequest \<Rightarrow> PendingRequest) \<Rightarrow> Connection \<Rightarrow> Connection" where
  "update_pr i f c = c\<lparr>cn_pr := (cn_pr c)(i := map_option f (cn_pr c i))\<rparr>"

definition retire :: "nat \<Rightarrow> Connection \<Rightarrow> Connection" where
  "retire i c = removePending i (c\<lparr>cn_activeReqs := i32 (cn_activeReqs c - 1)\<rparr>)"

text \<open>Handing the response over: to the caller, or back to its pool if the caller has gone.\<close>

definition hand_over :: "nat \<Rightarrow> PendingRequest \<Rightarrow> Response \<Rightarrow> Connection \<Rightarrow> Connection \<times> Response list" where
  "hand_over i p resp c =
     (if \<not> pr_cancelled p then (update_pr i (send_response resp) c, [])
      else (c, if pr_releaseFn p then [resp] else []))"

definition after_response :: "nat \<Rightarrow> PendingRequest \<Rightarrow> Response \<Rightarrow> netconn bufio \<Rightarrow> Connection \<Rightarrow> iterated" where
  "after_response i p resp br c =
     (case hand_over i p resp c of (c, rel) \<Rightarrow>
        if isConnectionClose resp then Some (Done (Exited, br, closeConn c, rel))
        else Some (Done (Again, br, c, rel)))"

definition after_failure :: "nat \<Rightarrow> PendingRequest \<Rightarrow> Response \<Rightarrow> goerror \<Rightarrow> netconn bufio \<Rightarrow> Connection \<Rightarrow> iterated" where
  "after_failure i p resp err br c =
     (let c = recordError c in
      if pr_cancelled p then Some (Done (Exited, br, closeConn c, if pr_releaseFn p then [resp] else []))
      else Some (Done (Exited, br, update_pr i (send_err (read_failure err)) (closeConn c), [])))"

definition reader_iter :: "seq_env \<Rightarrow> nat \<Rightarrow> netconn bufio \<Rightarrow> Connection \<Rightarrow> iterated" where
  "reader_iter env scratch br c =
     (case cn_pendingReqs c of
        [] \<Rightarrow> Some (Done (Idle, br, c, []))
      | i # _ \<Rightarrow>
          if cn_closing c then Some (Done (Exited, br, c, []))
          else
            (case cn_pr c i of
               None \<Rightarrow> Some Panic
             | Some p \<Rightarrow>
                 (case pr_resp p of
                    None \<Rightarrow>
                      (let c = retire i c;
                           c = (if \<not> pr_cancelled p
                                then update_pr i (send_err (WrapError ErrorTypeInternal ''response object is nil'' ErrInvalidResponse)) c
                                else c)
                       in Some (Done (Again, br, c, [])))
                  | Some resp \<Rightarrow>
                      (case readResponseBuffered conn_Read (se_gunzip env) br scratch (Response_Reset resp) (cn_maxRespSize c) (pr_method p) of
                         None \<Rightarrow> None
                       | Some Panic \<Rightarrow> Some Panic
                       | Some (Done (e, resp, br)) \<Rightarrow>
                           (let c = retire i c in
                            case e of
                              Some err \<Rightarrow>
                                if StatusCode resp > 0 then after_response i p resp br (finish (se_now env) c)
                                else after_failure i p resp err br c
                            | None \<Rightarrow>
                                (let c = finish (se_now env) c;
                                     c = (if pr_sentAt p > 0 then recordSuccess (i64 (se_now env - pr_sentAt p)) c else c);
                                     c = c\<lparr>cn_bytesRead := i64 (cn_bytesRead c + ContentLength resp)\<rparr>
                                 in after_response i p resp br c))))))"

text \<open>The buffered reader of the goroutine reads the network connection of the Connection.\<close>

definition reader_of :: "ResponseReader \<Rightarrow> netconn \<Rightarrow> netconn bufio" where
  "reader_of rr conn = \<lparr>b_buf = rr_buf rr, b_err = rr_err rr, b_rd = conn, b_size = rr_size rr\<rparr>"

definition put_reader :: "netconn bufio \<Rightarrow> Connection \<Rightarrow> Connection" where
  "put_reader br c =
     (case cn_responseReader c of
        None \<Rightarrow> c
      | Some rr \<Rightarrow> c\<lparr>cn_conn := Some (b_rd br), cn_responseReader := Some (rr\<lparr>rr_buf := b_buf br, rr_err := b_err br, rr_size := b_size br\<rparr>)\<rparr>)"

definition run_reader :: "seq_env \<Rightarrow> Connection \<Rightarrow> (iteration \<times> Connection \<times> Response list) outcome option" where
  "run_reader env c =
     (case (cn_responseReader c, cn_conn c) of
        (Some rr, Some conn) \<Rightarrow>
          map_option (outcome_map (\<lambda>(it, br, c, rel). (it, put_reader br c, rel)))
            (reader_iter env (rr_scratch rr) (reader_of rr conn) c)
      | _ \<Rightarrow> Some (Done (Exited, c, [])))"

section \<open>Do\<close>

text \<open>What Do does before it enters one of the two modes: the sequential exchange, or a pipelined send.\<close>

definition connection_failed :: goerror where
  "connection_failed = WrapError ErrorTypeNetwork ''connection failed'' ErrConnectFailed"

definition Do_sequential :: "seq_env \<Rightarrow> Connection \<Rightarrow> Request \<Rightarrow> exchange" where
  "Do_sequential env c req =
     (case ensureConnection (se_net env) (se_now env) c of
        (False, c) \<Rightarrow> failed connection_failed c req
      | (True, c) \<Rightarrow> doSequential env c req)"

definition Do_pipelined :: "seq_env \<Rightarrow> Connection \<Rightarrow> Request \<Rightarrow> nat \<Rightarrow> sent" where
  "Do_pipelined env c req i =
     (case ensureConnection (se_net env) (se_now env) c of
        (False, c) \<Rightarrow> not_sent connection_failed c req
      | (True, c) \<Rightarrow> pipe_send env c req i)"

end
