(* ===== verification/Ordering.thy ===== *)
theory Ordering
  imports Pipeline Sequential
begin

text \<open>
  Pipelining as a transition system: callers send requests, take their answers or give up, the reader
  goroutine runs its loop, the connection may be closed at any moment, in any order. It refines an
  abstract queue in which the next reply belongs to the request that has waited longest. One
  generation of the network connection is considered: requests do not rotate it.
\<close>

section \<open>The abstract queue\<close>

text \<open>Requests wait in a queue; a reply, known by its number on the wire, is assigned to the first.\<close>

record queue_spec =
  sp_waiting :: "nat list"
  sp_next :: nat
  sp_served :: nat
  sp_answer :: "nat \<rightharpoonup> nat"
  sp_open :: bool

inductive spec_step :: "queue_spec \<Rightarrow> queue_spec \<Rightarrow> bool" where
  submit: "sp_open a \<Longrightarrow> spec_step a (a\<lparr>sp_waiting := sp_waiting a @ [sp_next a], sp_next := Suc (sp_next a)\<rparr>)"
| serve: "sp_open a \<Longrightarrow> sp_waiting a = i # w \<Longrightarrow>
    spec_step a (a\<lparr>sp_waiting := w, sp_served := Suc (sp_served a), sp_answer := (sp_answer a)(i \<mapsto> sp_served a)\<rparr>)"
| shut: "spec_step a (a\<lparr>sp_waiting := [], sp_open := False\<rparr>)"

definition spec_start :: queue_spec where
  "spec_start = \<lparr>sp_waiting = [], sp_next = 0, sp_served = 0, sp_answer = Map.empty, sp_open = True\<rparr>"

text \<open>In the abstract queue request \<open>i\<close> can only get reply \<open>i\<close>.\<close>

definition in_order :: "queue_spec \<Rightarrow> bool" where
  "in_order a \<longleftrightarrow> (\<not> sp_open a \<longrightarrow> sp_waiting a = []) \<and> (sp_open a \<longrightarrow> sp_served a \<le> sp_next a \<and> sp_waiting a = [sp_served a..<sp_next a]) \<and>
     (\<forall>i k. sp_answer a i = Some k \<longrightarrow> k = i \<and> i < sp_next a)"

lemma spec_step_in_order: "spec_step a b \<Longrightarrow> in_order a \<Longrightarrow> in_order b"
proof (induction rule: spec_step.induct)
  case (serve a i w)
  then have w: "[sp_served a..<sp_next a] = i # w" by (simp add: in_order_def)
  then have "sp_served a < sp_next a" by (cases "sp_served a < sp_next a") auto
  with w have "i = sp_served a" "w = [Suc (sp_served a)..<sp_next a]" by (auto simp: upt_conv_Cons)
  with serve \<open>sp_served a < sp_next a\<close> show ?case by (auto simp: in_order_def)
qed (auto simp: in_order_def less_Suc_eq)

lemma spec_in_order: "spec_step\<^sup>*\<^sup>* spec_start a \<Longrightarrow> in_order a"
proof (induction rule: rtranclp_induct)
  case base
  then show ?case by (simp add: in_order_def spec_start_def)
qed (blast intro: spec_step_in_order)

section \<open>The connection and its goroutines\<close>

text \<open>What the server answers: a header block, a body in some framing, the content after decompression.\<close>

record reply =
  rp_head :: bytes
  rp_body :: wire_body
  rp_out :: bytes

definition wire_bytes :: "reply \<Rightarrow> bytes" where
  "wire_bytes r = rp_head r @ render_body (rp_body r)"

definition fits :: "(bytes \<Rightarrow> gunzip_result) \<Rightarrow> Connection \<Rightarrow> bytes \<Rightarrow> Response option \<Rightarrow> reply \<Rightarrow> bool" where
  "fits gz c meth object r \<longleftrightarrow>
     wire_ok meth (rp_head r) (rp_body r) \<and> length (rp_head r) \<le> nat (cn_readBufSize c) \<and>
     (cn_maxRespSize c \<le> 0 \<or> int (length (body_data (rp_body r))) \<le> cn_maxRespSize c) \<and>
     content gz (head_fields (rp_head r)) (body_data (rp_body r)) = Some (rp_out r) \<and>
     (case object of
        None \<Rightarrow> False
      | Some resp \<Rightarrow> room (Response_Reset resp) (rp_body r) \<and> within_limit (Response_Reset resp) (length (rp_out r)))"

definition answers :: "Response \<Rightarrow> reply \<Rightarrow> bool" where
  "answers resp r \<longleftrightarrow> carries resp (fst (parseStatusCode (rp_head r))) (head_fields (rp_head r)) (rp_out r)"

record pipe =
  pp_conn :: Connection
  pp_busy :: bool
  pp_next :: nat
  pp_results :: "nat \<rightharpoonup> goerror + Response"

inductive pipe_step :: "(bytes \<Rightarrow> gunzip_result) \<Rightarrow> reply list \<Rightarrow> pipe \<Rightarrow> pipe \<Rightarrow> bool" for gz replies where
  sent: "pp_next s < length replies \<Longrightarrow> fits gz (pp_conn s) (Method req) (req_resp req) (replies ! pp_next s) \<Longrightarrow>
    MaxRequestsPerConn (cn_config (pp_conn s)) \<le> 0 \<Longrightarrow>
    pipe_send env (pp_conn s) req (pp_next s) = Some (None, c, req') \<Longrightarrow>
    pipe_step gz replies s (s\<lparr>pp_conn := c, pp_next := Suc (pp_next s)\<rparr>)"
| refused: "MaxRequestsPerConn (cn_config (pp_conn s)) \<le> 0 \<Longrightarrow>
    pipe_send env (pp_conn s) req (pp_next s) = Some (Some e, c, req') \<Longrightarrow> pipe_step gz replies s (s\<lparr>pp_conn := c\<rparr>)"
| woken: "cn_responseReader (pp_conn s) \<noteq> None \<Longrightarrow> \<not> pp_busy s \<Longrightarrow> cn_pendingSignal (pp_conn s) \<Longrightarrow>
    pipe_step gz replies s (s\<lparr>pp_conn := (pp_conn s)\<lparr>cn_pendingSignal := False\<rparr>, pp_busy := True\<rparr>)"
| read: "pp_busy s \<Longrightarrow> se_gunzip env = gz \<Longrightarrow> run_reader env (pp_conn s) = Some (Done (it, c, rel)) \<Longrightarrow>
    pipe_step gz replies s (s\<lparr>pp_conn := c, pp_busy := (it = Again)\<rparr>)"
| received: "pp_results s i = None \<Longrightarrow> pipe_response (pp_conn s) i = Some (r, c) \<Longrightarrow>
    pipe_step gz replies s (s\<lparr>pp_conn := c, pp_results := (pp_results s)(i \<mapsto> Inr r)\<rparr>)"
| errored: "pp_results s i = None \<Longrightarrow> pipe_error (pp_conn s) i = Some (e, c) \<Longrightarrow>
    pipe_step gz replies s (s\<lparr>pp_conn := c, pp_results := (pp_results s)(i \<mapsto> Inl e)\<rparr>)"
| cancelled: "pp_results s i = None \<Longrightarrow> pipe_cancel (pp_conn s) i = Some (e, c) \<Longrightarrow>
    pipe_step gz replies s (s\<lparr>pp_conn := c, pp_results := (pp_results s)(i \<mapsto> Inl e)\<rparr>)"
| stopped: "pipe_step gz replies s (s\<lparr>pp_conn := closeConn (pp_conn s)\<rparr>)"

text \<open>The buffered stream the responses are read from; a reader that does not exist yet would start empty.\<close>

definition stream :: "Connection \<Rightarrow> netconn \<Rightarrow> netconn bufio" where
  "stream c conn =
     (case cn_responseReader c of
        None \<Rightarrow> NewReaderSize conn (nat (cn_readBufSize c))
      | Some rr \<Rightarrow> reader_of rr conn)"

definition stream_ok :: "Connection \<Rightarrow> reply list \<Rightarrow> bool" where
  "stream_ok c rs \<longleftrightarrow> (\<exists>conn rest. cn_conn c = Some conn \<and>
     bufio_pending conn_pending (stream c conn) = concat (map wire_bytes rs) @ rest \<and>
     bufio_safe conn_safe (stream c conn) (length (concat (map wire_bytes rs))))"

text \<open>A connection just opened to a server that will answer the requests in order with these replies.\<close>

definition opened :: "reply list \<Rightarrow> Connection \<Rightarrow> bool" where
  "opened replies c \<longleftrightarrow> \<not> cn_closing c \<and> \<not> cn_readerStopped c \<and> cn_responseReader c = None \<and> cn_pendingReqs c = [] \<and>
     cn_pr c = Map.empty \<and> cn_activeReqs c = 0 \<and> stream_ok c replies \<and> length replies < 2 ^ 31"

definition pipe_start :: "Connection \<Rightarrow> pipe" where
  "pipe_start c = \<lparr>pp_conn = c, pp_busy = False, pp_next = 0, pp_results = Map.empty\<rparr>"

section \<open>What the operations change\<close>

lemma bookkeeping_pipe [simp]:
  "cn_pendingReqs (finish n c) = cn_pendingReqs c" "cn_pr (finish n c) = cn_pr c" "cn_closing (finish n c) = cn_closing c"
  "cn_responseReader (finish n c) = cn_responseReader c" "cn_pendingSignal (finish n c) = cn_pendingSignal c"
  "cn_readBufSize (finish n c) = cn_readBufSize c" "cn_maxRespSize (finish n c) = cn_maxRespSize c"
  "cn_readerStopped (finish n c) = cn_readerStopped c"
  "cn_pendingReqs (recordSuccess t c) = cn_pendingReqs c" "cn_pr (recordSuccess t c) = cn_pr c" "cn_closing (recordSuccess t c) = cn_closing c"
  "cn_responseReader (recordSuccess t c) = cn_responseReader c" "cn_pendingSignal (recordSuccess t c) = cn_pendingSignal c"
  "cn_readBufSize (recordSuccess t c) = cn_readBufSize c" "cn_maxRespSize (recordSuccess t c) = cn_maxRespSize c"
  "cn_readerStopped (recordSuccess t c) = cn_readerStopped c"
  by (simp_all add: finish_def updateTimeCache_def recordSuccess_def advanceHealthWindow_def tunePipelineDepth_def Let_def)

lemma Connection_writeRequest_in:
  "Connection_writeRequest wbuf c conn req body z wt = Some (e, conn') \<Longrightarrow>
     nc_in conn' = nc_in conn \<and> nc_closed conn' = nc_closed conn"
proof -
  have b: "nc_in c' = nc_in c \<and> nc_closed c' = nc_closed c" if "Buffers_WriteTo c bs = (e, c')" for c bs e c'
    using Buffers_WriteTo_result [of c bs] that by auto
  have w: "nc_in c' = nc_in c \<and> nc_closed c' = nc_closed c" if "writeAll c bs = Some (e, c')" for c bs e c'
    using writeAll_result [of c bs] that by auto
  show "Connection_writeRequest wbuf c conn req body z wt = Some (e, conn') \<Longrightarrow> ?thesis"
    by (auto simp: Connection_writeRequest_def simp del: Buffers_WriteTo.simps
        split: if_splits option.splits sum.splits prod.splits dest!: b w)
qed

lemma prepareBody_keeps:
  "prepareBody gzip c req = (x, req') \<Longrightarrow> Method req' = Method req \<and> req_resp req' = req_resp req"
  by (auto simp: prepareBody_def ensureBodyBufferSize_def Let_def split: if_splits option.splits prod.splits sum.splits)

text \<open>A successful send: the request is queued, the stream of responses is as before.\<close>

definition queued :: "Connection \<Rightarrow> Request \<Rightarrow> nat \<Rightarrow> Connection \<Rightarrow> bool" where
  "queued c req i c' \<longleftrightarrow>
     \<not> cn_closing c \<and> \<not> cn_closing c' \<and> cn_readerStopped c' = cn_readerStopped c \<and>
     cn_activeReqs c' = i32 (cn_activeReqs c + 1) \<and> cn_pendingReqs c' = cn_pendingReqs c @ [i] \<and> cn_pendingSignal c' \<and>
     cn_readBufSize c' = cn_readBufSize c \<and> cn_maxRespSize c' = cn_maxRespSize c \<and>
     (cn_readerStopped c \<or> cn_responseReader c' \<noteq> None) \<and>
     (\<forall>rr. cn_responseReader c' = Some rr \<longrightarrow> cn_responseReader c = Some rr \<or> rr_scratch rr = nat (cn_readBufSize c)) \<and>
     (\<exists>p. cn_pr c' = (cn_pr c)(i \<mapsto> p) \<and> pr_method p = Method req \<and> pr_resp p = req_resp req \<and> pr_response p = None \<and>
       \<not> pr_cancelled p) \<and>
     (\<forall>rs. stream_ok c rs \<longrightarrow> stream_ok c' rs)"

lemma stream_cong:
  "cn_responseReader c' = cn_responseReader c \<Longrightarrow> cn_readBufSize c' = cn_readBufSize c \<Longrightarrow> stream c' conn = stream c conn"
  by (simp add: stream_def split: option.split)

lemma stream_frame:
  assumes "nc_in conn' = nc_in conn" "nc_closed conn' = nc_closed conn"
  shows "bufio_pending conn_pending (stream c conn') = bufio_pending conn_pending (stream c conn)"
    "bufio_safe conn_safe (stream c conn') = bufio_safe conn_safe (stream c conn)"
  using assms
  by (auto simp: stream_def bufio_pending_def bufio_safe_def fun_eq_iff NewReaderSize_def reader_of_def conn_pending_def conn_safe_def
      split: option.split)

lemma startResponseReader_keeps:
  "stream (startResponseReader c) conn = stream c conn"
  "cn_conn c \<noteq> None \<Longrightarrow> \<not> cn_closing c \<Longrightarrow> \<not> cn_readerStopped c \<Longrightarrow> cn_responseReader (startResponseReader c) \<noteq> None"
  by (auto simp: startResponseReader_def stream_def NewReaderSize_def reader_of_def split: option.split)

lemma pipe_locked_queued:
  assumes "pipe_locked env c conn req i body z wt = Some (None, c', req')" "cn_conn c = Some conn"
  shows "queued c req i c'"
proof -
  define c0 where "c0 = (if cn_responseReader c = None \<and> \<not> cn_readerStopped c then startResponseReader c else c)"
  define rr where "rr = cn_responseReader c0"
  have c0: "c0 = c\<lparr>cn_responseReader := rr\<rparr>" by (simp add: rr_def c0_def startResponseReader_def)
  have st: "stream c0 conn' = stream c conn'" for conn' by (simp add: c0_def startResponseReader_keeps(1))
  have rd: "\<not> cn_closing c \<Longrightarrow> cn_readerStopped c \<or> rr \<noteq> None"
    using startResponseReader_keeps(2) [of c] assms(2) by (auto simp: rr_def c0_def)
  have sc: "rr = Some q \<Longrightarrow> cn_responseReader c = Some q \<or> rr_scratch q = nat (cn_readBufSize c)" for q
    by (auto simp: rr_def c0_def startResponseReader_def split: if_splits)
  obtain conn' where w: "\<not> cn_closing c"
      "Connection_writeRequest (se_wbuf env) (c0\<lparr>cn_activeReqs := i32 (cn_activeReqs c0 + 1)\<rparr>) conn req body z wt = Some (None, conn')"
    and c': "c' = c0\<lparr>cn_activeReqs := i32 (cn_activeReqs c0 + 1), cn_conn := Some conn',
        cn_bytesWritten := i64 (cn_bytesWritten c0 + int (length body)), cn_pendingReqs := cn_pendingReqs c0 @ [i],
        cn_pr := (cn_pr c0)(i \<mapsto> (new_pending env c req)\<lparr>pr_sentAt := se_now env\<rparr>), cn_pendingSignal := True\<rparr>"
    using assms(1) unfolding pipe_locked_def Let_def c0_def [symmetric]
    by (auto simp: not_sent_def split: if_splits option.splits)
  from Connection_writeRequest_in [OF w(2)] have io: "nc_in conn' = nc_in conn" "nc_closed conn' = nc_closed conn" by auto
  have "stream c' conn' = stream c0 conn'" by (rule stream_cong) (simp_all add: c')
  then have s': "stream c' conn' = stream c conn'" using st by simp
  have "stream_ok c rs \<longrightarrow> stream_ok c' rs" for rs
    using assms(2) stream_frame [OF io] s' by (auto simp: stream_ok_def c')
  with w(1) rd sc show ?thesis by (auto simp: queued_def c' c0 new_pending_def)
qed

lemma pipe_send_queued:
  assumes "pipe_send env c req i = Some (None, c', req')" "MaxRequestsPerConn (cn_config c) \<le> 0"
  shows "queued c req i c'"
proof -
  have "pipe_prepared env c req i = Some (None, c', req')"
    using assms by (auto simp: pipe_send_def not_sent_def split: if_splits)
  then obtain body z req0 conn wt where
    "prepareBody (se_gzip env) c req = (Inr (body, z), req0)" "cn_conn c = Some conn"
    "pipe_locked env c conn req0 i body z wt = Some (None, c', req')"
    by (auto simp: pipe_prepared_def not_sent_def Let_def split: prod.splits sum.splits option.splits)
  with pipe_locked_queued [of env c conn req0 i body z wt c' req'] prepareBody_keeps show ?thesis
    by (fastforce simp: queued_def)
qed

text \<open>A send that fails leaves the connection alone or closes it.\<close>

lemma pipe_send_refused:
  assumes "pipe_send env c req i = Some (Some e, c', req')" "MaxRequestsPerConn (cn_config c) \<le> 0"
  shows "c' = c \<or> (\<not> cn_closing c \<and> (\<exists>c0. c' = closeConn c0 \<and> cn_closing c0 = False \<and> cn_pr c0 = cn_pr c \<and> cn_pendingReqs c0 = cn_pendingReqs c))"
proof -
  have start: "cn_pr (startResponseReader c) = cn_pr c" "cn_pendingReqs (startResponseReader c) = cn_pendingReqs c"
    "cn_closing (startResponseReader c) = cn_closing c"
    by (simp_all add: startResponseReader_def)
  have locked: "c' = c \<or> (\<not> cn_closing c \<and> (\<exists>c0. c' = closeConn c0 \<and> cn_closing c0 = False \<and> cn_pr c0 = cn_pr c \<and> cn_pendingReqs c0 = cn_pendingReqs c))"
    if "pipe_locked env c conn req0 i body z wt = Some (Some e, c', req')" for conn req0 body z wt
    using that start
    by (auto simp: pipe_locked_def not_sent_def Let_def split: if_splits option.splits)
  show ?thesis
    using assms by (auto simp: pipe_send_def pipe_prepared_def not_sent_def Let_def split: if_splits prod.splits sum.splits option.splits dest: locked)
qed

text \<open>A pass of the reader over a reply that fits: the first request gets it, the stream moves past it.\<close>

definition served :: "Connection \<Rightarrow> nat \<Rightarrow> PendingRequest \<Rightarrow> Response \<Rightarrow> Connection \<Rightarrow> bool" where
  "served c i p resp c' \<longleftrightarrow>
     cn_activeReqs c' = i32 (cn_activeReqs c - 1) \<and> cn_pendingReqs c' = remove1 i (cn_pendingReqs c) \<and>
     cn_closing c' = cn_closing c \<and> cn_readerStopped c' = cn_readerStopped c \<and> cn_pendingSignal c' = cn_pendingSignal c \<and>
     cn_readBufSize c' = cn_readBufSize c \<and> cn_maxRespSize c' = cn_maxRespSize c \<and> cn_conn c' = cn_conn c \<and>
     cn_responseReader c' = cn_responseReader c \<and>
     cn_pr c' = (if pr_cancelled p then cn_pr c else (cn_pr c)(i \<mapsto> send_response resp p))"

lemma reader_iter_serves:
  assumes "cn_pendingReqs c = i # w" "\<not> cn_closing c" "cn_pr c i = Some p"
    "fits (se_gunzip env) c (pr_method p) (pr_resp p) r" "scratch = nat (cn_readBufSize c)"
    "bufio_pending conn_pending br = wire_bytes r @ s" "bufio_safe conn_safe br (length (wire_bytes r) + n)"
  shows "\<exists>resp br' c' rel. answers resp r \<and> served c i p resp c' \<and> bufio_pending conn_pending br' = s \<and> bufio_safe conn_safe br' n \<and>
    reader_iter env scratch br c =
      Some (Done (if isConnectionClose resp then (Exited, br', closeConn c', rel) else (Again, br', c', rel)))"
proof -
  obtain object where o: "pr_resp p = Some object" using assms(4) by (auto simp: fits_def split: option.splits)
  have f: "wire_ok (pr_method p) (rp_head r) (rp_body r)" "length (rp_head r) \<le> scratch"
    "cn_maxRespSize c \<le> 0 \<or> int (length (body_data (rp_body r))) \<le> cn_maxRespSize c"
    "room (Response_Reset object) (rp_body r)" "content (se_gunzip env) (head_fields (rp_head r)) (body_data (rp_body r)) = Some (rp_out r)"
    "within_limit (Response_Reset object) (length (rp_out r))"
    using assms(4,5) o by (auto simp: fits_def)
  have st: "bufio_pending conn_pending br = rp_head r @ render_body (rp_body r) @ s"
    "bufio_safe conn_safe br (length (rp_head r) + (length (render_body (rp_body r)) + n))"
    using assms(6,7) by (simp_all add: wire_bytes_def add.assoc)
  from netbuf.readResponseBuffered_ready [OF f(1) st f(2-6)] obtain br' resp where
    rd: "readResponseBuffered conn_Read (se_gunzip env) br scratch (Response_Reset object) (cn_maxRespSize c) (pr_method p) =
      Some (Done (None, resp, br'))" and ans: "answers resp r" and b: "bufio_pending conn_pending br' = s" "bufio_safe conn_safe br' n"
    by (auto simp: answers_def)
  define c0 where "c0 = (let c = finish (se_now env) (retire i c);
      c = (if pr_sentAt p > 0 then recordSuccess (i64 (se_now env - pr_sentAt p)) c else c)
    in c\<lparr>cn_bytesRead := i64 (cn_bytesRead c + ContentLength resp)\<rparr>)"
  obtain c' rel where h: "hand_over i p resp c0 = (c', rel)" by fastforce
  have "reader_iter env scratch br c = after_response i p resp br' c0"
    using assms(1-3) o by (simp add: reader_iter_def rd c0_def Let_def)
  also have "\<dots> = Some (Done (if isConnectionClose resp then (Exited, br', closeConn c', rel) else (Again, br', c', rel)))"
    by (simp add: after_response_def h)
  finally have it: "reader_iter env scratch br c = \<dots>" .
  have "served c i p resp c'"
    using h assms(3) by (auto simp: served_def hand_over_def c0_def Let_def retire_def removePending_def update_pr_def split: if_splits)
  with ans b it show ?thesis by blast
qed

lemma closeConn_pipe [simp]:
  "cn_closing (closeConn c)"
  "\<not> cn_closing c \<Longrightarrow> cn_pendingReqs (closeConn c) = []"
  "\<not> cn_closing c \<Longrightarrow> cn_responseReader (closeConn c) = None"
  by (simp_all add: closeConn_def)

text \<open>Closing touches the error channels only.\<close>

lemma fail_pending_response:
  "fold (fail_pending e) is m i = Some p \<Longrightarrow> \<exists>q. m i = Some q \<and> pr_response p = pr_response q"
proof (induction "is" arbitrary: m)
  case (Cons j js)
  from Cons.IH [of "fail_pending e j m"] Cons.prems obtain q where
    q: "fail_pending e j m i = Some q" "pr_response p = pr_response q" by auto
  have "\<exists>q'. m i = Some q' \<and> pr_response q = pr_response q'"
    using q(1) by (auto simp: fail_pending_def send_err_def split: option.splits if_splits)
  with q show ?case by auto
qed auto

lemma closeConn_response: "cn_pr (closeConn c) i = Some p \<Longrightarrow> \<exists>q. cn_pr c i = Some q \<and> pr_response p = pr_response q"
  using fail_pending_response [of close_error "cn_pendingReqs c" "cn_pr c" i p] by (auto simp: closeConn_def split: if_splits)

lemma run_reader_serves:
  assumes "cn_pendingReqs c = i # w" "\<not> cn_closing c" "cn_pr c i = Some p"
    "fits (se_gunzip env) c (pr_method p) (pr_resp p) r" "cn_responseReader c = Some rr" "rr_scratch rr = nat (cn_readBufSize c)"
    "stream_ok c (r # rs)" "run_reader env c = Some (Done (it, c', rel))"
  shows "\<exists>resp c1 c2. answers resp r \<and> served c i p resp c1 \<and>
    (if isConnectionClose resp then c' = closeConn c2 \<and> it = Exited \<and> cn_closing c2 = cn_closing c1 \<and> cn_pr c2 = cn_pr c1
     else it = Again \<and> stream_ok c' rs \<and> (\<exists>conn rr'. c' = c1\<lparr>cn_conn := Some conn, cn_responseReader := Some rr'\<rparr> \<and>
       rr_scratch rr' = rr_scratch rr))"
proof -
  obtain conn rest where st: "cn_conn c = Some conn"
    "bufio_pending conn_pending (reader_of rr conn) = wire_bytes r @ concat (map wire_bytes rs) @ rest"
    "bufio_safe conn_safe (reader_of rr conn) (length (wire_bytes r) + length (concat (map wire_bytes rs)))"
    using assms(5,7) by (auto simp: stream_ok_def stream_def)
  from reader_iter_serves [OF assms(1-4,6) st(2,3)] obtain resp br' c1 rel' where
    s: "answers resp r" "served c i p resp c1" "bufio_pending conn_pending br' = concat (map wire_bytes rs) @ rest"
      "bufio_safe conn_safe br' (length (concat (map wire_bytes rs)))"
    and it: "reader_iter env (rr_scratch rr) (reader_of rr conn) c =
      Some (Done (if isConnectionClose resp then (Exited, br', closeConn c1, rel') else (Again, br', c1, rel')))"
    by auto
  have run: "(it, c', rel) = (if isConnectionClose resp then (Exited, put_reader br' (closeConn c1), rel') else (Again, put_reader br' c1, rel'))"
    using assms(5,8) st(1) it by (auto simp: run_reader_def split: if_splits)
  have open1: "\<not> cn_closing c1" "cn_responseReader c1 = Some rr" using s(2) assms(2,5) by (auto simp: served_def)
  show ?thesis
  proof (cases "isConnectionClose resp")
    case True
    then have "c' = closeConn c1" "it = Exited" using run open1(1) by (simp_all add: put_reader_def)
    with s(1,2) True show ?thesis by (intro exI [of _ resp] exI [of _ c1]) auto
  next
    case False
    let ?rr = "rr\<lparr>rr_buf := b_buf br', rr_err := b_err br', rr_size := b_size br'\<rparr>"
    have c': "c' = c1\<lparr>cn_conn := Some (b_rd br'), cn_responseReader := Some ?rr\<rparr>" "it = Again"
      using run open1(2) False by (simp_all add: put_reader_def)
    have "stream c' (b_rd br') = br'" by (simp add: stream_def c' reader_of_def)
    then have "stream_ok c' rs" using s(3,4) by (auto simp: stream_ok_def c')
    moreover have "\<exists>conn rr'. c' = c1\<lparr>cn_conn := Some conn, cn_responseReader := Some rr'\<rparr> \<and> rr_scratch rr' = rr_scratch rr"
      by (intro exI [of _ "b_rd br'"] exI [of _ ?rr]) (simp add: c')
    ultimately show ?thesis using s(1,2) False c'(2) by auto
  qed
qed

section \<open>Simulation\<close>

text \<open>
  Every response that reached a request, in its channel or returned by its caller, is the reply the
  abstract queue assigned to it. While the connection is open the queues agree, the replies still on
  the wire are those of the requests not served, the counter of active requests is the length of the
  queue, and the reader has been told about a queue that is not empty.
\<close>

definition got :: "pipe \<Rightarrow> nat \<Rightarrow> Response \<Rightarrow> bool" where
  "got s i r \<longleftrightarrow> pp_results s i = Some (Inr r) \<or> (\<exists>p. cn_pr (pp_conn s) i = Some p \<and> pr_response p = Some r)"

definition delivered :: "reply list \<Rightarrow> pipe \<Rightarrow> queue_spec \<Rightarrow> bool" where
  "delivered replies s a \<longleftrightarrow>
     (\<forall>i r. got s i r \<longrightarrow> (\<exists>k. sp_answer a i = Some k \<and> k < length replies \<and> answers r (replies ! k)))"

definition expected :: "(bytes \<Rightarrow> gunzip_result) \<Rightarrow> reply list \<Rightarrow> Connection \<Rightarrow> nat list \<Rightarrow> bool" where
  "expected gz replies c w \<longleftrightarrow>
     (\<forall>i \<in> set w. \<exists>p. cn_pr c i = Some p \<and> pr_response p = None \<and> fits gz c (pr_method p) (pr_resp p) (replies ! i))"

definition running :: "(bytes \<Rightarrow> gunzip_result) \<Rightarrow> reply list \<Rightarrow> pipe \<Rightarrow> queue_spec \<Rightarrow> bool" where
  "running gz replies s a \<longleftrightarrow>
     (let c = pp_conn s in
      sp_next a \<le> length replies \<and> sp_next a = pp_next s \<and> \<not> cn_readerStopped c \<and>
      cn_activeReqs c = int (length (sp_waiting a)) \<and>
      stream_ok c (drop (sp_served a) replies) \<and> expected gz replies c (sp_waiting a) \<and>
      (\<forall>rr. cn_responseReader c = Some rr \<longrightarrow> rr_scratch rr = nat (cn_readBufSize c)) \<and>
      (sp_waiting a \<noteq> [] \<longrightarrow> cn_responseReader c \<noteq> None \<and> (pp_busy s \<or> cn_pendingSignal c)))"

definition simulates :: "(bytes \<Rightarrow> gunzip_result) \<Rightarrow> reply list \<Rightarrow> pipe \<Rightarrow> queue_spec \<Rightarrow> bool" where
  "simulates gz replies s a \<longleftrightarrow>
     in_order a \<and> delivered replies s a \<and> sp_open a = (\<not> cn_closing (pp_conn s)) \<and> sp_waiting a = cn_pendingReqs (pp_conn s) \<and>
     length replies < 2 ^ 31 \<and> (sp_open a \<longrightarrow> running gz replies s a)"

text \<open>After the close nothing is queued any more, and nothing new is delivered.\<close>

lemma simulates_shut:
  assumes "simulates gz replies s a" "cn_closing c'" "cn_pendingReqs c' = []"
    "\<And>i r. got (s'\<lparr>pp_conn := c'\<rparr>) i r \<Longrightarrow> got s i r"
  shows "\<exists>a'. spec_step\<^sup>*\<^sup>* a a' \<and> simulates gz replies (s'\<lparr>pp_conn := c'\<rparr>) a'"
proof -
  let ?a = "a\<lparr>sp_waiting := [], sp_open := False\<rparr>"
  have "in_order ?a" using assms(1) by (auto simp: simulates_def in_order_def)
  moreover have "delivered replies (s'\<lparr>pp_conn := c'\<rparr>) ?a"
    using assms(1,4) by (auto simp: simulates_def delivered_def)
  ultimately have "simulates gz replies (s'\<lparr>pp_conn := c'\<rparr>) ?a"
    using assms by (simp add: simulates_def)
  moreover have "spec_step a ?a" by (rule spec_step.shut)
  ultimately show ?thesis by blast
qed

lemma fits_cong:
  "cn_readBufSize c' = cn_readBufSize c \<Longrightarrow> cn_maxRespSize c' = cn_maxRespSize c \<Longrightarrow> fits gz c' m ob r = fits gz c m ob r"
  by (simp add: fits_def)

lemma spec_submitted:
  assumes "simulates gz replies s a" "pp_next s < length replies" "queued (pp_conn s) req (pp_next s) c"
    "fits gz (pp_conn s) (Method req) (req_resp req) (replies ! pp_next s)"
  shows "\<exists>a'. spec_step\<^sup>*\<^sup>* a a' \<and> simulates gz replies (s\<lparr>pp_conn := c, pp_next := Suc (pp_next s)\<rparr>) a'"
proof -
  let ?a = "a\<lparr>sp_waiting := sp_waiting a @ [sp_next a], sp_next := Suc (sp_next a)\<rparr>"
  have op: "sp_open a" and run: "running gz replies s a" and ord: "in_order a"
    using assms(1,3) by (auto simp: simulates_def queued_def)
  then have w: "sp_waiting a = [sp_served a..<pp_next s]" and n: "sp_next a = pp_next s"
    by (auto simp: in_order_def running_def Let_def)
  have step: "spec_step a ?a" using op by (rule spec_step.submit)
  obtain p where p: "cn_pr c = (cn_pr (pp_conn s))(pp_next s \<mapsto> p)" "pr_method p = Method req" "pr_resp p = req_resp req" "pr_response p = None"
    using assms(3) by (auto simp: queued_def)
  have "got s i r" if "got (s\<lparr>pp_conn := c, pp_next := Suc (pp_next s)\<rparr>) i r" for i r
    using that p by (auto simp: got_def split: if_splits)
  then have del: "delivered replies (s\<lparr>pp_conn := c, pp_next := Suc (pp_next s)\<rparr>) ?a"
    using assms(1) by (auto simp: simulates_def delivered_def)
  have sizes: "cn_readBufSize c = cn_readBufSize (pp_conn s)" "cn_maxRespSize c = cn_maxRespSize (pp_conn s)"
    using assms(3) by (auto simp: queued_def)
  have ex: "expected gz replies c (sp_waiting a @ [sp_next a])"
    using run p assms(4) w n by (auto simp: running_def Let_def expected_def fits_cong [OF sizes])
  have "length (sp_waiting a) < length replies" using assms(2) by (simp add: w)
  moreover have "length replies < 2 ^ 31" using assms(1) by (simp add: simulates_def)
  ultimately have "i32 (int (length (sp_waiting a)) + 1) = int (length (sp_waiting a)) + 1" by (simp add: i32_id)
  then have "running gz replies (s\<lparr>pp_conn := c, pp_next := Suc (pp_next s)\<rparr>) ?a"
    using run assms(2,3) ex n sizes by (auto simp: running_def Let_def queued_def)
  with step del spec_step_in_order [OF step ord] op show ?thesis
    using assms(1,3) by (intro exI [of _ ?a]) (auto simp: simulates_def queued_def n)
qed

text \<open>A caller that takes its answer or gives up changes its own record only.\<close>

lemma simulates_caller:
  assumes "simulates gz replies s a" "cn_pr (pp_conn s) i = Some p" "c = (pp_conn s)\<lparr>cn_pr := (cn_pr (pp_conn s))(i \<mapsto> q)\<rparr>"
    "pr_method q = pr_method p" "pr_resp q = pr_resp p" "pr_response q = None \<or> pr_response q = pr_response p"
    "\<And>r. res = Inr r \<Longrightarrow> pr_response p = Some r"
  shows "simulates gz replies (s\<lparr>pp_conn := c, pp_results := (pp_results s)(i \<mapsto> res)\<rparr>) a"
proof -
  let ?s = "s\<lparr>pp_conn := c, pp_results := (pp_results s)(i \<mapsto> res)\<rparr>"
  have "got s j r" if "got ?s j r" for j r
    using that assms(2,3,6,7) by (auto simp: got_def split: if_splits)
  then have "delivered replies ?s a" using assms(1) by (auto simp: simulates_def delivered_def)
  moreover have "expected gz replies (pp_conn s) w \<Longrightarrow> expected gz replies c w" for w
    using assms(2-6) by (auto simp: expected_def fits_def)
  moreover have "stream_ok (pp_conn s) rs \<Longrightarrow> stream_ok c rs" for rs
    using stream_cong [of c "pp_conn s"] by (auto simp: stream_ok_def assms(3))
  ultimately show ?thesis
    using assms(1) by (auto simp: simulates_def running_def Let_def assms(3))
qed

lemma run_reader_idle:
  assumes "cn_pendingReqs c = []" "run_reader env c = Some (Done (it, c', rel))"
  shows "c' = c \<and> it \<noteq> Again"
  using assms
  by (auto simp: run_reader_def reader_iter_def put_reader_def reader_of_def split: option.splits)

lemma closeConn_got:
  assumes "got (s\<lparr>pp_conn := closeConn c\<rparr>) i r" "cn_pr c = cn_pr (pp_conn s)"
  shows "got s i r"
  using assms closeConn_response [of c i] by (fastforce simp: got_def)

lemma spec_served:
  assumes "simulates gz replies s a" "cn_pendingReqs (pp_conn s) = i # w" "se_gunzip env = gz"
    "run_reader env (pp_conn s) = Some (Done (it, c, rel))"
  shows "\<exists>a'. spec_step\<^sup>*\<^sup>* a a' \<and> simulates gz replies (s\<lparr>pp_conn := c, pp_busy := (it = Again)\<rparr>) a'"
proof -
  let ?c = "pp_conn s" and ?s = "s\<lparr>pp_conn := c, pp_busy := (it = Again)\<rparr>"
  let ?a = "a\<lparr>sp_waiting := w, sp_served := Suc (sp_served a), sp_answer := (sp_answer a)(i \<mapsto> sp_served a)\<rparr>"
  have w: "sp_waiting a = i # w" and ord: "in_order a" and len: "length replies < 2 ^ 31"
    using assms(1,2) by (auto simp: simulates_def)
  then have op: "sp_open a" by (auto simp: in_order_def)
  then have run: "running gz replies s a" and up: "\<not> cn_closing ?c" using assms(1) by (auto simp: simulates_def)
  have step: "spec_step a ?a" using op w by (rule spec_step.serve)
  note ord' = spec_step_in_order [OF step ord]
  have q: "[sp_served a..<sp_next a] = i # w" using ord op w by (simp add: in_order_def)
  then have i: "i = sp_served a" "sp_served a < sp_next a" by (cases "sp_served a < sp_next a"; auto simp: upt_conv_Cons)+
  then have inr: "i < length replies" using run by (auto simp: running_def Let_def)
  then have dr: "drop (sp_served a) replies = replies ! i # drop (Suc (sp_served a)) replies"
    using i(1) by (simp add: Cons_nth_drop_Suc)
  obtain p where p: "cn_pr ?c i = Some p" "pr_response p = None" "fits gz ?c (pr_method p) (pr_resp p) (replies ! i)"
    using run w by (auto simp: running_def Let_def expected_def)
  obtain rr where rr: "cn_responseReader ?c = Some rr" "rr_scratch rr = nat (cn_readBufSize ?c)"
    using run w by (auto simp: running_def Let_def)
  have st: "stream_ok ?c (replies ! i # drop (Suc (sp_served a)) replies)" using run dr by (simp add: running_def Let_def)
  obtain resp c1 c2 where ans: "answers resp (replies ! i)" and sv: "served ?c i p resp c1" and
    res: "if isConnectionClose resp then c = closeConn c2 \<and> it = Exited \<and> cn_closing c2 = cn_closing c1 \<and> cn_pr c2 = cn_pr c1
       else it = Again \<and> stream_ok c (drop (Suc (sp_served a)) replies) \<and>
         (\<exists>conn rr'. c = c1\<lparr>cn_conn := Some conn, cn_responseReader := Some rr'\<rparr> \<and> rr_scratch rr' = rr_scratch rr)"
    using run_reader_serves [OF assms(2) up p(1) _ rr st assms(4)] p(3) assms(3) by blast
  have got1: "got s j r \<or> (j = i \<and> r = resp)" if "got (x\<lparr>pp_conn := c1\<rparr>) j r" "pp_results x = pp_results s" for x j r
    using that sv p(1,2) by (auto simp: got_def served_def send_response_def split: if_splits)
  have del: "delivered replies (x\<lparr>pp_conn := d\<rparr>) ?a"
    if "\<And>j r. got (x\<lparr>pp_conn := d\<rparr>) j r \<Longrightarrow> got s j r \<or> (j = i \<and> r = resp)" for x d
    unfolding delivered_def
  proof (intro allI impI)
    fix j r
    assume "got (x\<lparr>pp_conn := d\<rparr>) j r"
    from that [OF this] show "\<exists>k. sp_answer ?a j = Some k \<and> k < length replies \<and> answers r (replies ! k)"
    proof
      assume "got s j r"
      then obtain k where k: "sp_answer a j = Some k" "k < length replies" "answers r (replies ! k)"
        using assms(1) by (auto simp: simulates_def delivered_def)
      then have "k = j" using ord by (auto simp: in_order_def)
      with k i(1) show ?thesis by (cases "j = i") auto
    qed (use ans inr i(1) in auto)
  qed
  show ?thesis
  proof (cases "isConnectionClose resp")
    case True
    then have c: "c = closeConn c2" "it = Exited" "cn_pr c2 = cn_pr c1" "\<not> cn_closing c2" using res sv up by (auto simp: served_def)
    let ?b = "?a\<lparr>sp_waiting := [], sp_open := False\<rparr>"
    have "got (x\<lparr>pp_conn := c\<rparr>) j r \<Longrightarrow> got (x\<lparr>pp_conn := c1\<rparr>) j r" for x j r
      using closeConn_response [of c2 j] unfolding c(1) by (auto simp: got_def c(3))
    then have "delivered replies ((s\<lparr>pp_busy := False\<rparr>)\<lparr>pp_conn := c\<rparr>) ?a" using got1 by (intro del) fastforce
    then have "delivered replies ?s ?b" using c(2) by (simp add: delivered_def got_def)
    moreover have "spec_step ?a ?b" by (rule spec_step.shut)
    moreover have "in_order ?b" using spec_step_in_order [OF \<open>spec_step ?a ?b\<close> ord'] .
    ultimately show ?thesis using step len c by (intro exI [of _ ?b]) (auto simp: simulates_def)
  next
    case False
    then obtain conn rr' where c: "it = Again" "stream_ok c (drop (Suc (sp_served a)) replies)"
      "c = c1\<lparr>cn_conn := Some conn, cn_responseReader := Some rr'\<rparr>" "rr_scratch rr' = rr_scratch rr" using res by auto
    have "got (x\<lparr>pp_conn := c\<rparr>) j r \<Longrightarrow> got (x\<lparr>pp_conn := c1\<rparr>) j r" for x j r by (simp add: got_def c(3))
    then have "delivered replies ((s\<lparr>pp_busy := True\<rparr>)\<lparr>pp_conn := c\<rparr>) ?a" using got1 by (intro del) fastforce
    then have d: "delivered replies ?s ?a" using c(1) by (simp add: delivered_def got_def)
    have "i \<notin> set w" using q by (metis distinct.simps(2) distinct_upt)
    then have ex: "expected gz replies c w"
      using run w sv by (auto simp: running_def Let_def expected_def served_def c(3) fits_def)
    have "length (i # w) \<le> sp_next a" using arg_cong [OF q, of length] by simp
    moreover have "sp_next a \<le> length replies" using run by (simp add: running_def Let_def)
    ultimately have "i32 (int (length (i # w)) - 1) = int (length w)" using len by (simp add: i32_id)
    then have "running gz replies ?s ?a"
      using run w sv c(1,2) ex rr by (auto simp: running_def Let_def served_def c(3,4))
    then have "simulates gz replies ?s ?a"
      using d ord' len op up assms(2) sv by (auto simp: simulates_def served_def c(3))
    with step show ?thesis by blast
  qed
qed

lemma pipe_step_simulated:
  "pipe_step gz replies s s' \<Longrightarrow> simulates gz replies s a \<Longrightarrow> \<exists>a'. spec_step\<^sup>*\<^sup>* a a' \<and> simulates gz replies s' a'"
proof (induction rule: pipe_step.induct)
  case (sent s req env c req')
  from pipe_send_queued [OF sent.hyps(4,3)] show ?case using spec_submitted sent by blast
next
  case (refused s env req e c req')
  from pipe_send_refused [OF refused.hyps(2,1)] show ?case
  proof
    assume "c = pp_conn s"
    then show ?case using refused.prems by auto
  next
    assume "\<not> cn_closing (pp_conn s) \<and> (\<exists>c0. c = closeConn c0 \<and> cn_closing c0 = False \<and> cn_pr c0 = cn_pr (pp_conn s) \<and>
      cn_pendingReqs c0 = cn_pendingReqs (pp_conn s))"
    then show ?case using simulates_shut [OF refused.prems, of c s] closeConn_got by auto
  qed
next
  case (woken s)
  then have "simulates gz replies (s\<lparr>pp_conn := (pp_conn s)\<lparr>cn_pendingSignal := False\<rparr>, pp_busy := True\<rparr>) a"
    using stream_cong [of "(pp_conn s)\<lparr>cn_pendingSignal := False\<rparr>" "pp_conn s"]
    by (auto simp: simulates_def delivered_def got_def running_def Let_def expected_def stream_ok_def fits_def)
  then show ?case by blast
next
  case (read s env it c rel)
  show ?case
  proof (cases "cn_pendingReqs (pp_conn s)")
    case Nil
    then have "c = pp_conn s" using run_reader_idle [OF _ read.hyps(3)] by blast
    then have "simulates gz replies (s\<lparr>pp_conn := c, pp_busy := (it = Again)\<rparr>) a"
      using read.prems Nil by (auto simp: simulates_def delivered_def got_def running_def Let_def)
    then show ?thesis by blast
  qed (use spec_served [OF read.prems _ read.hyps(2,3)] in blast)
next
  case (received s i r c)
  then obtain p where "cn_pr (pp_conn s) i = Some p" "pr_response p = Some r"
    "c = (pp_conn s)\<lparr>cn_pr := (cn_pr (pp_conn s))(i \<mapsto> p\<lparr>pr_response := None\<rparr>)\<rparr>"
    by (auto simp: pipe_response_def split: option.splits)
  with received.prems have "simulates gz replies (s\<lparr>pp_conn := c, pp_results := (pp_results s)(i \<mapsto> Inr r)\<rparr>) a"
    by (intro simulates_caller [where p = p and q = "p\<lparr>pr_response := None\<rparr>"]) auto
  then show ?case by blast
next
  case (errored s i e c)
  then obtain p where "cn_pr (pp_conn s) i = Some p"
    "c = (pp_conn s)\<lparr>cn_pr := (cn_pr (pp_conn s))(i \<mapsto> p\<lparr>pr_err := None\<rparr>)\<rparr>"
    by (auto simp: pipe_error_def split: option.splits)
  with errored.prems have "simulates gz replies (s\<lparr>pp_conn := c, pp_results := (pp_results s)(i \<mapsto> Inl e)\<rparr>) a"
    by (intro simulates_caller [where p = p and q = "p\<lparr>pr_err := None\<rparr>"]) auto
  then show ?case by blast
next
  case (cancelled s i e c)
  then obtain p where "cn_pr (pp_conn s) i = Some p"
    "c = (pp_conn s)\<lparr>cn_pr := (cn_pr (pp_conn s))(i \<mapsto> p\<lparr>pr_releaseFn := req_releaseFn (pr_req p), pr_cancelled := True\<rparr>)\<rparr>"
    by (auto simp: pipe_cancel_def split: option.splits)
  with cancelled.prems have "simulates gz replies (s\<lparr>pp_conn := c, pp_results := (pp_results s)(i \<mapsto> Inl e)\<rparr>) a"
    by (intro simulates_caller [where p = p and q = "p\<lparr>pr_releaseFn := req_releaseFn (pr_req p), pr_cancelled := True\<rparr>"]) auto
  then show ?case by blast
next
  case (stopped s)
  show ?case
  proof (cases "cn_closing (pp_conn s)")
    case True
    then show ?thesis using stopped by (auto simp: closeConn_def)
  next
    case False
    then show ?thesis using simulates_shut [OF stopped, of "closeConn (pp_conn s)" s] closeConn_got by auto
  qed
qed

lemma pipe_run_simulated:
  assumes "(pipe_step gz replies)\<^sup>*\<^sup>* (pipe_start c) s" "opened replies c"
  shows "\<exists>a. spec_step\<^sup>*\<^sup>* spec_start a \<and> simulates gz replies s a"
  using assms(1)
proof (induction rule: rtranclp_induct)
  case base
  have "simulates gz replies (pipe_start c) spec_start"
    using assms(2) by (auto simp: simulates_def spec_start_def pipe_start_def opened_def in_order_def delivered_def got_def running_def
        Let_def expected_def)
  then show ?case by blast
next
  case (step s s')
  then obtain a where "spec_step\<^sup>*\<^sup>* spec_start a" "simulates gz replies s a" by blast
  with pipe_step_simulated [OF step.hyps(2)] show ?case by (meson rtranclp_trans)
qed

text \<open>A request on an open connection can be answered: the sequence send, wake, read, receive.\<close>

lemma closeConn_keeps_response: "cn_pr c i = Some q \<Longrightarrow> \<exists>p. cn_pr (closeConn c) i = Some p \<and> pr_response p = pr_response q"
proof -
  have "m i = Some q \<Longrightarrow> \<exists>p. fold (fail_pending e) is m i = Some p \<and> pr_response p = pr_response q" for e "is" m q
  proof (induction "is" arbitrary: m q)
    case (Cons j js)
    have "\<exists>q'. fail_pending e j m i = Some q' \<and> pr_response q' = pr_response q"
      using Cons.prems by (cases "i = j"; cases "m j") (auto simp: fail_pending_def send_err_def)
    then obtain q' where "fail_pending e j m i = Some q'" "pr_response q' = pr_response q" by blast
    with Cons.IH [of "fail_pending e j m" q'] show ?case by auto
  qed auto
  then show "cn_pr c i = Some q \<Longrightarrow> ?thesis" by (auto simp: closeConn_def)
qed

lemma pipe_send_succeeds:
  assumes "\<not> cn_closing c" "MaxRequestsPerConn (cn_config c) \<le> 0" "cn_conn c = Some conn" "\<not> nc_closed conn" "nc_wr conn = []"
    "prepareBody (se_gzip env) c req = (Inr (body, z), req1)" "request_done env req1 = None" "encodable c req1 body z"
  shows "\<exists>c'. pipe_send env c req i = Some (None, c', req1)"
proof -
  let ?c = "if cn_responseReader c = None \<and> \<not> cn_readerStopped c then startResponseReader c else c"
  let ?d = "?c\<lparr>cn_activeReqs := i32 (cn_activeReqs ?c + 1)\<rparr>"
  have "encodable ?d req1 body z" using assms(8) by (simp add: encodable_def startResponseReader_def)
  from Connection_writeRequest_sends [OF assms(4,5) this] obtain conn' where
    "Connection_writeRequest (se_wbuf env) ?d conn req1 body z wt = Some (None, conn')" for wt by blast
  then show ?thesis
    using assms(1-3,6,7) by (simp add: pipe_send_def pipe_prepared_def pipe_locked_def Let_def)
qed

lemma pipe_can_answer:
  assumes "opened (r # rs) c" "MaxRequestsPerConn (cn_config c) \<le> 0" "cn_conn c = Some conn" "\<not> nc_closed conn" "nc_wr conn = []"
    "prepareBody (se_gzip env) c req = (Inr (body, z), req1)" "request_done env req1 = None" "encodable c req1 body z"
    "fits (se_gunzip env) c (Method req) (req_resp req) r"
  shows "\<exists>s resp. (pipe_step (se_gunzip env) (r # rs))\<^sup>*\<^sup>* (pipe_start c) s \<and> pp_results s 0 = Some (Inr resp)"
proof -
  let ?step = "pipe_step (se_gunzip env) (r # rs)"
  have up: "\<not> cn_closing c" "\<not> cn_readerStopped c" "cn_responseReader c = None" "cn_pendingReqs c = []" "stream_ok c (r # rs)"
    using assms(1) by (auto simp: opened_def)
  obtain c1 where c1: "pipe_send env c req 0 = Some (None, c1, req1)" using pipe_send_succeeds [OF up(1) assms(2-8)] by blast
  from pipe_send_queued [OF c1 assms(2)] have q: "queued c req 0 c1" .
  let ?s1 = "\<lparr>pp_conn = c1, pp_busy = False, pp_next = 1, pp_results = Map.empty\<rparr>"
  let ?c2 = "c1\<lparr>cn_pendingSignal := False\<rparr>"
  let ?s2 = "\<lparr>pp_conn = ?c2, pp_busy = True, pp_next = 1, pp_results = Map.empty\<rparr>"
  have 1: "?step (pipe_start c) ?s1"
    using pipe_step.sent [of "pipe_start c" "r # rs" "se_gunzip env" req env c1 req1] assms(2,9) c1 by (simp add: pipe_start_def)
  have 2: "?step ?s1 ?s2" using pipe_step.woken [of ?s1 "se_gunzip env" "r # rs"] q up(2) by (simp add: queued_def)
  obtain p where p: "cn_pr ?c2 0 = Some p" "pr_response p = None" "\<not> pr_cancelled p" "fits (se_gunzip env) ?c2 (pr_method p) (pr_resp p) r"
    using q assms(9) by (auto simp: queued_def fits_def)
  obtain rr where rr: "cn_responseReader ?c2 = Some rr" "rr_scratch rr = nat (cn_readBufSize ?c2)" using q up(2,3) by (auto simp: queued_def)
  have "stream_ok c1 (r # rs)" using q up(5) by (simp add: queued_def)
  then have "stream_ok ?c2 (r # rs)" using stream_cong [of ?c2 c1] by (simp add: stream_ok_def)
  then obtain conn2 rest where st: "cn_conn ?c2 = Some conn2"
    "bufio_pending conn_pending (reader_of rr conn2) = wire_bytes r @ concat (map wire_bytes rs) @ rest"
    "bufio_safe conn_safe (reader_of rr conn2) (length (wire_bytes r) + length (concat (map wire_bytes rs)))"
    using rr(1) by (auto simp: stream_ok_def stream_def)
  have "cn_pendingReqs ?c2 = [0]" "\<not> cn_closing ?c2" using q up(4) by (auto simp: queued_def)
  from reader_iter_serves [OF this p(1,4) rr(2) st(2,3)] obtain resp br c3 rel where
    sv: "served ?c2 0 p resp c3" and it: "reader_iter env (rr_scratch rr) (reader_of rr conn2) ?c2 =
      Some (Done (if isConnectionClose resp then (Exited, br, closeConn c3, rel) else (Again, br, c3, rel)))" by auto
  obtain it' c4 where run: "run_reader env ?c2 = Some (Done (it', c4, rel))" "c4 = put_reader br (closeConn c3) \<or> c4 = put_reader br c3"
    using rr(1) st(1) it by (auto simp: run_reader_def split: if_splits)
  let ?s3 = "?s2\<lparr>pp_conn := c4, pp_busy := (it' = Again)\<rparr>"
  have 3: "?step ?s2 ?s3" using pipe_step.read [of ?s2 env "se_gunzip env" it' c4 rel "r # rs"] run(1) by simp
  have "cn_pr c3 0 = Some (p\<lparr>pr_response := Some resp\<rparr>)" using sv p(1-3) by (simp add: served_def send_response_def)
  moreover have "cn_pr (put_reader br d) = cn_pr d" for d by (simp add: put_reader_def split: option.split)
  ultimately obtain q' where "cn_pr c4 0 = Some q'" "pr_response q' = Some resp"
    using run(2) closeConn_keeps_response [of c3 0] by auto
  then obtain c5 where "pipe_response c4 0 = Some (resp, c5)" by (simp add: pipe_response_def)
  then have "?step ?s3 (?s3\<lparr>pp_conn := c5, pp_results := (pp_results ?s3)(0 \<mapsto> Inr resp)\<rparr>)"
    using pipe_step.received [of ?s3 0 resp c5 "se_gunzip env" "r # rs"] by simp
  with 1 2 3 have "?step\<^sup>*\<^sup>* (pipe_start c) (?s3\<lparr>pp_conn := c5, pp_results := (pp_results ?s3)(0 \<mapsto> Inr resp)\<rparr>)"
    by (meson converse_rtranclp_into_rtranclp rtranclp.rtrancl_refl)
  then show ?thesis by (intro exI conjI) auto
qed


definition demo_reply :: reply where
  "demo_reply = \<lparr>rp_head = demo_head, rp_body = Sized ''hello'', rp_out = ''hello''\<rparr>"

lemma demo_fits: "fits (se_gunzip demo_env) (demo_connection conn) (Method demo_req) (req_resp demo_req) demo_reply"
proof -
  have "content (\<lambda>b. GzReadErr EOF) (head_fields demo_head) (body_data (Sized ''hello'')) = Some ''hello''" by code_simp
  moreover have "wire_ok [] demo_head (Sized ''hello'')" "room (Response_Reset demo_response) (Sized ''hello'')" by code_simp+
  moreover have "length demo_head = 38" by code_simp
  ultimately show ?thesis
    by (simp add: fits_def demo_reply_def demo_ready within_limit_def Response_Reset_def, simp add: demo_env_def)
qed

lemma demo_opened: "opened [demo_reply] (demo_connection demo_wire)"
proof -
  have "conn_pending demo_wire = demo_head @ ''hello''" "conn_safe demo_wire (length (demo_head @ ''hello''))" by code_simp+
  then show ?thesis
    by (simp add: opened_def stream_ok_def stream_def demo_connection_def NewConnection_def Let_def wire_bytes_def demo_reply_def
        NewReaderSize_def bufio_pending_def bufio_safe_def)
qed

lemma demo_answered:
  "\<exists>s resp. (pipe_step (se_gunzip demo_env) [demo_reply])\<^sup>*\<^sup>* (pipe_start (demo_connection demo_wire)) s \<and> pp_results s 0 = Some (Inr resp)"
proof (rule pipe_can_answer [OF demo_opened, where env = demo_env and req = demo_req and conn = demo_wire
      and body = "[]" and z = False and ?req1.0 = demo_req])
  show "\<not> nc_closed demo_wire" "nc_wr demo_wire = []" by (simp_all add: demo_wire_def demo_conn_def)
  show "request_done demo_env demo_req = None" by (simp add: request_done_def demo_req_def requestPool_New_def new_Request_def)
  show "fits (se_gunzip demo_env) (demo_connection demo_wire) (Method demo_req) (req_resp demo_req) demo_reply" by (rule demo_fits)
qed (simp_all add: demo_ready demo_encodable, simp_all add: demo_connection_def NewConnection_def Let_def DefaultConfig_def)



lemma demo_sent:
  "\<exists>s. (pipe_step (se_gunzip demo_env) [demo_reply])\<^sup>*\<^sup>* (pipe_start (demo_connection demo_wire)) s \<and>
     \<not> cn_closing (pp_conn s) \<and> cn_pendingReqs (pp_conn s) = [0]"
proof -
  let ?c = "demo_connection demo_wire"
  have m: "MaxRequestsPerConn (cn_config ?c) \<le> 0" "\<not> cn_closing ?c" "cn_conn ?c = Some demo_wire" "cn_pendingReqs ?c = []"
    by (simp_all add: demo_connection_def NewConnection_def Let_def DefaultConfig_def)
  have d: "request_done demo_env demo_req = None" by (simp add: request_done_def demo_req_def requestPool_New_def new_Request_def)
  have io: "\<not> nc_closed demo_wire" "nc_wr demo_wire = []" by (simp_all add: demo_wire_def demo_conn_def)
  obtain c1 where c1: "pipe_send demo_env ?c demo_req 0 = Some (None, c1, demo_req)"
    using pipe_send_succeeds [OF m(2,1,3) io demo_ready(2) d demo_encodable] by blast
  have "queued ?c demo_req 0 c1" using pipe_send_queued [OF c1 m(1)] .
  then have q: "\<not> cn_closing c1" "cn_pendingReqs c1 = [0]" using m(4) by (auto simp: queued_def)
  have "pipe_step (se_gunzip demo_env) [demo_reply] (pipe_start ?c) ((pipe_start ?c)\<lparr>pp_conn := c1, pp_next := Suc (pp_next (pipe_start ?c))\<rparr>)"
    by (rule pipe_step.sent [where env = demo_env and req = demo_req]) (use c1 m demo_fits in \<open>auto simp: pipe_start_def\<close>)
  then show ?thesis using q by (intro exI conjI) (rule r_into_rtranclp, auto)
qed


end
