(* ===== verification/Desync.thy ===== *)
theory Desync
  imports Ordering
begin

text \<open>
  What pipelining does when a response is not well formed or the connection is replaced: a chunked body
  over the size limit is reported as a success and its unread part is taken for the next response;
  closing a connection forgets to count its pending requests down; a reader goroutine of the previous
  network connection that takes the wake-up closes the new one.
\<close>

section \<open>A chunk over the limit\<close>

text \<open>A header that announces chunks, and the size line of a first chunk larger than the limit.\<close>

definition oversized :: "Connection \<Rightarrow> bytes \<Rightarrow> bytes \<Rightarrow> bytes \<Rightarrow> nat \<Rightarrow> bool" where
  "oversized c meth head l n \<longleftrightarrow>
     header_block head \<and> snd (parseStatusCode head) \<and> fst (parseStatusCode head) > 0 \<and>
     \<not> no_body meth (fst (parseStatusCode head)) \<and> parseTransferEncoding head \<and> length head \<le> nat (cn_readBufSize c) \<and>
     size_line l n \<and> 0 < cn_maxRespSize c \<and> cn_maxRespSize c < int n \<and> int n < 2 ^ 63"

lemma oversized_read:
  assumes "oversized c meth head l n" "bufio_pending conn_pending br = head @ l @ CRLF @ s"
    "bufio_safe conn_safe br (length head + (length l + 2 + m))"
  shows "\<exists>br'. readResponseBuffered conn_Read gz br (nat (cn_readBufSize c)) resp (cn_maxRespSize c) meth =
      Some (Done (Some ErrResponseTooLarge, parseHeaders head (resp\<lparr>StatusCode := fst (parseStatusCode head)\<rparr>), br')) \<and>
    bufio_pending conn_pending br' = s \<and> bufio_safe conn_safe br' m"
proof -
  have o: "header_block head" "length head \<le> nat (cn_readBufSize c)" "size_line l n" "0 < cn_maxRespSize c" "cn_maxRespSize c < int n" "int n < 2 ^ 63"
    using assms(1) by (auto simp: oversized_def)
  have "0 < length head" using o(1) by (cases head) (auto simp: header_block_def findHeaderEnd_def)
  with netbuf.scan_header_ready [OF o(1,2), of "[]" br "l @ CRLF @ s" "length head + (length l + 2 + m)"] assms(2,3)
  obtain b1 where b1: "scan_header conn_Read br (nat (cn_readBufSize c)) [] = Some (Inr head, b1)"
    "bufio_pending conn_pending b1 = l @ CRLF @ s" "bufio_safe conn_safe b1 (length l + 2 + m)"
    by auto
  have l: "CR \<notin> set l" "LF \<notin> set l" "take 64 l = l" "chunk_line l = Some (int n)" using o(3) by (auto simp: size_line_def)
  from netbuf.buf.readLine_crlf [OF l(1,2), of "[]" b1 s "length l + 2 + m"] b1(2,3) l(3)
  obtain b2 where b2: "readLine (bufio_Read conn_Read) b1 [] [] = Some (Inr l, [], b2)" "bufio_pending conn_pending b2 = s"
    "bufio_safe conn_safe b2 m" by auto
  have "chunk_loop (bufio_Read conn_Read) b1 [] r 0 (cn_maxRespSize c) = Some (Done (Some ErrResponseTooLarge, 0, r, b2))" for r
    using b2(1) l(4) o by (subst chunk_loop.simps) (simp add: i64_id Let_def)
  then have "readChunkedBody (bufio_Read conn_Read) b1 [] r (cn_maxRespSize c) = Some (Done (Some ErrResponseTooLarge, r, b2))" for r
    by (simp add: readChunkedBody_def)
  then have "readResponseBuffered conn_Read gz br (nat (cn_readBufSize c)) resp (cn_maxRespSize c) meth =
      Some (Done (Some ErrResponseTooLarge, parseHeaders head (resp\<lparr>StatusCode := fst (parseStatusCode head)\<rparr>), b2))"
    using assms(1) b1(1) by (cases "parseStatusCode head") (simp add: readResponseBuffered_def oversized_def then_decompress_def)
  with b2 show ?thesis by blast
qed

text \<open>The reader hands the cut response over as if it were complete and goes on with the rest of the stream.\<close>

lemma oversized_pass:
  assumes "cn_pendingReqs c = i # w" "\<not> cn_closing c" "cn_pr c i = Some p" "pr_resp p = Some object" "\<not> pr_cancelled p"
    "cn_responseReader c = Some rr" "rr_scratch rr = nat (cn_readBufSize c)" "cn_conn c = Some conn"
    "oversized c (pr_method p) head l n" "bufio_pending conn_pending (reader_of rr conn) = head @ l @ CRLF @ s"
    "bufio_safe conn_safe (reader_of rr conn) (length head + (length l + 2 + m))"
    "resp = parseHeaders head ((Response_Reset object)\<lparr>StatusCode := fst (parseStatusCode head)\<rparr>)" "\<not> isConnectionClose resp"
  shows "\<exists>c1 c' conn' rr'. served c i p resp c1 \<and> run_reader env c = Some (Done (Again, c', [])) \<and>
    c' = c1\<lparr>cn_conn := Some conn', cn_responseReader := Some rr'\<rparr> \<and> rr_scratch rr' = rr_scratch rr \<and>
    bufio_pending conn_pending (reader_of rr' conn') = s \<and> bufio_safe conn_safe (reader_of rr' conn') m"
proof -
  obtain br where br: "readResponseBuffered conn_Read (se_gunzip env) (reader_of rr conn) (rr_scratch rr) (Response_Reset object) (cn_maxRespSize c) (pr_method p) =
      Some (Done (Some ErrResponseTooLarge, resp, br))" "bufio_pending conn_pending br = s" "bufio_safe conn_safe br m"
    using oversized_read [OF assms(9-11), of "se_gunzip env" "Response_Reset object"] assms(7,12) by auto
  have st: "StatusCode resp > 0" using assms(9,12) by (simp add: oversized_def parseHeaders_block)
  define c1 where "c1 = update_pr i (send_response resp) (finish (se_now env) (retire i c))"
  let ?rr = "rr\<lparr>rr_buf := b_buf br, rr_err := b_err br, rr_size := b_size br\<rparr>"
  have sv: "served c i p resp c1"
    using assms(3,5) by (simp add: served_def c1_def update_pr_def retire_def removePending_def)
  have "reader_iter env (rr_scratch rr) (reader_of rr conn) c = Some (Done (Again, br, c1, []))"
    using assms(1-5,13) br(1) st by (simp add: reader_iter_def after_response_def hand_over_def c1_def Let_def)
  then have "run_reader env c = Some (Done (Again, put_reader br c1, []))"
    using assms(6,8) by (simp add: run_reader_def)
  moreover have "put_reader br c1 = c1\<lparr>cn_conn := Some (b_rd br), cn_responseReader := Some ?rr\<rparr>"
    using sv assms(6) by (simp add: put_reader_def served_def)
  moreover have "reader_of ?rr (b_rd br) = br" by (simp add: reader_of_def)
  ultimately show ?thesis
    using sv br(2,3) by (intro exI [of _ c1] exI [of _ "put_reader br c1"] exI [of _ "b_rd br"] exI [of _ ?rr]) simp
qed

definition received_response :: "Connection \<Rightarrow> nat \<Rightarrow> Response option" where
  "received_response c i = Option.bind (cn_pr c i) pr_response"

text \<open>
  C34. A chunked body over the size limit puts the connection out of step: the reader reports the
  response as a success, keeps the connection, and parses the unread chunk data as the response to the
  next request. Whoever controls the body of one response thus chooses the whole response another
  request receives.
\<close>

theorem oversized_chunk_desync:
  assumes "cn_pendingReqs c = i # j # w" "i \<noteq> j" "\<not> cn_closing c"
    "cn_pr c i = Some p" "pr_resp p = Some object" "\<not> pr_cancelled p" "pr_response p = None"
    "cn_pr c j = Some q" "\<not> pr_cancelled q" "pr_response q = None" "fits (se_gunzip env) c (pr_method q) (pr_resp q) forged"
    "cn_responseReader c = Some rr" "rr_scratch rr = nat (cn_readBufSize c)" "cn_conn c = Some conn"
    "oversized c (pr_method p) head l n" "bufio_pending conn_pending (reader_of rr conn) = head @ l @ CRLF @ wire_bytes forged @ s"
    "bufio_safe conn_safe (reader_of rr conn) (length head + (length l + 2 + length (wire_bytes forged)))"
    "resp = parseHeaders head ((Response_Reset object)\<lparr>StatusCode := fst (parseStatusCode head)\<rparr>)" "\<not> isConnectionClose resp"
  shows "\<exists>cA cB it rel resp'. run_reader env c = Some (Done (Again, cA, [])) \<and> run_reader env cA = Some (Done (it, cB, rel)) \<and>
    received_response cB i = Some resp \<and> StatusCode resp = fst (parseStatusCode head) \<and>
    received_response cB j = Some resp' \<and> answers resp' forged"
proof -
  obtain c1 cA conn' rr' where a: "served c i p resp c1" "run_reader env c = Some (Done (Again, cA, []))"
    "cA = c1\<lparr>cn_conn := Some conn', cn_responseReader := Some rr'\<rparr>" "rr_scratch rr' = rr_scratch rr"
    "bufio_pending conn_pending (reader_of rr' conn') = wire_bytes forged @ s" "bufio_safe conn_safe (reader_of rr' conn') (length (wire_bytes forged) + 0)"
    using oversized_pass [OF assms(1,3-6,12-15,16,17-19), of env] by (simp only: add_0_right) blast
  have A: "cn_pendingReqs cA = j # w" "\<not> cn_closing cA" "cn_pr cA j = Some q" "cn_pr cA i = Some (p\<lparr>pr_response := Some resp\<rparr>)"
    "rr_scratch rr' = nat (cn_readBufSize cA)" "fits (se_gunzip env) cA (pr_method q) (pr_resp q) forged"
    using a(1,3,4) assms by (auto simp: served_def send_response_def fits_def)
  obtain resp' br' c2 rel where b: "answers resp' forged" "served cA j q resp' c2"
    "reader_iter env (rr_scratch rr') (reader_of rr' conn') cA =
      Some (Done (if isConnectionClose resp' then (Exited, br', closeConn c2, rel) else (Again, br', c2, rel)))"
    using reader_iter_serves [OF A(1-3,6,5) a(5,6)] by blast
  have pr2: "cn_pr c2 i = Some (p\<lparr>pr_response := Some resp\<rparr>)" "cn_pr c2 j = Some (q\<lparr>pr_response := Some resp'\<rparr>)"
    using b(2) A(3,4) assms(2,9,10) by (simp_all add: served_def send_response_def)
  obtain it cB where r: "run_reader env cA = Some (Done (it, cB, rel))" "cB = put_reader br' (closeConn c2) \<or> cB = put_reader br' c2"
    using a(3) b(3) by (auto simp: run_reader_def split: if_splits)
  have "cn_pr (put_reader br' d) = cn_pr d" for d by (simp add: put_reader_def split: option.split)
  then have "received_response cB i = Some resp" "received_response cB j = Some resp'"
    using r(2) pr2 closeConn_keeps_response [OF pr2(1)] closeConn_keeps_response [OF pr2(2)] by (auto simp: received_response_def)
  moreover have "StatusCode resp = fst (parseStatusCode head)"
    using assms(15,18) by (simp add: oversized_def parseHeaders_block)
  ultimately show ?thesis using a(2) r(1) b(1) by blast
qed

definition forged_head :: bytes where
  "forged_head = ''HTTP/1.1 200 OK'' @ CRLF @ ''Content-Length: 2'' @ CRLF @ CRLF"

definition forged_reply :: reply where
  "forged_reply = \<lparr>rp_head = forged_head, rp_body = Sized ''no'', rp_out = ''no''\<rparr>"

definition demo_overflow :: netconn where
  "demo_overflow = demo_conn [demo_chunked_head, ''28'' @ CRLF @ forged_head, ''no'']"

definition demo_pending :: PendingRequest where
  "demo_pending = \<lparr>pr_req = demo_req, pr_response = None, pr_err = None, pr_cancelled = False, pr_releaseFn = False, pr_sentAt = 0,
     pr_resp = Some demo_response, pr_readTimeout = 0, pr_method = ''GET''\<rparr>"

definition demo_reader :: ResponseReader where
  "demo_reader = \<lparr>rr_buf = [], rr_err = None, rr_size = 64, rr_scratch = 65536, rr_stop = False\<rparr>"

definition demo_two :: Connection where
  "demo_two = (demo_connection demo_overflow)\<lparr>cn_pendingReqs := [0, 1], cn_pr := [0 \<mapsto> demo_pending, 1 \<mapsto> demo_pending],
     cn_responseReader := Some demo_reader, cn_maxRespSize := 16\<rparr>"

theorem oversized_chunk_desync_witness:
  "\<exists>cA cB it rel resp resp'. run_reader demo_env demo_two = Some (Done (Again, cA, [])) \<and>
     run_reader demo_env cA = Some (Done (it, cB, rel)) \<and>
     received_response cB 0 = Some resp \<and> StatusCode resp = fst (parseStatusCode demo_chunked_head) \<and>
     received_response cB 1 = Some resp' \<and> answers resp' forged_reply"
proof -
  let ?resp = "parseHeaders demo_chunked_head ((Response_Reset demo_response)\<lparr>StatusCode := fst (parseStatusCode demo_chunked_head)\<rparr>)"
  have "\<exists>cA cB it rel resp'. run_reader demo_env demo_two = Some (Done (Again, cA, [])) \<and>
     run_reader demo_env cA = Some (Done (it, cB, rel)) \<and>
     received_response cB 0 = Some ?resp \<and> StatusCode ?resp = fst (parseStatusCode demo_chunked_head) \<and>
     received_response cB 1 = Some resp' \<and> answers resp' forged_reply"
  proof (rule oversized_chunk_desync [where p = demo_pending and q = demo_pending and object = demo_response and rr = demo_reader
        and conn = demo_overflow and l = "''28''" and n = 40 and head = demo_chunked_head and s = "[]" and w = "[]"])
    have rd: "reader_of demo_reader demo_overflow = \<lparr>b_buf = [], b_err = None, b_rd = demo_overflow, b_size = 64\<rparr>"
      by (simp add: reader_of_def demo_reader_def)
    have sz: "cn_readBufSize demo_two = 65536" "cn_maxRespSize demo_two = 16" by (simp_all add: demo_two_def demo_ready)
    have "header_block demo_chunked_head" "snd (parseStatusCode demo_chunked_head)" "fst (parseStatusCode demo_chunked_head) > 0"
      "\<not> no_body ''GET'' (fst (parseStatusCode demo_chunked_head))" "parseTransferEncoding demo_chunked_head" "size_line ''28'' 40"
      "length demo_chunked_head = 47" by code_simp+
    then show "oversized demo_two (pr_method demo_pending) demo_chunked_head ''28'' 40"
      by (simp add: oversized_def sz demo_pending_def)
    have "content (\<lambda>b. GzReadErr EOF) (head_fields forged_head) (body_data (Sized ''no'')) = Some ''no''" by code_simp
    moreover have "wire_ok ''GET'' forged_head (Sized ''no'')" "room (Response_Reset demo_response) (Sized ''no'')" "length forged_head = 38" by code_simp+
    ultimately show "fits (se_gunzip demo_env) demo_two (pr_method demo_pending) (pr_resp demo_pending) forged_reply"
      by (simp add: fits_def sz forged_reply_def demo_pending_def within_limit_def Response_Reset_def, simp add: demo_env_def)
    show "\<not> isConnectionClose ?resp" by code_simp
    show "bufio_pending conn_pending (reader_of demo_reader demo_overflow) = demo_chunked_head @ ''28'' @ CRLF @ wire_bytes forged_reply @ []"
      unfolding rd by code_simp
    show "bufio_safe conn_safe (reader_of demo_reader demo_overflow) (length demo_chunked_head + (length ''28'' + 2 + length (wire_bytes forged_reply)))"
      unfolding rd by code_simp
    show "rr_scratch demo_reader = nat (cn_readBufSize demo_two)" by (simp add: sz demo_reader_def)
  qed (simp_all add: demo_two_def demo_pending_def, simp_all add: demo_connection_def NewConnection_def Let_def)
  then show ?thesis by blast
qed

section \<open>The counter of active requests\<close>

text \<open>
  A closed connection keeps counting the requests it dropped: when a pipelined connection is closed,
  its waiting requests get an error and leave the queue, but the counter of active requests is not
  lowered. After the connection has been opened again it still counts them; if there were as many as
  the pipeline is deep, the connection never accepts a request again.
\<close>

theorem close_leaks_active:
  assumes "\<not> cn_closing c" "cn_activeReqs c = int (length (cn_pendingReqs c))" "EnablePipelining (cn_config c)"
    "0 < cn_pipelineDepth c" "cn_pipelineDepth c \<le> int (length (cn_pendingReqs c))" "ensureConnection net now (closeConn c) = (True, c')"
  shows "cn_healthy c' \<and> cn_pendingReqs c' = [] \<and> cn_activeReqs c' = int (length (cn_pendingReqs c)) \<and> \<not> CanAcceptRequest c'"
  using assms
  by (auto simp: ensureConnection_def ensure_locked_def connectLocked_def closeConn_def conn_usable_def CanAcceptRequest_def
      split: if_splits option.splits sum.splits)

definition demo_net :: network where
  "demo_net = \<lparr>DialAddr = (\<lambda>h p. Inr demo_wire), DialForward = Inr demo_wire, Handshake = (\<lambda>t c. Inr c)\<rparr>"

definition demo_full :: Connection where
  "demo_full = demo_two\<lparr>cn_config := DefaultConfig\<lparr>EnablePipelining := True\<rparr>, cn_activeReqs := 2, cn_pipelineDepth := 2, cn_dialer := True\<rparr>"

theorem close_leaks_active_witness:
  "\<exists>c'. ensureConnection demo_net 0 (closeConn demo_full) = (True, c') \<and> cn_healthy c' \<and> cn_pendingReqs c' = [] \<and>
     cn_activeReqs c' = 2 \<and> \<not> CanAcceptRequest c'"
proof -
  have f: "\<not> cn_closing demo_full" "cn_activeReqs demo_full = int (length (cn_pendingReqs demo_full))" "EnablePipelining (cn_config demo_full)"
    "0 < cn_pipelineDepth demo_full" "cn_pipelineDepth demo_full \<le> int (length (cn_pendingReqs demo_full))"
    by (simp_all add: demo_full_def demo_two_def demo_connection_def NewConnection_def Let_def)
  have "\<exists>c'. ensureConnection demo_net 0 (closeConn demo_full) = (True, c')"
    by (simp add: ensureConnection_def ensure_locked_def connectLocked_def closeConn_def conn_usable_def demo_net_def demo_full_def demo_two_def
        demo_connection_def NewConnection_def Let_def)
  then obtain c' where c': "ensureConnection demo_net 0 (closeConn demo_full) = (True, c')" by blast
  from close_leaks_active [OF f c'] c' show ?thesis by (auto simp: demo_full_def demo_two_def)
qed

section \<open>A reader of the previous connection\<close>

text \<open>
  A reader goroutine left over from a network connection that was closed closes the next one: the
  channel that wakes readers up belongs to the Connection and not to the reader, so after a reconnect the
  old reader may take the signal of a request sent on the new connection. It then reads from the old,
  closed connection, and on that error closes the new connection and fails the request.
\<close>

theorem stale_reader_closes:
  assumes "cn_pendingReqs c = i # w" "\<not> cn_closing c" "cn_pr c i = Some p" "pr_resp p = Some object" "\<not> pr_cancelled p" "pr_err p = None"
    "b_buf br = []" "b_err br = None" "nc_closed (b_rd br)" "0 < scratch" "i \<notin> set w"
  shows "\<exists>br' c'. reader_iter env scratch br c = Some (Done (Exited, br', c', [])) \<and> cn_conn c' = None \<and> \<not> cn_healthy c' \<and>
    Option.bind (cn_pr c' i) pr_err = Some closed_error"
proof -
  have "bufio_fill conn_Read 100 br = br\<lparr>b_err := Some closed_error\<rparr>"
    using assms(7-9) by (simp add: numeral_eq_Suc conn_Read_def Let_def)
  then have "bufio_ReadByte conn_Read br = (Inl closed_error, br)"
    using assms(7,8) by (simp add: bufio_ReadByte_def)
  then have "scan_header conn_Read br scratch [] = Some (Inl closed_error, br)" using assms(10) by (subst scan_header.simps) simp
  then have rd: "readResponseBuffered conn_Read gz br scratch resp maxBody meth = Some (Done (Some closed_error, resp, br))" for gz resp maxBody meth
    by (simp add: readResponseBuffered_def)
  let ?c = "update_pr i (send_err closed_error) (closeConn (recordError (retire i c)))"
  have it: "reader_iter env scratch br c = Some (Done (Exited, br, ?c, []))"
    using assms(1-5)
    by (simp add: reader_iter_def rd after_failure_def Let_def Response_Reset_def read_failure_def closed_error_def errors_As_timeout_def)
  have r: "cn_pr (recordError d) = cn_pr d" "cn_pendingReqs (recordError d) = cn_pendingReqs d" "cn_closing (recordError d) = cn_closing d" for d
    by (simp_all add: recordError_def advanceHealthWindow_def Let_def)
  have q: "fold (fail_pending e) is m i = m i" if "i \<notin> set is" for e "is" m
    using that by (induction "is" arbitrary: m) (auto simp: fail_pending_def split: option.split)
  have "Option.bind (cn_pr ?c i) pr_err = Some closed_error"
    using assms(1-3,6,11) q by (simp add: update_pr_def closeConn_def r retire_def removePending_def send_err_def)
  moreover have "cn_conn ?c = None" "\<not> cn_healthy ?c"
    using assms(2) by (simp_all add: update_pr_def closeConn_def r retire_def removePending_def)
  ultimately show ?thesis using it by blast
qed

theorem stale_reader_closes_witness:
  "\<exists>br' c'. reader_iter demo_env 65536 (NewReaderSize demo_closed 64) (demo_two\<lparr>cn_conn := Some demo_wire\<rparr>) =
      Some (Done (Exited, br', c', [])) \<and> cn_conn c' = None \<and> \<not> cn_healthy c' \<and> Option.bind (cn_pr c' 0) pr_err = Some closed_error"
  by (rule stale_reader_closes [where p = demo_pending and object = demo_response and w = "[1]"])
    (simp_all add: demo_two_def demo_pending_def NewReaderSize_def demo_closed_def,
     simp_all add: demo_connection_def NewConnection_def Let_def)

end
