(* ===== verification/Pool.thy ===== *)
theory Pool
  imports Pipeline
begin

text \<open>
  The connection pool of \<^verbatim>\<open>pool.go\<close>: one HostPool per origin, found by its key, holding pointers to
  connections. A pointer is a number and the memory a function from numbers to Connections. The operations
  are written as one goroutine runs them; the compare-and-swap loops then succeed at once. What happens
  when several goroutines interleave their atomic steps is in the theory PoolSize.
  The sync.Map is an association list in some order.
\<close>

type_synonym heap = "nat \<Rightarrow> Connection"

record HostPool =
  hp_connections :: "nat list option"
  hp_index :: nat
  hp_maxIdle :: int
  hp_maxActive :: int
  hp_activeCount :: int
  hp_idleCount :: int
  hp_host :: bytes
  hp_dialHost :: bytes
  hp_dialPort :: int
  hp_tlsConfig :: "TLSConfig option"

record Pool =
  pl_hostPools :: "(bytes \<times> HostPool) list"
  pl_config :: Config
  pl_dialer :: "dialer_view option"
  pl_tlsConfig :: "TLSConfig option"
  pl_compressor :: "Compressor option"
  pl_nextConnID :: nat
  pl_stopped :: bool

definition NewPool :: "Config \<Rightarrow> dialer_view option \<Rightarrow> TLSConfig option \<Rightarrow> Compressor option \<Rightarrow> Pool" where
  "NewPool config dialer tlsConfig compressor =
     \<lparr>pl_hostPools = [], pl_config = config, pl_dialer = dialer, pl_tlsConfig = tlsConfig, pl_compressor = compressor,
      pl_nextConnID = 0, pl_stopped = False\<rparr>"

section \<open>Keys\<close>

text \<open>strings.LastIndex with a one-byte pattern: what is before and after the last occurrence.\<close>

definition split_last :: "byte \<Rightarrow> bytes \<Rightarrow> (bytes \<times> bytes) option" where
  "split_last b s =
     (if b \<in> set s then
        (let after = rev (takeWhile (\<lambda>x. x \<noteq> b) (rev s)) in Some (take (length s - length after - 1) s, after))
      else None)"

definition positive_port :: "bytes \<Rightarrow> int \<Rightarrow> int" where
  "positive_port s defaultPort = (case Atoi s of Some p \<Rightarrow> if p > 0 then p else defaultPort | None \<Rightarrow> defaultPort)"

definition parseHostPort :: "bytes \<Rightarrow> bytes \<Rightarrow> int \<Rightarrow> bytes \<times> int" where
  "parseHostPort key defaultHost defaultPort =
     (if key = [] then (defaultHost, defaultPort)
      else if hd key = CHR ''['' then
        (case split_last (CHR '']'') key of
           None \<Rightarrow> (key, defaultPort)
         | Some (before, rest) \<Rightarrow>
             (tl before, if rest \<noteq> [] \<and> hd rest = CHR '':'' then positive_port (tl rest) defaultPort else defaultPort))
      else
        (case split_last (CHR '':'') key of
           None \<Rightarrow> (key, defaultPort)
         | Some (host, port) \<Rightarrow> (host, positive_port port defaultPort)))"

text \<open>\<open>fmt.Sprintf("%s://%s:%d", scheme, host, port)\<close>, as client.go and pool.go build keys.\<close>

definition pool_key :: "bool \<Rightarrow> bytes \<Rightarrow> int \<Rightarrow> bytes" where
  "pool_key useTLS host port = (if useTLS then ''https'' else ''http'') @ ''://'' @ host @ '':'' @ Itoa port"

definition strip_scheme :: "bytes \<Rightarrow> bytes" where
  "strip_scheme key = (case first_occ ''://'' key of None \<Rightarrow> key | Some idx \<Rightarrow> drop (idx + 3) key)"

section \<open>Host pools\<close>

definition host_tls :: "Pool \<Rightarrow> bool \<Rightarrow> bytes \<Rightarrow> TLSConfig option" where
  "host_tls p useTLS dialHost =
     (if \<not> useTLS then None
      else if pl_tlsConfig p \<noteq> None \<and> Host (pl_config p) = dialHost then pl_tlsConfig p
      else
        (let hostConfig = BuildTLSConfig (pl_config p);
             hostConfig = hostConfig\<lparr>ServerName := dialHost, ClientSessionCache := Some 256, SessionTicketsDisabled := False\<rparr>;
             hsTimeout = TLSHandshakeTimeout (pl_config p)
         in Some \<lparr>tc_config = hostConfig, handshakeTimeout = (if hsTimeout \<le> 0 then 10 * Second else hsTimeout),
                  enableLogging = EnableLogging (pl_config p)\<rparr>))"

definition new_host_pool :: "Pool \<Rightarrow> bytes \<Rightarrow> bool \<Rightarrow> HostPool" where
  "new_host_pool p key useTLS =
     (let config = pl_config p;
          maxIdle = (if MaxIdleConnsPerHost config \<le> 0 then (if PoolSize config \<le> 0 then 512 else PoolSize config)
                     else MaxIdleConnsPerHost config);
          maxActive = (if PoolSize config \<le> 0 then 512 else PoolSize config)
      in case parseHostPort (strip_scheme key) (Host config) (Port config) of (dialHost, dialPort) \<Rightarrow>
           \<lparr>hp_connections = Some [], hp_index = 0, hp_maxIdle = maxIdle, hp_maxActive = maxActive, hp_activeCount = 0,
            hp_idleCount = 0, hp_host = key, hp_dialHost = dialHost, hp_dialPort = dialPort,
            hp_tlsConfig = host_tls p useTLS dialHost\<rparr>)"

definition getHostPool :: "Pool \<Rightarrow> bytes \<Rightarrow> bool \<Rightarrow> HostPool \<times> Pool" where
  "getHostPool p key useTLS =
     (case map_of (pl_hostPools p) key of
        Some hp \<Rightarrow> (hp, p)
      | None \<Rightarrow> (let hp = new_host_pool p key useTLS in (hp, p\<lparr>pl_hostPools := (key, hp) # pl_hostPools p\<rparr>)))"

definition put_host_pool :: "bytes \<Rightarrow> HostPool \<Rightarrow> Pool \<Rightarrow> Pool" where
  "put_host_pool key hp p = p\<lparr>pl_hostPools := map (\<lambda>(k, h). (k, if k = key then hp else h)) (pl_hostPools p)\<rparr>"

section \<open>Removing connections\<close>

definition stop_all :: "nat list \<Rightarrow> heap \<Rightarrow> heap" where
  "stop_all cs heap = fold (\<lambda>c heap. heap(c := Connection_Stop (heap c))) cs heap"

definition removeUnhealthyConnections :: "nat list \<Rightarrow> heap \<Rightarrow> HostPool \<Rightarrow> heap \<times> HostPool" where
  "removeUnhealthyConnections bad heap hp =
     (if bad = [] then (heap, hp)
      else
        (case hp_connections hp of
           None \<Rightarrow> (heap, hp)
         | Some old \<Rightarrow>
             (let newConns = filter (\<lambda>c. c \<notin> set bad) old;
                  removed = length old - length newConns
              in if removed = 0 then (heap, hp)
                 else (stop_all bad heap,
                       hp\<lparr>hp_connections := Some newConns, hp_activeCount := i32 (hp_activeCount hp - int removed),
                          hp_idleCount := i32 (hp_idleCount hp - int removed)\<rparr>))))"

section \<open>Choosing a connection\<close>

text \<open>The positions a scan visits: \<open>(startIndex + i) % connCount\<close> in uint32 arithmetic, for \<open>i\<close> from \<open>a\<close> to \<open>b\<close>.\<close>

definition scan_order :: "nat \<Rightarrow> nat \<Rightarrow> nat \<Rightarrow> nat \<Rightarrow> nat list" where
  "scan_order startIndex connCount a b = map (\<lambda>i. u32 (int startIndex + int i) mod connCount) [a..<b]"

definition keep_best :: "nat \<Rightarrow> int \<Rightarrow> nat \<Rightarrow> (nat \<times> int \<times> nat) option \<Rightarrow> (nat \<times> int \<times> nat) option" where
  "keep_best c score idx best =
     (case best of None \<Rightarrow> Some (c, score, idx)
      | Some (_, bestScore, _) \<Rightarrow> if score > bestScore then Some (c, score, idx) else best)"

text \<open>The first scan: the best connection with its score and position, and the unhealthy ones met.\<close>

fun scan_best :: "heap \<Rightarrow> nat list \<Rightarrow> nat list \<Rightarrow> (nat \<times> int \<times> nat) option \<Rightarrow> nat list \<Rightarrow> (nat \<times> int \<times> nat) option \<times> nat list" where
  "scan_best heap conns [] best bad = (best, bad)"
| "scan_best heap conns (idx # r) best bad =
     (let c = conns ! idx in
      if \<not> IsHealthy (heap c) then scan_best heap conns r best (bad @ [c])
      else if \<not> CanAcceptRequest (heap c) then scan_best heap conns r best bad
      else
        (let score = HealthScore (heap c);
             best = keep_best c score idx best
         in if score = 100 then (best, bad) else scan_best heap conns r best bad))"

text \<open>The compare-and-swap of activeReqs that claims a connection for one exchange; pipelined ones are shared.\<close>

definition claim :: "nat \<Rightarrow> heap \<Rightarrow> heap option" where
  "claim c heap =
     (if EnablePipelining (cn_config (heap c)) then Some heap
      else if cn_activeReqs (heap c) = 0 then Some (heap(c := (heap c)\<lparr>cn_activeReqs := 1, cn_poolClaimed := True\<rparr>))
      else None)"

text \<open>The second scan, over the rest of a large pool: the first connection that accepts.\<close>

fun scan_rest :: "heap \<Rightarrow> nat list \<Rightarrow> nat list \<Rightarrow> nat list \<Rightarrow> (nat \<times> nat \<times> heap) option \<times> nat list" where
  "scan_rest heap conns [] bad = (None, bad)"
| "scan_rest heap conns (idx # r) bad =
     (let c = conns ! idx in
      if \<not> IsHealthy (heap c) then scan_rest heap conns r (bad @ [c])
      else if CanAcceptRequest (heap c) then
        (case claim c heap of
           None \<Rightarrow> scan_rest heap conns r bad
         | Some heap \<Rightarrow> (Some (c, idx, heap), bad))
      else scan_rest heap conns r bad)"

definition idle_rest :: "heap \<Rightarrow> HostPool \<Rightarrow> nat list \<Rightarrow> nat \<Rightarrow> nat option \<times> heap \<times> HostPool" where
  "idle_rest heap hp conns maxScan =
     (if maxScan < length conns then
        (case scan_rest heap conns (scan_order (hp_index hp) (length conns) maxScan (length conns)) [] of
           (Some (c, idx, heap), bad) \<Rightarrow>
             (case removeUnhealthyConnections bad heap (hp\<lparr>hp_index := (idx + 1) mod length conns\<rparr>) of
                (heap, hp) \<Rightarrow> (Some c, heap, hp))
         | (None, bad) \<Rightarrow>
             (case removeUnhealthyConnections bad heap hp of (heap, hp) \<Rightarrow> (None, heap, hp)))
      else (None, heap, hp))"

text \<open>
  The loop of getIdleConnection. It goes round again after it has removed unhealthy connections without
  finding a good one, so it ends after as many rounds as there are connections (theory Selection); the first argument counts the rounds.
\<close>

fun getIdle_loop :: "nat \<Rightarrow> heap \<Rightarrow> HostPool \<Rightarrow> (nat option \<times> heap \<times> HostPool) option" where
  "getIdle_loop 0 heap hp = None"
| "getIdle_loop (Suc rounds) heap hp =
     (case hp_connections hp of
        None \<Rightarrow> Some (None, heap, hp)
      | Some conns \<Rightarrow>
          if conns = [] then Some (None, heap, hp)
          else
            (let connCount = length conns;
                 maxScan = (if connCount > 16 then 16 else connCount)
             in case scan_best heap conns (scan_order (hp_index hp) connCount 0 maxScan) None [] of (best, bad) \<Rightarrow>
                  (case removeUnhealthyConnections bad heap hp of (heap, hp) \<Rightarrow>
                     (case best of
                        None \<Rightarrow>
                          if bad \<noteq> [] then getIdle_loop rounds heap hp
                          else Some (idle_rest heap hp conns maxScan)
                      | Some (c, _, bestIdx) \<Rightarrow>
                          (case claim c heap of
                             None \<Rightarrow> getIdle_loop rounds heap hp
                           | Some heap \<Rightarrow> Some (Some c, heap, hp\<lparr>hp_index := (bestIdx + 1) mod connCount\<rparr>))))))"

definition rounds_needed :: "HostPool \<Rightarrow> nat" where
  "rounds_needed hp = (case hp_connections hp of None \<Rightarrow> 1 | Some conns \<Rightarrow> Suc (length conns))"

definition getIdleConnection :: "heap \<Rightarrow> HostPool \<Rightarrow> (nat option \<times> heap \<times> HostPool) option" where
  "getIdleConnection heap hp = getIdle_loop (rounds_needed hp) heap hp"

text \<open>The loop of getAnyConnection, with the same count of rounds.\<close>

fun find_healthy :: "heap \<Rightarrow> nat list \<Rightarrow> nat list \<Rightarrow> nat list \<Rightarrow> (nat \<times> nat) option \<times> nat list" where
  "find_healthy heap conns [] bad = (None, bad)"
| "find_healthy heap conns (idx # r) bad =
     (let c = conns ! idx in
      if IsHealthy (heap c) then (Some (c, idx), bad) else find_healthy heap conns r (bad @ [c]))"

fun getAny_loop :: "nat \<Rightarrow> heap \<Rightarrow> HostPool \<Rightarrow> (nat option \<times> heap \<times> HostPool) option" where
  "getAny_loop 0 heap hp = None"
| "getAny_loop (Suc rounds) heap hp =
     (case hp_connections hp of
        None \<Rightarrow> Some (None, heap, hp)
      | Some conns \<Rightarrow>
          if conns = [] then Some (None, heap, hp)
          else
            (let connCount = length conns;
                 startIndex = hp_index hp;
                 firstIndex = startIndex mod connCount;
                 firstConn = conns ! firstIndex
             in if IsHealthy (heap firstConn) then Some (Some firstConn, heap, hp\<lparr>hp_index := (firstIndex + 1) mod connCount\<rparr>)
                else
                  (let maxScan = (if connCount > 8 then 8 else connCount) in
                   case find_healthy heap conns (scan_order startIndex connCount 1 maxScan) [firstConn] of (found, bad) \<Rightarrow>
                     (case found of
                        Some (c, idx) \<Rightarrow>
                          (case removeUnhealthyConnections bad heap (hp\<lparr>hp_index := (idx + 1) mod connCount\<rparr>) of
                             (heap, hp) \<Rightarrow> Some (Some c, heap, hp))
                      | None \<Rightarrow>
                          (case removeUnhealthyConnections bad heap hp of (heap, hp) \<Rightarrow> getAny_loop rounds heap hp)))))"

definition getAnyConnection :: "heap \<Rightarrow> HostPool \<Rightarrow> (nat option \<times> heap \<times> HostPool) option" where
  "getAnyConnection heap hp = getAny_loop (rounds_needed hp) heap hp"

section \<open>Creating a connection\<close>

definition createConnection ::
  "network \<Rightarrow> int \<Rightarrow> heap \<Rightarrow> Pool \<Rightarrow> HostPool \<Rightarrow> nat option \<times> heap \<times> Pool \<times> HostPool" where
  "createConnection net now heap p hp =
     (if hp_activeCount hp \<ge> i32 (hp_maxIdle hp) then (None, heap, p, hp)
      else
        (let hp = hp\<lparr>hp_activeCount := i32 (hp_activeCount hp + 1)\<rparr>;
             connID = pl_nextConnID p + 1;
             p = p\<lparr>pl_nextConnID := connID\<rparr>;
             conn = NewConnection now (i32 (int connID)) (hp_dialHost hp) (hp_dialPort hp) (pl_config p) (pl_dialer p)
                      (hp_tlsConfig hp) (pl_compressor p)
         in case ensureConnection net now conn of
              (False, _) \<Rightarrow> (None, heap, p, hp\<lparr>hp_activeCount := i32 (hp_activeCount hp - 1)\<rparr>)
            | (True, conn) \<Rightarrow>
                (case hp_connections hp of
                   None \<Rightarrow> (None, heap, p, hp\<lparr>hp_activeCount := i32 (hp_activeCount hp - 1)\<rparr>)
                 | Some old \<Rightarrow>
                     (Some connID, heap(connID := conn), p,
                      hp\<lparr>hp_connections := Some (old @ [connID]), hp_idleCount := i32 (hp_idleCount hp + 1)\<rparr>))))"

section \<open>GetConnection\<close>

text \<open>\<open>dialTime k\<close> is the time the k-th attempt spent in createConnection.\<close>

definition maxAttempts :: nat where
  "maxAttempts = 20"

fun get_loop ::
  "(nat \<Rightarrow> network) \<Rightarrow> (nat \<Rightarrow> int) \<Rightarrow> (nat \<Rightarrow> int) \<Rightarrow> nat \<Rightarrow> heap \<Rightarrow> Pool \<Rightarrow> HostPool \<Rightarrow>
   (nat option \<times> heap \<times> Pool \<times> HostPool) option" where
  "get_loop net now dialTime 0 heap p hp = Some (None, heap, p, hp)"
| "get_loop net now dialTime (Suc left) heap p hp =
     (case getIdleConnection heap hp of
        None \<Rightarrow> None
      | Some (Some c, heap, hp) \<Rightarrow> Some (Some c, heap, p, hp)
      | Some (None, heap, hp) \<Rightarrow>
          (case createConnection (net left) (now left) heap p hp of
             (Some c, heap, p, hp) \<Rightarrow> Some (Some c, heap, p, hp)
           | (None, heap, p, hp) \<Rightarrow>
               if dialTime left > Millisecond then Some (None, heap, p, hp)
               else
                 (case getAnyConnection heap hp of
                    None \<Rightarrow> None
                  | Some (Some c, heap, hp) \<Rightarrow> Some (Some c, heap, p, hp)
                  | Some (None, heap, hp) \<Rightarrow> get_loop net now dialTime left heap p hp)))"

definition GetConnection ::
  "(nat \<Rightarrow> network) \<Rightarrow> (nat \<Rightarrow> int) \<Rightarrow> (nat \<Rightarrow> int) \<Rightarrow> heap \<Rightarrow> Pool \<Rightarrow> bytes \<Rightarrow> bool \<Rightarrow> (nat option \<times> heap \<times> Pool) option" where
  "GetConnection net now dialTime heap p key useTLS =
     (let useTLS = (if key = [] then UseTLS (pl_config p) else useTLS);
          key = (if key = [] then pool_key (UseTLS (pl_config p)) (Host (pl_config p)) (Port (pl_config p)) else key)
      in case getHostPool p key useTLS of (hp, p) \<Rightarrow>
           map_option (\<lambda>(c, heap, p, hp). (c, heap, put_host_pool key hp p)) (get_loop net now dialTime maxAttempts heap p hp))"

fun warm_up :: "network \<Rightarrow> int \<Rightarrow> nat \<Rightarrow> heap \<Rightarrow> Pool \<Rightarrow> HostPool \<Rightarrow> nat \<times> heap \<times> Pool \<times> HostPool" where
  "warm_up net now 0 heap p hp = (0, heap, p, hp)"
| "warm_up net now (Suc n) heap p hp =
     (case createConnection net now heap p hp of
        (None, heap, p, hp) \<Rightarrow> (0, heap, p, hp)
      | (Some _, heap, p, hp) \<Rightarrow> (case warm_up net now n heap p hp of (created, rest) \<Rightarrow> (Suc created, rest)))"

definition WarmUp :: "network \<Rightarrow> int \<Rightarrow> heap \<Rightarrow> Pool \<Rightarrow> bytes \<Rightarrow> bool \<Rightarrow> int \<Rightarrow> nat \<times> heap \<times> Pool" where
  "WarmUp net now heap p key useTLS n =
     (if n \<le> 0 then (0, heap, p)
      else
        (case getHostPool p key useTLS of (hp, p) \<Rightarrow>
           (case warm_up net now (nat n) heap p hp of (created, heap, p, hp) \<Rightarrow> (created, heap, put_host_pool key hp p))))"

section \<open>Maintenance\<close>

definition pool_conns :: "HostPool \<Rightarrow> nat list" where
  "pool_conns hp = (case hp_connections hp of None \<Rightarrow> [] | Some conns \<Rightarrow> conns)"

definition eachConnection :: "Pool \<Rightarrow> (bytes \<times> nat) list" where
  "eachConnection p = concat (map (\<lambda>(host, hp). map (Pair host) (pool_conns hp)) (pl_hostPools p))"

definition activeRequests :: "heap \<Rightarrow> Pool \<Rightarrow> int" where
  "activeRequests heap p = (\<Sum>(host, c) \<leftarrow> eachConnection p. cn_activeReqs (heap c))"

definition GetHealthyConnections :: "heap \<Rightarrow> Pool \<Rightarrow> nat" where
  "GetHealthyConnections heap p = length (filter (\<lambda>(host, c). IsHealthy (heap c)) (eachConnection p))"

text \<open>Stopping closes every connection and forgets the host pools.\<close>

definition drop_pools :: "heap \<Rightarrow> Pool \<Rightarrow> heap \<times> Pool" where
  "drop_pools heap p = (stop_all (map snd (eachConnection p)) heap, p\<lparr>pl_hostPools := []\<rparr>)"

definition Pool_Stop :: "heap \<Rightarrow> Pool \<Rightarrow> heap \<times> Pool" where
  "Pool_Stop heap p = drop_pools heap (p\<lparr>pl_stopped := True\<rparr>)"

text \<open>
  GracefulStop polls every ten milliseconds; a poll finds the memory and the pool as the other
  goroutines have left them, at a time of the clock. Polls that never end the loop would be an infinite
  sequence: the list is the part of it that is needed, and \<open>None\<close> says that it was too short.
\<close>

fun graceful_loop :: "int \<Rightarrow> (int \<times> heap \<times> Pool) list \<Rightarrow> (bool \<times> heap \<times> Pool) option" where
  "graceful_loop deadline [] = None"
| "graceful_loop deadline ((now, heap, p) # polls) =
     (if now > deadline then Some (False, Pool_Stop heap p)
      else if activeRequests heap p = 0 then Some (True, drop_pools heap p)
      else graceful_loop deadline polls)"

definition GracefulStop :: "int \<Rightarrow> int \<Rightarrow> (int \<times> heap \<times> Pool) list \<Rightarrow> (bool \<times> heap \<times> Pool) option" where
  "GracefulStop start timeout polls = graceful_loop (start + timeout) (map (\<lambda>(now, heap, p). (now, heap, p\<lparr>pl_stopped := True\<rparr>)) polls)"

definition idle_since :: "int \<Rightarrow> int \<Rightarrow> heap \<Rightarrow> nat \<Rightarrow> bool" where
  "idle_since now threshold heap c \<longleftrightarrow>
     cn_activeReqs (heap c) = 0 \<and> IsHealthy (heap c) \<and> i64 (now - cn_lastUsed (heap c)) > threshold"

fun evict_hosts :: "int \<Rightarrow> int \<Rightarrow> heap \<Rightarrow> (bytes \<times> HostPool) list \<Rightarrow> heap \<times> (bytes \<times> HostPool) list" where
  "evict_hosts now threshold heap [] = (heap, [])"
| "evict_hosts now threshold heap ((host, hp) # r) =
     (case removeUnhealthyConnections (filter (idle_since now threshold heap) (pool_conns hp)) heap hp of (heap, hp) \<Rightarrow>
        (case evict_hosts now threshold heap r of (heap, r) \<Rightarrow> (heap, (host, hp) # r)))"

definition evictIdleConnections :: "int \<Rightarrow> heap \<Rightarrow> Pool \<Rightarrow> heap \<times> Pool" where
  "evictIdleConnections now heap p =
     (case evict_hosts now (IdleTimeout (pl_config p)) heap (pl_hostPools p) of (heap, hosts) \<Rightarrow> (heap, p\<lparr>pl_hostPools := hosts\<rparr>))"

end
