(* ===== verification/Selection.thy ===== *)
theory Selection
  imports Pool
begin

text \<open>
  What the pool of \<^verbatim>\<open>pool.go\<close> promises its clients: the keys of two origins never meet, the search for an idle
  connection ends and misses none, a connection it returns is claimed for the caller, and what
  GetConnection falls back on when every connection is taken.
\<close>

section \<open>Keys name their origin\<close>

lemma split_last_append: "b \<notin> set s \<Longrightarrow> split_last b (h @ b # s) = Some (h, s)"
proof -
  assume b: "b \<notin> set s"
  then have "takeWhile (\<lambda>x. x \<noteq> b) (rev s @ b # rev h) = rev s"
    using takeWhile_append2 [of "rev s" "\<lambda>x. x \<noteq> b" "b # rev h"] by fastforce
  then show ?thesis by (simp add: split_last_def Let_def)
qed

lemma strip_scheme_key: "strip_scheme (pool_key useTLS host port) = host @ '':'' @ Itoa port"
  by (simp add: strip_scheme_def pool_key_def first_occ.simps)

lemma colon_not_digit: "CHR '':'' \<notin> set (itoa n)"
  using itoa_digits [of n] by (auto simp: is_digit_def)

lemma parseHostPort_key:
  assumes "take 1 host \<noteq> ''[''" "0 < port" "port < 2 ^ 63"
  shows "parseHostPort (strip_scheme (pool_key useTLS host port)) dh dp = (host, port)"
proof -
  have "Itoa port = itoa (nat port)" using assms(2) by (simp add: Itoa_def)
  moreover have "Atoi (itoa (nat port)) = Some port"
    using Atoi_itoa [of "nat port"] assms(2,3) by (simp add: nat_less_iff)
  moreover have "hd (host @ '':'' @ itoa (nat port)) \<noteq> CHR ''[''" using assms(1) by (cases host) auto
  ultimately show ?thesis
    using split_last_append [OF colon_not_digit, of host "nat port"] assms(2)
    by (simp add: strip_scheme_key parseHostPort_def positive_port_def)
qed

text \<open>
  C15. A pool belongs to one origin: the host pool for the key of scheme, host and port dials exactly this
  host and port, with TLS if and only if the scheme is https and then with this host as server name
  unless the configured TLS settings are for it, and two different origins have different keys, so
  they never share a connection.
\<close>

theorem pool_key_origin:
  assumes "take 1 host \<noteq> ''[''" "0 < port" "port < 2 ^ 63" "take 1 host' \<noteq> ''[''" "0 < port'" "port' < 2 ^ 63"
  shows "hp_dialHost (new_host_pool p (pool_key useTLS host port) useTLS) = host \<and>
    hp_dialPort (new_host_pool p (pool_key useTLS host port) useTLS) = port \<and>
    (hp_tlsConfig (new_host_pool p (pool_key useTLS host port) useTLS) = None \<longleftrightarrow> \<not> useTLS) \<and>
    (pool_key useTLS host port = pool_key useTLS' host' port' \<longleftrightarrow> useTLS = useTLS' \<and> host = host' \<and> port = port')"
proof -
  note k = parseHostPort_key [OF assms(1-3)] and k' = parseHostPort_key [OF assms(4-6)]
  have "host = host' \<and> port = port'" if "pool_key useTLS host port = pool_key useTLS' host' port'"
    using k [of useTLS "[]" 0] k' [of useTLS' "[]" 0] that by simp
  moreover have "useTLS = useTLS'" if "pool_key useTLS host port = pool_key useTLS' host' port'"
    using that by (simp add: pool_key_def split: if_splits)
  ultimately show ?thesis
    using k by (auto simp: new_host_pool_def Let_def host_tls_def)
qed

theorem pool_key_origin_witness:
  "hp_dialHost (new_host_pool (NewPool DefaultConfig None None None) (pool_key True ''::1'' 8443) True) = ''::1'' \<and>
   hp_dialPort (new_host_pool (NewPool DefaultConfig None None None) (pool_key True ''::1'' 8443) True) = 8443 \<and>
   pool_key True ''::1'' 8443 \<noteq> pool_key False ''::1'' 8443"
  using pool_key_origin [of "''::1''" 8443 "''::1''" 8443 "NewPool DefaultConfig None None None" True False] by simp

section \<open>The choice of a connection\<close>

definition acceptable :: "heap \<Rightarrow> nat \<Rightarrow> bool" where
  "acceptable heap c \<longleftrightarrow> IsHealthy (heap c) \<and> CanAcceptRequest (heap c)"

text \<open>What the first scan reports: a connection that accepts, unless there is none at the positions it visits.\<close>

lemma keep_best_cases:
  "keep_best c s i best = Some (d, s', i') \<Longrightarrow> (d = c \<and> i' = i) \<or> best = Some (d, s', i')"
  by (auto simp: keep_best_def split: option.splits if_splits)

lemma keep_best_some: "keep_best c s i best \<noteq> None"
  by (auto simp: keep_best_def split: option.split)

lemma scan_best_found:
  assumes "scan_best heap conns idxs best bad = (Some (c, sc, idx), bad')"
    "\<And>c sc i. best = Some (c, sc, i) \<Longrightarrow> acceptable heap c \<and> c \<in> S" "\<forall>i \<in> set idxs. conns ! i \<in> S"
  shows "acceptable heap c \<and> c \<in> S"
  using assms
proof (induction idxs arbitrary: best bad)
  case (Cons i r)
  let ?c = "conns ! i"
  show ?case
  proof (cases "acceptable heap ?c")
    case True
    let ?best = "keep_best ?c (HealthScore (heap ?c)) i best"
    have b: "acceptable heap d \<and> d \<in> S" if "?best = Some (d, s, k)" for d s k
      using keep_best_cases [OF that] Cons.prems(2,3) True by auto
    show ?thesis
      using Cons.IH [of ?best bad, OF _ b] b [of c sc idx] Cons.prems(1,3) True
      by (auto simp: acceptable_def Let_def split: if_splits)
  next
    case False
    then show ?thesis
      using Cons.prems Cons.IH [of best "if IsHealthy (heap ?c) then bad else bad @ [?c]", OF _ Cons.prems(2)]
      by (simp add: acceptable_def Let_def split: if_splits)
  qed
qed auto

lemma scan_best_some: "b \<noteq> None \<Longrightarrow> fst (scan_best heap conns idxs b bad) \<noteq> None"
  by (induction idxs arbitrary: b bad) (simp_all add: Let_def keep_best_some del: not_None_eq)

lemma scan_best_missed:
  assumes "scan_best heap conns idxs None bad = (None, bad')"
  shows "bad' = bad @ filter (\<lambda>c. \<not> IsHealthy (heap c)) (map ((!) conns) idxs) \<and> (\<forall>i \<in> set idxs. \<not> acceptable heap (conns ! i))"
  using assms
proof (induction idxs arbitrary: bad)
  case (Cons i r)
  have no: "\<not> acceptable heap (conns ! i)"
    using Cons.prems scan_best_some [OF keep_best_some, of heap conns r "conns ! i" "HealthScore (heap (conns ! i))" i None bad]
      keep_best_some [of "conns ! i" "HealthScore (heap (conns ! i))" i None]
    by (auto simp: acceptable_def Let_def split: if_splits)
  then show ?case
    using Cons.prems Cons.IH [of "if IsHealthy (heap (conns ! i)) then bad else bad @ [conns ! i]"]
    by (simp add: acceptable_def Let_def split: if_splits)
qed simp

lemma scan_best_bad:
  "scan_best heap conns idxs best bad = (b, bad') \<Longrightarrow> \<forall>c \<in> set bad. \<not> IsHealthy (heap c) \<Longrightarrow> \<forall>c \<in> set bad'. \<not> IsHealthy (heap c)"
proof (induction idxs arbitrary: best bad)
  case (Cons i r)
  show ?case
    using Cons.prems Cons.IH [of best "bad @ [conns ! i]"] Cons.IH [of _ bad] by (simp add: Let_def split: if_splits)
qed auto

text \<open>The second scan; claiming a connection that accepts cannot fail.\<close>

definition claimed :: "nat \<Rightarrow> heap \<Rightarrow> heap" where
  "claimed c heap =
     (if EnablePipelining (cn_config (heap c)) then heap else heap(c := (heap c)\<lparr>cn_activeReqs := 1, cn_poolClaimed := True\<rparr>))"

lemma claim_acceptable: "acceptable heap c \<Longrightarrow> claim c heap = Some (claimed c heap)"
  by (auto simp: acceptable_def claim_def claimed_def CanAcceptRequest_def split: if_splits)

lemma claimed_healthy [simp]: "IsHealthy (claimed c heap d) = IsHealthy (heap d)"
  by (simp add: claimed_def IsHealthy_def)

lemma claimed_other: "d \<noteq> c \<Longrightarrow> claimed c heap d = heap d"
  by (simp add: claimed_def)

lemma scan_rest_result:
  assumes "scan_rest heap conns idxs bad = (found, bad')" "\<forall>c \<in> set bad. \<not> IsHealthy (heap c)"
  shows "(\<forall>c \<in> set bad'. \<not> IsHealthy (heap c)) \<and>
    (case found of None \<Rightarrow> \<forall>i \<in> set idxs. \<not> acceptable heap (conns ! i)
     | Some (c, i, heap') \<Rightarrow> i \<in> set idxs \<and> c = conns ! i \<and> acceptable heap c \<and> heap' = claimed c heap)"
  using assms
proof (induction idxs arbitrary: bad)
  case (Cons i r)
  let ?c = "conns ! i"
  show ?case
  proof (cases "acceptable heap ?c")
    case True
    then show ?thesis
      using Cons.prems claim_acceptable [OF True] by (auto simp: acceptable_def Let_def)
  next
    case False
    have "scan_rest heap conns r (if IsHealthy (heap ?c) then bad else bad @ [?c]) = (found, bad')"
      using Cons.prems(1) False by (simp add: acceptable_def Let_def split: if_splits)
    moreover have "\<forall>c \<in> set (if IsHealthy (heap ?c) then bad else bad @ [?c]). \<not> IsHealthy (heap c)"
      using Cons.prems(2) by simp
    ultimately have ih: "(\<forall>c \<in> set bad'. \<not> IsHealthy (heap c)) \<and>
      (case found of None \<Rightarrow> \<forall>i \<in> set r. \<not> acceptable heap (conns ! i)
       | Some (c, i, heap') \<Rightarrow> i \<in> set r \<and> c = conns ! i \<and> acceptable heap c \<and> heap' = claimed c heap)"
      by (rule Cons.IH)
    show ?thesis
    proof (cases found)
      case None
      then show ?thesis using ih False by simp
    next
      case (Some f)
      then show ?thesis using ih by (cases f) simp
    qed
  qed
qed auto

text \<open>Removing unhealthy connections leaves the healthy ones alone.\<close>

lemma Stop_unhealthy [simp]: "\<not> IsHealthy (Connection_Stop c)"
  by (simp add: IsHealthy_def Connection_Stop_def closeConn_def)

lemma stop_all_other: "d \<notin> set cs \<Longrightarrow> stop_all cs heap d = heap d"
  unfolding stop_all_def by (induction cs arbitrary: heap) auto

lemma stop_all_unhealthy: "\<not> IsHealthy (heap d) \<Longrightarrow> \<not> IsHealthy (stop_all cs heap d)"
  unfolding stop_all_def by (induction cs arbitrary: heap) auto

lemma remove_connections:
  assumes "removeUnhealthyConnections bad heap hp = (heap', hp')" "hp_connections hp = Some conns"
  shows "hp_connections hp' = Some (filter (\<lambda>c. c \<notin> set bad) conns) \<and> hp_index hp' = hp_index hp"
proof -
  have "filter (\<lambda>c. c \<notin> set bad) conns = conns" if "length conns - length (filter (\<lambda>c. c \<notin> set bad) conns) = 0"
  proof (rule filter_True, rule ballI, rule ccontr)
    fix x assume "x \<in> set conns" "\<not> x \<notin> set bad"
    then show False using length_filter_less [of x conns "\<lambda>c. c \<notin> set bad"] that by simp
  qed
  then show ?thesis
    using assms by (auto simp: removeUnhealthyConnections_def Let_def split: if_splits)
qed

lemma remove_heap:
  assumes "removeUnhealthyConnections bad heap hp = (heap', hp')" "\<forall>c \<in> set bad. \<not> IsHealthy (heap c)"
  shows "IsHealthy (heap d) \<Longrightarrow> heap' d = heap d" and "IsHealthy (heap' d) = IsHealthy (heap d)"
proof -
  have h: "heap' = heap \<or> heap' = stop_all bad heap"
    using assms(1) by (auto simp: removeUnhealthyConnections_def Let_def split: if_splits option.splits)
  show d: "heap' d = heap d" if "IsHealthy (heap d)"
    using h stop_all_other [of d bad heap] assms(2) that by auto
  show "IsHealthy (heap' d) = IsHealthy (heap d)"
    using h d stop_all_unhealthy [of heap d bad] by auto
qed

lemma remove_acceptable:
  assumes "removeUnhealthyConnections bad heap hp = (heap', hp')" "\<forall>c \<in> set bad. \<not> IsHealthy (heap c)"
  shows "acceptable heap' d = acceptable heap d"
  using remove_heap [OF assms, of d] by (auto simp: acceptable_def)

text \<open>A scan of all positions visits every connection, wherever it starts.\<close>

lemma mod_positions: "0 < n \<Longrightarrow> (\<lambda>i. (s + i) mod n) ` {0..<n} = {0..<(n :: nat)}"
proof -
  assume n: "0 < n"
  have le: "i = j" if "i \<le> j" "j < n" "(s + i) mod n = (s + j) mod n" for i j
    using that mod_eq_dvd_iff_nat [of "s + i" "s + j" n] by (auto dest: dvd_imp_le)
  have "inj_on (\<lambda>i. (s + i) mod n) {0..<n}"
    by (rule inj_onI) (metis atLeastLessThan_iff le nat_le_linear)
  then show ?thesis using n by (intro endo_inj_surj) auto
qed

lemma scan_order_u32: "s + n \<le> 2 ^ 32 \<Longrightarrow> b \<le> n \<Longrightarrow> scan_order s n a b = map (\<lambda>i. (s + i) mod n) [a..<b]"
proof -
  have "u32 (int s + int i) = s + i" if "s + i < 2 ^ 32" for i
    using that unfolding u32_def by (subst mod_pos_pos_trivial) auto
  then show "s + n \<le> 2 ^ 32 \<Longrightarrow> b \<le> n \<Longrightarrow> ?thesis" unfolding scan_order_def by (intro map_cong) auto
qed

lemma scan_all: "s + n \<le> 2 ^ 32 \<Longrightarrow> 0 < n \<Longrightarrow> set (scan_order s n 0 n) = {0..<n}"
  using mod_positions [of n s] by (simp add: scan_order_u32)

lemma scan_split: "a \<le> n \<Longrightarrow> scan_order s n 0 a @ scan_order s n a n = scan_order s n 0 n"
  using upt_add_eq_append [of 0 a "n - a"] by (simp add: scan_order_def flip: map_append)

section \<open>The search for an idle connection\<close>

text \<open>
  What a search among \<open>conns\<close> owes its caller: nothing only if no connection accepts; otherwise one that
  does, claimed for the caller, with every other healthy connection as it was.
\<close>

definition idle_answer :: "heap \<Rightarrow> nat list \<Rightarrow> nat option \<Rightarrow> heap \<Rightarrow> bool" where
  "idle_answer heap conns res heap' =
     (case res of
        None \<Rightarrow> (\<forall>c \<in> set conns. \<not> acceptable heap c) \<and> (\<forall>d. IsHealthy (heap d) \<longrightarrow> heap' d = heap d)
      | Some c \<Rightarrow> c \<in> set conns \<and> acceptable heap c \<and> heap' c = claimed c heap c \<and>
          (\<forall>d. IsHealthy (heap d) \<and> d \<noteq> c \<longrightarrow> heap' d = heap d))"

lemma idle_answer_keep:
  assumes "idle_answer heap1 conns1 res heap'" "set conns1 \<subseteq> set conns" "\<forall>c \<in> set conns. acceptable heap c \<longrightarrow> c \<in> set conns1"
    "\<And>d. IsHealthy (heap d) \<Longrightarrow> heap1 d = heap d" "\<And>d. acceptable heap1 d = acceptable heap d"
  shows "idle_answer heap conns res heap'"
proof (cases res)
  case None
  then show ?thesis using assms by (auto simp: idle_answer_def)
next
  case (Some c)
  have "heap1 c = heap c" using assms(1,4,5) Some by (auto simp: idle_answer_def acceptable_def)
  then have "claimed c heap1 c = claimed c heap c" by (simp add: claimed_def)
  then show ?thesis using assms Some by (auto simp: idle_answer_def)
qed

lemma idle_rest_answer:
  assumes "idle_rest heap hp conns m = (res, heap', hp')" "hp_connections hp = Some conns" "conns \<noteq> []"
    "hp_index hp + length conns \<le> 2 ^ 32" "m \<le> length conns"
    "\<forall>i \<in> set (scan_order (hp_index hp) (length conns) 0 m). \<not> acceptable heap (conns ! i)"
  shows "idle_answer heap conns res heap'"
proof -
  let ?n = "length conns" let ?o = "scan_order (hp_index hp) ?n m ?n"
  have n: "0 < ?n" using assms(3) by simp
  have all: "set (scan_order (hp_index hp) ?n 0 m) \<union> set ?o = {0..<?n}"
    using scan_all [OF assms(4) n] scan_split [OF assms(5), of "hp_index hp"] by (metis set_append)
  show ?thesis
  proof (cases "m < ?n")
    case False
    then have "?o = []" by (simp add: scan_order_def)
    then show ?thesis using assms(1,6) all False by (auto simp: idle_rest_def idle_answer_def in_set_conv_nth)
  next
    case True
    obtain found bad where s: "scan_rest heap conns ?o [] = (found, bad)" by fastforce
    note r = scan_rest_result [OF s, simplified]
    show ?thesis
    proof (cases found)
      case None
      obtain h1 hp1 where rm: "removeUnhealthyConnections bad heap hp = (h1, hp1)" by fastforce
      have "\<forall>c \<in> set conns. \<not> acceptable heap c"
        using r None assms(6) all by (auto simp: in_set_conv_nth) (metis UnE atLeastLessThan_iff le0)
      then show ?thesis
        using assms(1) True s None rm remove_heap(1) [OF rm] r by (auto simp: idle_rest_def idle_answer_def)
    next
      case (Some f)
      then obtain c i where f: "f = (c, i, claimed c heap)" "i \<in> set ?o" "c = conns ! i" "acceptable heap c"
        using r by (cases f) auto
      let ?hp = "hp\<lparr>hp_index := (i + 1) mod ?n\<rparr>"
      obtain h1 hp1 where rm: "removeUnhealthyConnections bad (claimed c heap) ?hp = (h1, hp1)" by fastforce
      have "h1 d = claimed c heap d" if "IsHealthy (heap d)" for d
        using remove_heap(1) [OF rm] r that by simp
      moreover have "res = Some c" "heap' = h1"
        using assms(1) True s Some f(1) rm by (auto simp: idle_rest_def)
      moreover have "i < ?n" using f(2) all by (metis UnI2 atLeastLessThan_iff)
      then have "c \<in> set conns" using f(3) by simp
      ultimately show ?thesis using f(4) by (auto simp: idle_answer_def acceptable_def claimed_other)
    qed
  qed
qed

lemma getIdle_found:
  assumes "hp_connections hp = Some conns" "conns \<noteq> []"
    "scan_best heap conns (scan_order (hp_index hp) (length conns) 0 (if length conns > 16 then 16 else length conns)) None [] =
      (Some (c, sc, i), bad)"
    "removeUnhealthyConnections bad heap hp = (h1, hp1)"
  shows "getIdle_loop (Suc rounds) heap hp = Some (Some c, claimed c h1, hp1\<lparr>hp_index := (i + 1) mod length conns\<rparr>) \<and>
    idle_answer heap conns (Some c) (claimed c h1)"
proof -
  have bad: "\<forall>c \<in> set bad. \<not> IsHealthy (heap c)" using scan_best_bad [OF assms(3)] by simp
  note rm = remove_heap(1) [OF assms(4) bad]
  have c: "acceptable heap c" "c \<in> set conns"
    using scan_best_found [OF assms(3), of "set conns"] assms(2) by (auto simp: scan_order_def)
  then have h: "acceptable h1 c" "h1 c = heap c"
    using remove_acceptable [OF assms(4) bad] rm [of c] by (auto simp: acceptable_def)
  have "idle_answer heap conns (Some c) (claimed c h1)"
    using c h(2) rm claimed_other by (auto simp: idle_answer_def claimed_def)
  then show ?thesis using assms claim_acceptable [OF h(1)] by (simp add: Let_def)
qed

lemma getIdle_loop_answer:
  assumes "hp_connections hp = Some conns" "length conns < rounds" "hp_index hp + length conns \<le> 2 ^ 32"
  shows "\<exists>res heap' hp'. getIdle_loop rounds heap hp = Some (res, heap', hp') \<and> idle_answer heap conns res heap'"
  using assms
proof (induction rounds arbitrary: heap hp conns)
  case (Suc rounds)
  show ?case
  proof (cases "conns = []")
    case True
    then show ?thesis using Suc.prems(1) by (simp add: idle_answer_def)
  next
    case False
    let ?n = "length conns" let ?m = "if ?n > 16 then 16 else ?n" let ?o = "scan_order (hp_index hp) ?n 0 ?m"
    obtain best bad where s: "scan_best heap conns ?o None [] = (best, bad)" by fastforce
    obtain h1 hp1 where rm: "removeUnhealthyConnections bad heap hp = (h1, hp1)" by fastforce
    have bad: "\<forall>c \<in> set bad. \<not> IsHealthy (heap c)" using scan_best_bad [OF s] by simp
    note step = Suc.prems(1) s rm False
    have pos: "\<forall>i \<in> set ?o. conns ! i \<in> set conns" using False by (auto simp: scan_order_def)
    show ?thesis
    proof (cases best)
      case (Some b)
      then show ?thesis using getIdle_found [OF Suc.prems(1) False _ rm, of "fst b" "fst (snd b)" "snd (snd b)" rounds] s by auto
    next
      case None
      have missed: "bad = filter (\<lambda>c. \<not> IsHealthy (heap c)) (map ((!) conns) ?o)" "\<forall>i \<in> set ?o. \<not> acceptable heap (conns ! i)"
        using scan_best_missed [OF s [unfolded None]] by auto
      show ?thesis
      proof (cases "bad = []")
        case True
        then have "h1 = heap" "hp1 = hp" using rm by (auto simp: removeUnhealthyConnections_def)
        then have "getIdle_loop (Suc rounds) heap hp = Some (idle_rest heap hp conns ?m)"
          using step None True by (simp add: Let_def)
        then show ?thesis
          using idle_rest_answer [OF _ Suc.prems(1) False Suc.prems(3) _ missed(2)]
          by (cases "idle_rest heap hp conns ?m") auto
      next
        case bad_some: False
        let ?conns = "filter (\<lambda>c. c \<notin> set bad) conns"
        obtain x where x: "x \<in> set bad" using bad_some by (cases bad) auto
        then have "x \<in> set conns" using missed(1) pos by auto
        then have "length ?conns < length conns" using x by (intro length_filter_less [of x]) auto
        moreover have "hp_connections hp1 = Some ?conns" "hp_index hp1 = hp_index hp"
          using remove_connections [OF rm Suc.prems(1)] by auto
        ultimately obtain res heap' hp' where ih: "getIdle_loop rounds h1 hp1 = Some (res, heap', hp')" "idle_answer h1 ?conns res heap'"
          using Suc.IH [of hp1 ?conns h1] Suc.prems(2,3) by auto
        have "idle_answer heap conns res heap'"
          using remove_heap(1) [OF rm bad] remove_acceptable [OF rm bad] bad
          by (intro idle_answer_keep [OF ih(2)]) (auto simp: acceptable_def)
        then show ?thesis using step None bad_some ih(1) by (simp add: Let_def)
      qed
    qed
  qed
qed simp

lemma find_idle:
  assumes "hp_connections hp = Some conns" "hp_index hp + length conns \<le> 2 ^ 32"
  obtains res heap' hp' where "getIdleConnection heap hp = Some (res, heap', hp')" "idle_answer heap conns res heap'"
  using getIdle_loop_answer [OF assms(1) _ assms(2), of "rounds_needed hp" heap] assms(1)
  by (auto simp: getIdleConnection_def rounds_needed_def)

text \<open>
  C13. getIdleConnection always returns, and its answer is complete and exclusive. It returns nil only if no
  connection of the host pool is healthy and has room. Otherwise it returns such a connection; without
  pipelining no request was active on it and the caller now holds its only claim, and no other healthy
  connection is touched, whatever unhealthy ones were closed on the way.
\<close>

theorem getIdleConnection_claims:
  assumes "hp_connections hp = Some conns" "hp_index hp + length conns \<le> 2 ^ 32"
  shows "\<exists>res heap' hp'. getIdleConnection heap hp = Some (res, heap', hp') \<and>
    (case res of
       None \<Rightarrow> list_all (\<lambda>c. \<not> CanAcceptRequest (heap c)) conns
     | Some c \<Rightarrow> c \<in> set conns \<and> CanAcceptRequest (heap c) \<and>
         (if EnablePipelining (cn_config (heap c)) then heap' c = heap c
          else cn_activeReqs (heap c) = 0 \<and> heap' c = (heap c)\<lparr>cn_activeReqs := 1, cn_poolClaimed := True\<rparr>)) \<and>
    {d. IsHealthy (heap d) \<and> heap' d \<noteq> heap d} \<subseteq> set_option res"
proof -
  obtain res heap' hp' where r: "getIdleConnection heap hp = Some (res, heap', hp')" "idle_answer heap conns res heap'"
    by (rule find_idle [OF assms])
  have can: "acceptable heap c \<longleftrightarrow> CanAcceptRequest (heap c)" for c by (auto simp: acceptable_def CanAcceptRequest_def)
  show ?thesis
    by (rule exI [of _ res], rule exI [of _ heap'], rule exI [of _ hp'])
      (use r in \<open>auto simp: idle_answer_def can list_all_iff claimed_def CanAcceptRequest_def split: option.splits if_splits\<close>)
qed

definition demo_pool :: "nat list \<Rightarrow> HostPool" where
  "demo_pool conns = \<lparr>hp_connections = Some conns, hp_index = 5, hp_maxIdle = 2, hp_maxActive = 2, hp_activeCount = 2, hp_idleCount = 2,
     hp_host = ''http://h:80'', hp_dialHost = ''h'', hp_dialPort = 80, hp_tlsConfig = None\<rparr>"

definition demo_heap :: heap where
  "demo_heap c = (demo_connection (demo_conn []))\<lparr>cn_healthy := (c \<noteq> 1), cn_activeReqs := (if c = 3 then 0 else 1)\<rparr>"

theorem getIdleConnection_claims_witness:
  "\<exists>heap' hp'. getIdleConnection demo_heap (demo_pool [1, 2, 3]) = Some (Some 3, heap', hp') \<and>
     heap' 2 = demo_heap 2 \<and> heap' 3 = (demo_heap 3)\<lparr>cn_activeReqs := 1, cn_poolClaimed := True\<rparr>"
proof -
  have can: "CanAcceptRequest (demo_heap c) \<longleftrightarrow> c = 3" "EnablePipelining (cn_config (demo_heap c)) = False" for c
    by (auto simp: CanAcceptRequest_def IsHealthy_def demo_heap_def demo_connection_def NewConnection_def Let_def)
  obtain res heap' hp' where r: "getIdleConnection demo_heap (demo_pool [1, 2, 3]) = Some (res, heap', hp')"
    "case res of
       None \<Rightarrow> list_all (\<lambda>c. \<not> CanAcceptRequest (demo_heap c)) [1, 2, 3]
     | Some c \<Rightarrow> c \<in> set [1, 2, 3] \<and> CanAcceptRequest (demo_heap c) \<and>
         (if EnablePipelining (cn_config (demo_heap c)) then heap' c = demo_heap c
          else cn_activeReqs (demo_heap c) = 0 \<and> heap' c = (demo_heap c)\<lparr>cn_activeReqs := 1, cn_poolClaimed := True\<rparr>)"
    "{d. IsHealthy (demo_heap d) \<and> heap' d \<noteq> demo_heap d} \<subseteq> set_option res"
    using getIdleConnection_claims [of "demo_pool [1, 2, 3]" "[1, 2, 3]" demo_heap] by (auto simp: demo_pool_def)
  then have "res = Some 3" by (cases res) (auto simp: can)
  moreover have "IsHealthy (demo_heap 2)" by (simp add: IsHealthy_def demo_heap_def demo_connection_def NewConnection_def Let_def)
  ultimately show ?thesis using r by (auto simp: can)
qed

section \<open>Without a claim\<close>

text \<open>The pool's other two ways to a connection do not claim it.\<close>

lemma ensure_new:
  assumes "ensureConnection net now (NewConnection now i host port config dialer tls compressor) = (True, conn)"
  shows "IsHealthy conn" "cn_activeReqs conn = 0" "\<not> cn_poolClaimed conn" "cn_config conn = config"
  using assms
  by (auto simp: ensureConnection_def ensure_locked_def connectLocked_def conn_usable_def NewConnection_def IsHealthy_def Let_def
      split: option.splits if_splits sum.splits)

text \<open>
  C35. A connection that GetConnection has just created is published in the host pool before anyone claims
  it. So without pipelining a second call, made before the first caller starts its exchange, is given
  the same connection, and nothing stops the two exchanges from mixing on one socket.
\<close>

theorem fresh_connection_shared:
  assumes "map_of (pl_hostPools p) key = None" "key \<noteq> []" "\<not> EnablePipelining (pl_config p)"
    "new_host_pool p key useTLS = hp" "1 \<le> hp_maxIdle hp" "hp_maxIdle hp < 2 ^ 31" "cid = pl_nextConnID p + 1"
    "ensureConnection (net 19) (now 19) (NewConnection (now 19) (i32 (int cid)) (hp_dialHost hp) (hp_dialPort hp) (pl_config p)
       (pl_dialer p) (hp_tlsConfig hp) (pl_compressor p)) = (True, conn)"
  shows "\<exists>heap1 p1 heap2 p2. GetConnection net now dialTime heap p key useTLS = Some (Some cid, heap1, p1) \<and>
    \<not> cn_poolClaimed (heap1 cid) \<and> cn_activeReqs (heap1 cid) = 0 \<and>
    GetConnection net' now' dialTime' heap1 p1 key useTLS = Some (Some cid, heap2, p2)"
proof -
  note c = ensure_new [OF assms(8)]
  have hp: "hp_connections hp = Some []" "hp_activeCount hp = 0" "hp_index hp = 0"
    using assms(4) by (auto simp: new_host_pool_def Let_def split: prod.splits)
  let ?hp = "hp\<lparr>hp_activeCount := i32 1, hp_connections := Some [cid], hp_idleCount := i32 (hp_idleCount hp + 1)\<rparr>"
  let ?p = "p\<lparr>pl_nextConnID := cid, pl_hostPools := (key, hp) # pl_hostPools p\<rparr>"
  have m: "i32 (hp_maxIdle hp) = hp_maxIdle hp" using assms(5,6) by (simp add: i32_id)
  have idle: "getIdleConnection heap hp = Some (None, heap, hp)"
    using hp by (simp add: getIdleConnection_def rounds_needed_def)
  have "createConnection (net 19) (now 19) heap (p\<lparr>pl_hostPools := (key, hp) # pl_hostPools p\<rparr>) hp = (Some cid, heap(cid := conn), ?p, ?hp)"
    using assms(5,7,8) hp m by (simp add: createConnection_def Let_def)
  then have first: "GetConnection net now dialTime heap p key useTLS = Some (Some cid, heap(cid := conn), put_host_pool key ?hp ?p)"
    using assms(1,2,4) idle
    by (simp add: GetConnection_def getHostPool_def maxAttempts_def numeral_eq_Suc)
  obtain res heap' hp' where r: "getIdleConnection (heap(cid := conn)) ?hp = Some (res, heap', hp')" "idle_answer (heap(cid := conn)) [cid] res heap'"
    by (rule find_idle [of ?hp "[cid]" "heap(cid := conn)"]) (use hp in auto)
  then have "res = Some cid"
    using c assms(3) by (cases res) (auto simp: idle_answer_def acceptable_def CanAcceptRequest_def)
  moreover have "getHostPool (put_host_pool key ?hp ?p) key useTLS = (?hp, put_host_pool key ?hp ?p)"
    by (simp add: getHostPool_def put_host_pool_def)
  ultimately have "GetConnection net' now' dialTime' (heap(cid := conn)) (put_host_pool key ?hp ?p) key useTLS =
      Some (Some cid, heap', put_host_pool key hp' (put_host_pool key ?hp ?p))"
    using r(1) assms(2) by (simp add: GetConnection_def maxAttempts_def numeral_eq_Suc)
  then show ?thesis using first c by fastforce
qed

definition demo_pooled :: Pool where
  "demo_pooled = NewPool (DefaultConfig\<lparr>EnablePipelining := False\<rparr>) (Some \<lparr>dv_forward = (\<lambda>useTLS. False), dv_auth = []\<rparr>) None None"

definition demo_dial :: "nat \<Rightarrow> network" where
  "demo_dial k = \<lparr>DialAddr = (\<lambda>h p. Inr (demo_conn [])), DialForward = Inr (demo_conn []), Handshake = (\<lambda>t c. Inr c)\<rparr>"

theorem fresh_connection_shared_witness:
  "\<exists>heap1 p1 heap2 p2.
    GetConnection demo_dial (\<lambda>k. 7) (\<lambda>k. 0) demo_heap demo_pooled ''http://h:80'' False = Some (Some 1, heap1, p1) \<and>
    GetConnection demo_dial (\<lambda>k. 8) (\<lambda>k. 0) heap1 p1 ''http://h:80'' False = Some (Some 1, heap2, p2)"
proof -
  let ?hp = "new_host_pool demo_pooled ''http://h:80'' False"
  let ?c = "NewConnection 7 (i32 (int 1)) (hp_dialHost ?hp) (hp_dialPort ?hp) (pl_config demo_pooled) (pl_dialer demo_pooled)
    (hp_tlsConfig ?hp) (pl_compressor demo_pooled)"
  have hp: "hp_maxIdle ?hp = 512" "hp_tlsConfig ?hp = None"
    by (simp_all add: new_host_pool_def demo_pooled_def NewPool_def DefaultConfig_def host_tls_def Let_def split: prod.split)
  have p: "pl_dialer demo_pooled = Some \<lparr>dv_forward = (\<lambda>useTLS. False), dv_auth = []\<rparr>" "pl_compressor demo_pooled = None"
    by (simp_all add: demo_pooled_def NewPool_def)
  have "ensureConnection (demo_dial 19) 7 ?c = (True, snd (ensureConnection (demo_dial 19) 7 ?c))"
    by (simp add: hp p ensureConnection_def ensure_locked_def connectLocked_def conn_usable_def NewConnection_def demo_dial_def Let_def)
  then show ?thesis
    using fresh_connection_shared [where p = demo_pooled and key = "''http://h:80''" and useTLS = False and hp = ?hp and cid = 1
        and net = demo_dial and now = "\<lambda>k. 7" and dialTime = "\<lambda>k. 0" and heap = demo_heap and net' = demo_dial and now' = "\<lambda>k. 8"
        and dialTime' = "\<lambda>k. 0"] hp
    by (fastforce simp: demo_pooled_def NewPool_def)
qed

text \<open>Busy connections are passed over by both scans.\<close>

lemma scan_best_busy:
  "\<forall>i \<in> set idxs. IsHealthy (heap (conns ! i)) \<and> \<not> CanAcceptRequest (heap (conns ! i)) \<Longrightarrow> scan_best heap conns idxs best bad = (best, bad)"
  by (induction idxs) (simp_all add: Let_def)

lemma scan_rest_busy:
  "\<forall>i \<in> set idxs. IsHealthy (heap (conns ! i)) \<and> \<not> CanAcceptRequest (heap (conns ! i)) \<Longrightarrow> scan_rest heap conns idxs bad = (None, bad)"
  by (induction idxs) (simp_all add: Let_def)

lemma getIdle_busy:
  assumes "hp_connections hp = Some conns" "\<forall>c \<in> set conns. IsHealthy (heap c) \<and> \<not> CanAcceptRequest (heap c)"
  shows "getIdleConnection heap hp = Some (None, heap, hp)"
proof (cases "conns = []")
  case False
  have "\<forall>i \<in> set (scan_order (hp_index hp) (length conns) a b). IsHealthy (heap (conns ! i)) \<and> \<not> CanAcceptRequest (heap (conns ! i))" for a b
    using assms(2) False by (auto simp: scan_order_def)
  note s = scan_best_busy [OF this] scan_rest_busy [OF this]
  show ?thesis
    using assms(1) False
    by (simp add: getIdleConnection_def rounds_needed_def Let_def s idle_rest_def removeUnhealthyConnections_def)
qed (use assms(1) in \<open>simp add: getIdleConnection_def rounds_needed_def\<close>)

text \<open>
  C36. When every connection of a full host pool has its request, GetConnection hands out one of them all the
  same: without pipelining it returns a connection on which a request is active, unclaimed and
  unchanged, so that two exchanges meet on one socket.
\<close>

theorem busy_connection_shared:
  assumes "map_of (pl_hostPools p) key = Some hp" "key \<noteq> []" "hp_connections hp = Some conns" "conns \<noteq> []"
    "i32 (hp_maxIdle hp) \<le> hp_activeCount hp" "dialTime 19 \<le> Millisecond"
    "list_all (\<lambda>c. IsHealthy (heap c) \<and> \<not> EnablePipelining (cn_config (heap c)) \<and> cn_activeReqs (heap c) \<noteq> 0) conns"
  shows "\<exists>c p'. GetConnection net now dialTime heap p key useTLS = Some (Some c, heap, p') \<and> c \<in> set conns \<and> cn_activeReqs (heap c) \<noteq> 0"
proof -
  have all: "\<forall>c \<in> set conns. IsHealthy (heap c) \<and> \<not> CanAcceptRequest (heap c)"
    using assms(7) by (simp add: list_all_iff CanAcceptRequest_def)
  let ?c = "conns ! (hp_index hp mod length conns)"
  have c: "?c \<in> set conns" using assms(4) by simp
  have "createConnection (net 19) (now 19) heap p hp = (None, heap, p, hp)"
    using assms(5) by (simp add: createConnection_def)
  moreover have "\<exists>hp'. getAnyConnection heap hp = Some (Some ?c, heap, hp')"
    using assms(3,4) all c by (simp add: getAnyConnection_def rounds_needed_def Let_def)
  ultimately have "\<exists>p'. GetConnection net now dialTime heap p key useTLS = Some (Some ?c, heap, p')"
    using assms(1,2,6) getIdle_busy [OF assms(3) all]
    by (auto simp: GetConnection_def getHostPool_def maxAttempts_def numeral_eq_Suc)
  then show ?thesis using c assms(7) by (auto simp: list_all_iff)
qed

theorem busy_connection_shared_witness:
  "\<exists>c p'. GetConnection demo_dial (\<lambda>k. 7) (\<lambda>k. 0) demo_heap (demo_pooled\<lparr>pl_hostPools := [(''http://h:80'', demo_pool [2, 4])]\<rparr>)
      ''http://h:80'' False = Some (Some c, demo_heap, p') \<and> cn_activeReqs (demo_heap c) \<noteq> 0"
proof -
  have "list_all (\<lambda>c. IsHealthy (demo_heap c) \<and> \<not> EnablePipelining (cn_config (demo_heap c)) \<and> cn_activeReqs (demo_heap c) \<noteq> 0) [2, 4]"
    by (simp add: IsHealthy_def demo_heap_def demo_connection_def NewConnection_def Let_def)
  moreover have "i32 (hp_maxIdle (demo_pool [2, 4])) \<le> hp_activeCount (demo_pool [2, 4])"
    by (simp add: demo_pool_def i32_id)
  ultimately show ?thesis
    using busy_connection_shared [of "demo_pooled\<lparr>pl_hostPools := [(''http://h:80'', demo_pool [2, 4])]\<rparr>" "''http://h:80''"
        "demo_pool [2, 4]" "[2, 4]" "\<lambda>k. 0" demo_heap demo_dial "\<lambda>k. 7" False]
    by (auto simp: demo_pool_def)
qed

section \<open>Every call returns\<close>

text \<open>What every path of GetConnection gives: a host pool with a list, and a healthy connection of that list or none.\<close>

definition well_chosen :: "nat option \<Rightarrow> heap \<Rightarrow> HostPool \<Rightarrow> bool" where
  "well_chosen res heap hp \<longleftrightarrow> hp_connections hp \<noteq> None \<and> (\<forall>c. res = Some c \<longrightarrow> IsHealthy (heap c) \<and> c \<in> set (pool_conns hp))"

lemma well_chosen_None [simp]: "well_chosen None heap hp \<longleftrightarrow> hp_connections hp \<noteq> None"
  by (simp add: well_chosen_def)

lemma well_chosen_Some [simp]: "well_chosen (Some c) heap hp \<longleftrightarrow> IsHealthy (heap c) \<and> c \<in> set (pool_conns hp)"
  by (cases "hp_connections hp") (auto simp: well_chosen_def pool_conns_def)

lemma remove_chosen:
  assumes "removeUnhealthyConnections bad heap hp = (heap', hp')" "\<forall>c \<in> set bad. \<not> IsHealthy (heap c)" "hp_connections hp = Some conns"
    "IsHealthy (heap c)" "c \<in> set conns"
  shows "IsHealthy (heap' c)" "c \<in> set (pool_conns hp')"
  using remove_heap(2) [OF assms(1,2), of c] remove_connections [OF assms(1,3)] assms(2,4,5) by (auto simp: pool_conns_def)

lemma idle_rest_chosen:
  assumes "idle_rest heap hp conns m = (res, heap', hp')" "hp_connections hp = Some conns" "conns \<noteq> []"
  shows "well_chosen res heap' hp'"
proof (cases "m < length conns")
  case True
  let ?o = "scan_order (hp_index hp) (length conns) m (length conns)"
  obtain found bad where s: "scan_rest heap conns ?o [] = (found, bad)" by fastforce
  note r = scan_rest_result [OF s, simplified]
  show ?thesis
  proof (cases found)
    case None
    obtain h1 hp1 where rm: "removeUnhealthyConnections bad heap hp = (h1, hp1)" by fastforce
    then show ?thesis using assms True s None remove_connections [OF rm assms(2)] by (auto simp: idle_rest_def)
  next
    case (Some f)
    then obtain c i where f: "f = (c, i, claimed c heap)" "i \<in> set ?o" "c = conns ! i" "acceptable heap c"
      using r by (cases f) auto
    let ?hp = "hp\<lparr>hp_index := (i + 1) mod length conns\<rparr>"
    obtain h1 hp1 where rm: "removeUnhealthyConnections bad (claimed c heap) ?hp = (h1, hp1)" by fastforce
    have "c \<in> set conns" using f(2,3) assms(3) by (auto simp: scan_order_def)
    then have "well_chosen (Some c) h1 hp1"
      using remove_chosen [OF rm, of conns c] r f(4) assms(2) by (simp add: acceptable_def)
    then show ?thesis using assms(1) True s Some f(1) rm by (auto simp: idle_rest_def)
  qed
qed (use assms in \<open>auto simp: idle_rest_def\<close>)

lemma getIdle_loop_returns:
  assumes "hp_connections hp = Some conns" "length conns < rounds"
  shows "\<exists>res heap' hp'. getIdle_loop rounds heap hp = Some (res, heap', hp') \<and> well_chosen res heap' hp'"
  using assms
proof (induction rounds arbitrary: heap hp conns)
  case (Suc rounds)
  show ?case
  proof (cases "conns = []")
    case True
    then show ?thesis using Suc.prems(1) by simp
  next
    case False
    let ?n = "length conns" let ?m = "if ?n > 16 then 16 else ?n" let ?o = "scan_order (hp_index hp) ?n 0 ?m"
    obtain best bad where s: "scan_best heap conns ?o None [] = (best, bad)" by fastforce
    obtain h1 hp1 where rm: "removeUnhealthyConnections bad heap hp = (h1, hp1)" by fastforce
    have bad: "\<forall>c \<in> set bad. \<not> IsHealthy (heap c)" using scan_best_bad [OF s] by simp
    note conns1 = remove_connections [OF rm Suc.prems(1)]
    show ?thesis
    proof (cases best)
      case (Some b)
      obtain c sc i where b: "b = (c, sc, i)" by (metis prod_cases3)
      note found = getIdle_found [OF Suc.prems(1) False s [unfolded Some b] rm, of rounds]
      then have "IsHealthy (heap c)" "c \<in> set conns" by (auto simp: idle_answer_def acceptable_def)
      then show ?thesis using found remove_chosen [OF rm bad Suc.prems(1)] by (auto simp: pool_conns_def)
    next
      case None
      show ?thesis
      proof (cases "bad = []")
        case True
        then have "getIdle_loop (Suc rounds) heap hp = Some (idle_rest heap hp conns ?m)"
          using Suc.prems(1) s None False by (simp add: Let_def removeUnhealthyConnections_def)
        then show ?thesis
          using idle_rest_chosen [OF _ Suc.prems(1) False] by (cases "idle_rest heap hp conns ?m") auto
      next
        case bad_some: False
        have "set bad \<subseteq> set conns" using scan_best_missed [OF s [unfolded None]] False by (auto simp: scan_order_def)
        then have "length (filter (\<lambda>c. c \<notin> set bad) conns) < length conns"
          using bad_some by (intro length_filter_less [of "hd bad"]) (auto simp: subset_iff)
        then show ?thesis
          using Suc.IH [of hp1 "filter (\<lambda>c. c \<notin> set bad) conns" h1] conns1 Suc.prems s rm None bad_some False by (simp add: Let_def)
      qed
    qed
  qed
qed simp

lemma find_healthy_result:
  assumes "find_healthy heap conns idxs bad = (found, bad')" "\<forall>c \<in> set bad. \<not> IsHealthy (heap c)"
  shows "(\<forall>c \<in> set bad'. \<not> IsHealthy (heap c)) \<and> set bad \<subseteq> set bad' \<and>
    (\<forall>c i. found = Some (c, i) \<longrightarrow> i \<in> set idxs \<and> c = conns ! i \<and> IsHealthy (heap c))"
  using assms
proof (induction idxs arbitrary: bad)
  case (Cons i r)
  show ?case
  proof (cases "IsHealthy (heap (conns ! i))")
    case True
    then show ?thesis using Cons.prems by (auto simp: Let_def)
  next
    case False
    then show ?thesis using Cons.IH [of "bad @ [conns ! i]"] Cons.prems by (simp add: Let_def)
  qed
qed auto

lemma getAny_loop_returns:
  assumes "hp_connections hp = Some conns" "length conns < rounds"
  shows "\<exists>res heap' hp'. getAny_loop rounds heap hp = Some (res, heap', hp') \<and> well_chosen res heap' hp'"
  using assms
proof (induction rounds arbitrary: heap hp conns)
  case (Suc rounds)
  let ?first = "conns ! (hp_index hp mod length conns)"
  show ?case
  proof (cases "conns = [] \<or> IsHealthy (heap ?first)")
    case True
    then show ?thesis using Suc.prems(1) by (auto simp: Let_def pool_conns_def)
  next
    case False
    let ?o = "scan_order (hp_index hp) (length conns) 1 (if length conns > 8 then 8 else length conns)"
    obtain found bad where s: "find_healthy heap conns ?o [?first] = (found, bad)" by (rule prod.exhaust)
    have "\<forall>c \<in> set [?first]. \<not> IsHealthy (heap c)" using False by simp
    note f = find_healthy_result [OF s this] and step = Suc.prems(1) s False
    have bad: "\<forall>c \<in> set bad. \<not> IsHealthy (heap c)" "?first \<in> set bad" using f by simp_all
    show ?thesis
    proof (cases found)
      case (Some g)
      obtain c i where g: "g = (c, i)" by (rule prod.exhaust)
      obtain h1 hp1 where rm: "removeUnhealthyConnections bad heap (hp\<lparr>hp_index := (i + 1) mod length conns\<rparr>) = (h1, hp1)"
        by (rule prod.exhaust)
      have c: "i \<in> set ?o" "c = conns ! i" "IsHealthy (heap c)" using f Some g by blast+
      then have "c \<in> set conns" using False by (auto simp: scan_order_def)
      then have "well_chosen (Some c) h1 hp1" using remove_chosen [OF rm bad(1)] Suc.prems(1) c(3) by simp
      then show ?thesis using step Some g rm by (simp add: Let_def del: well_chosen_Some)
    next
      case None
      obtain h1 hp1 where rm: "removeUnhealthyConnections bad heap hp = (h1, hp1)" by fastforce
      have "length (filter (\<lambda>c. c \<notin> set bad) conns) < length conns"
        using bad(2) False by (intro length_filter_less [of ?first]) auto
      then show ?thesis
        using Suc.IH [of hp1 "filter (\<lambda>c. c \<notin> set bad) conns" h1] remove_connections [OF rm Suc.prems(1)] Suc.prems(2) step None rm
        by (simp add: Let_def)
    qed
  qed
qed simp

lemma searches_return:
  assumes "hp_connections hp \<noteq> None"
  shows "\<exists>res heap' hp'. getIdleConnection heap hp = Some (res, heap', hp') \<and> well_chosen res heap' hp'"
    and "\<exists>res heap' hp'. getAnyConnection heap hp = Some (res, heap', hp') \<and> well_chosen res heap' hp'"
  using assms getIdle_loop_returns [of hp _ "rounds_needed hp" heap] getAny_loop_returns [of hp _ "rounds_needed hp" heap]
  by (auto simp: getIdleConnection_def getAnyConnection_def rounds_needed_def)

lemma createConnection_chosen:
  assumes "createConnection net now heap p hp = (res, heap', p', hp')" "hp_connections hp \<noteq> None"
  shows "well_chosen res heap' hp' \<and> pl_hostPools p' = pl_hostPools p"
proof (cases "hp_activeCount hp \<ge> i32 (hp_maxIdle hp)")
  case False
  let ?c = "NewConnection now (i32 (int (pl_nextConnID p + 1))) (hp_dialHost hp) (hp_dialPort hp) (pl_config p) (pl_dialer p)
    (hp_tlsConfig hp) (pl_compressor p)"
  obtain ok conn where e: "ensureConnection net now ?c = (ok, conn)" by fastforce
  obtain old where old: "hp_connections hp = Some old" using assms(2) by blast
  show ?thesis
  proof (cases ok)
    case True
    then have "IsHealthy conn" using e ensure_new(1) by simp
    then show ?thesis using assms(1) False e True old by (auto simp: createConnection_def Let_def pool_conns_def)
  qed (use assms(1) False e old in \<open>auto simp: createConnection_def Let_def\<close>)
qed (use assms in \<open>auto simp: createConnection_def\<close>)

lemma get_loop_returns:
  assumes "hp_connections hp \<noteq> None"
  shows "\<exists>res heap' p' hp'. get_loop net now dialTime n heap p hp = Some (res, heap', p', hp') \<and> well_chosen res heap' hp' \<and>
    pl_hostPools p' = pl_hostPools p"
  using assms
proof (induction n arbitrary: heap p hp)
  case (Suc n)
  obtain r1 h1 hp1 where i: "getIdleConnection heap hp = Some (r1, h1, hp1)" "well_chosen r1 h1 hp1"
    using searches_return(1) [OF Suc.prems] by blast
  show ?case
  proof (cases r1)
    case None
    obtain r2 h2 p2 hp2 where c: "createConnection (net n) (now n) h1 p hp1 = (r2, h2, p2, hp2)" by (metis prod_cases4)
    have w2: "well_chosen r2 h2 hp2" "pl_hostPools p2 = pl_hostPools p"
      using createConnection_chosen [OF c] i(2) None by auto
    then have hp2: "hp_connections hp2 \<noteq> None" by (simp add: well_chosen_def)
    obtain r3 h3 hp3 where a: "getAnyConnection h2 hp2 = Some (r3, h3, hp3)" "well_chosen r3 h3 hp3"
      using searches_return(2) [OF hp2] by blast
    then have hp3: "hp_connections hp3 \<noteq> None" by (simp add: well_chosen_def)
    show ?thesis
    proof (cases r2)
      case None2: None
      then show ?thesis
      proof (cases "dialTime n > Millisecond")
        case False
        then show ?thesis
          using i(1) None c None2 w2 a Suc.IH [OF hp3, of h3 p2] by (cases r3) (simp_all del: well_chosen_None)
      qed (use i(1) None c w2 in simp)
    qed (use i(1) None c w2 in simp)
  qed (use i in auto)
qed simp

definition pool_ok :: "Pool \<Rightarrow> bool" where
  "pool_ok p \<longleftrightarrow> (\<forall>(key, hp) \<in> set (pl_hostPools p). hp_connections hp \<noteq> None)"

lemma getHostPool_ok:
  assumes "getHostPool p key useTLS = (hp, p')" "pool_ok p"
  shows "pool_ok p'" "hp_connections hp \<noteq> None" "key \<in> fst ` set (pl_hostPools p')"
  using assms
  by (auto simp: getHostPool_def pool_ok_def new_host_pool_def Let_def image_iff split: option.splits prod.splits dest!: map_of_SomeD)
    (force dest: map_of_SomeD)+

lemma put_host_pool_ok:
  assumes "pool_ok p" "hp_connections hp \<noteq> None" "key \<in> fst ` set (pl_hostPools p)"
  shows "pool_ok (put_host_pool key hp p) \<and> (key, hp) \<in> set (pl_hostPools (put_host_pool key hp p))"
  using assms by (force simp: pool_ok_def put_host_pool_def)

text \<open>
  C14. GetConnection always returns, however many of the connections have failed: its searches end. It returns
  nil or a connection that is healthy and is one of the pool's, and the pool stays well formed.
\<close>

theorem GetConnection_returns:
  assumes "pool_ok p"
  shows "\<exists>res heap' p'. GetConnection net now dialTime heap p key useTLS = Some (res, heap', p') \<and> pool_ok p' \<and>
    set_option res \<subseteq> {c. IsHealthy (heap' c) \<and> c \<in> snd ` set (eachConnection p')}"
proof -
  let ?tls = "if key = [] then UseTLS (pl_config p) else useTLS"
  let ?key = "if key = [] then pool_key (UseTLS (pl_config p)) (Host (pl_config p)) (Port (pl_config p)) else key"
  obtain hp p1 where g: "getHostPool p ?key ?tls = (hp, p1)" by (rule prod.exhaust)
  note ok = getHostPool_ok [OF g assms]
  obtain res heap' p2 hp' where l: "get_loop net now dialTime maxAttempts heap p1 hp = Some (res, heap', p2, hp')"
    "well_chosen res heap' hp'" "pl_hostPools p2 = pl_hostPools p1"
    using get_loop_returns [OF ok(2)] by blast
  then have "pool_ok p2" "hp_connections hp' \<noteq> None" "?key \<in> fst ` set (pl_hostPools p2)"
    using ok by (simp_all add: pool_ok_def well_chosen_def)
  note put = put_host_pool_ok [OF this]
  have "set_option res \<subseteq> {c. IsHealthy (heap' c) \<and> c \<in> snd ` set (eachConnection (put_host_pool ?key hp' p2))}"
    using l(2) put by (force simp: well_chosen_def eachConnection_def)
  then show ?thesis using g l(1) put by (simp add: GetConnection_def Let_def)
qed

theorem GetConnection_returns_witness:
  "\<exists>res heap' p'. GetConnection demo_dial (\<lambda>k. 7) (\<lambda>k. 0) demo_heap (demo_pooled\<lparr>pl_hostPools := [(''http://h:80'', demo_pool [1, 2, 4])]\<rparr>)
     ''http://h:80'' False = Some (res, heap', p') \<and> pool_ok p'"
proof -
  have "pool_ok (demo_pooled\<lparr>pl_hostPools := [(''http://h:80'', demo_pool [1, 2, 4])]\<rparr>)" by (simp add: pool_ok_def demo_pool_def)
  from GetConnection_returns [OF this, of demo_dial "\<lambda>k. 7" "\<lambda>k. 0" demo_heap "''http://h:80''" False] show ?thesis by blast
qed

end
