(* ===== verification/Scheduler.thy ===== *)
theory Scheduler
  imports Pool
begin

text \<open>
  The request scheduler of \<^verbatim>\<open>scheduler.go\<close>: per origin a bounded queue of work and a set of worker goroutines.
  A call of Do makes a work item with a result channel of capacity one, so work items are known by
  the number of the call. The goroutines interleave in the step relation \<open>sched_step\<close>: the callers
  enqueue and wait, the workers take and execute, contexts are cancelled and the scheduler is stopped
  at any time. What conn.Do returns to a worker is left open.
\<close>

type_synonym scheduledResult = "Response option \<times> goerror option"

record scheduledWork =
  sw_ctx :: nat
  sw_req :: Request
  sw_poolKey :: bytes
  sw_useTLS :: bool
  sw_resp :: "scheduledResult option"

text \<open>Where a worker is in its loop: at the select, with a work item in hand, or returned.\<close>

datatype worker = AtSelect | Holding nat | Gone

record hostScheduler =
  hs_queue :: "nat list"
  hs_workers :: "worker list"
  hs_stopped :: bool

record Scheduler =
  sc_hosts :: "bytes \<rightharpoonup> hostScheduler"
  sc_workers :: int
  sc_queueCap :: int
  sc_stopped :: bool

definition NewScheduler :: "Config \<Rightarrow> int \<Rightarrow> int \<Rightarrow> Scheduler" where
  "NewScheduler config workers queueCap =
     (let workers = (if workers \<le> 0 then (if PoolSize config \<le> 0 then 64 else PoolSize config) else workers);
          queueCap = (if queueCap \<le> 0 then i64 (workers * 4) else queueCap)
      in \<lparr>sc_hosts = Map.empty, sc_workers = workers, sc_queueCap = queueCap, sc_stopped = False\<rparr>)"

definition getOrCreateHostScheduler :: "bytes \<Rightarrow> Scheduler \<Rightarrow> hostScheduler \<times> Scheduler" where
  "getOrCreateHostScheduler poolKey s =
     (case sc_hosts s poolKey of
        Some hs \<Rightarrow> (hs, s)
      | None \<Rightarrow>
          (let hs = \<lparr>hs_queue = [], hs_workers = replicate (nat (sc_workers s)) AtSelect, hs_stopped = False\<rparr>
           in (hs, s\<lparr>sc_hosts := (sc_hosts s)(poolKey \<mapsto> hs)\<rparr>)))"

definition new_work :: "nat \<Rightarrow> Request \<Rightarrow> bytes \<Rightarrow> bool \<Rightarrow> scheduledWork" where
  "new_work cx req poolKey useTLS = \<lparr>sw_ctx = cx, sw_req = req, sw_poolKey = poolKey, sw_useTLS = useTLS, sw_resp = None\<rparr>"

text \<open>Stop closes the channels; the workers find them closed at their next select.\<close>

definition Scheduler_Stop :: "Scheduler \<Rightarrow> Scheduler" where
  "Scheduler_Stop s =
     (if sc_stopped s then s
      else s\<lparr>sc_stopped := True, sc_hosts := (\<lambda>k. map_option (\<lambda>hs. hs\<lparr>hs_stopped := True\<rparr>) (sc_hosts s k))\<rparr>)"

definition enqueue_cancelled :: "goerror \<Rightarrow> goerror" where
  "enqueue_cancelled e = WrapError ErrorTypeTimeout ''scheduler: enqueue cancelled'' e"

definition wait_cancelled :: "goerror \<Rightarrow> goerror" where
  "wait_cancelled e = WrapError ErrorTypeTimeout ''scheduler: wait cancelled'' e"

definition stopped_error :: goerror where
  "stopped_error = WrapError ErrorTypeNetwork ''scheduler: stopped'' ErrConnectFailed"

definition not_executed :: "goerror \<Rightarrow> scheduledResult" where
  "not_executed e = (None, Some (WrapError ErrorTypeTimeout ''scheduler: cancelled before execute'' e))"

definition no_connection :: scheduledResult where
  "no_connection = (None, Some (WrapError ErrorTypeNetwork ''scheduler: no connection available'' ErrConnectFailed))"

section \<open>The goroutines\<close>

text \<open>
  A caller is between the two selects of Do or has returned, with what it received from its channel or
  with an error of its own. \<open>ss_done\<close> is the error of every context that is done. \<open>ss_log\<close> is a
  history variable: what the workers have answered to each work item.
\<close>

datatype caller = Enqueuing | AwaitingResult | Received scheduledResult | GaveUp goerror

record sched_state =
  ss_sched :: Scheduler
  ss_works :: "nat \<rightharpoonup> scheduledWork"
  ss_callers :: "nat \<rightharpoonup> caller"
  ss_done :: "nat \<rightharpoonup> goerror"
  ss_log :: "nat \<Rightarrow> scheduledResult list"

definition set_host :: "bytes \<Rightarrow> hostScheduler \<Rightarrow> sched_state \<Rightarrow> sched_state" where
  "set_host key hs s = s\<lparr>ss_sched := (ss_sched s)\<lparr>sc_hosts := (sc_hosts (ss_sched s))(key \<mapsto> hs)\<rparr>\<rparr>"

definition set_caller :: "nat \<Rightarrow> caller \<Rightarrow> sched_state \<Rightarrow> sched_state" where
  "set_caller i pc s = s\<lparr>ss_callers := (ss_callers s)(i \<mapsto> pc)\<rparr>"

definition set_work :: "nat \<Rightarrow> scheduledWork \<Rightarrow> sched_state \<Rightarrow> sched_state" where
  "set_work i w s = s\<lparr>ss_works := (ss_works s)(i \<mapsto> w)\<rparr>"

text \<open>The send of a worker's result to the channel of the work item it holds, after which it goes round again.\<close>

definition answer :: "bytes \<Rightarrow> hostScheduler \<Rightarrow> nat \<Rightarrow> nat \<Rightarrow> scheduledWork \<Rightarrow> scheduledResult \<Rightarrow> sched_state \<Rightarrow> sched_state" where
  "answer key hs k i w r s =
     (set_work i (w\<lparr>sw_resp := Some r\<rparr>) (set_host key (hs\<lparr>hs_workers := (hs_workers hs)[k := AtSelect]\<rparr>) s))
       \<lparr>ss_log := (ss_log s)(i := ss_log s i @ [r])\<rparr>"

inductive sched_step :: "sched_state \<Rightarrow> sched_state \<Rightarrow> bool" where
  call: "ss_callers s i = None \<Longrightarrow>
    sched_step s (set_work i (new_work cx req key useTLS) (set_caller i Enqueuing
      (s\<lparr>ss_sched := snd (getOrCreateHostScheduler key (ss_sched s))\<rparr>)))"
| enqueue: "ss_callers s i = Some Enqueuing \<Longrightarrow> ss_works s i = Some w \<Longrightarrow> sc_hosts (ss_sched s) (sw_poolKey w) = Some hs \<Longrightarrow>
    int (length (hs_queue hs)) < sc_queueCap (ss_sched s) \<Longrightarrow>
    sched_step s (set_caller i AwaitingResult (set_host (sw_poolKey w) (hs\<lparr>hs_queue := hs_queue hs @ [i]\<rparr>) s))"
| enqueue_cancel: "ss_callers s i = Some Enqueuing \<Longrightarrow> ss_works s i = Some w \<Longrightarrow> ss_done s (sw_ctx w) = Some e \<Longrightarrow>
    sched_step s (set_caller i (GaveUp (enqueue_cancelled e)) s)"
| enqueue_stopped: "ss_callers s i = Some Enqueuing \<Longrightarrow> sc_stopped (ss_sched s) \<Longrightarrow>
    sched_step s (set_caller i (GaveUp stopped_error) s)"
| receive: "ss_callers s i = Some AwaitingResult \<Longrightarrow> ss_works s i = Some w \<Longrightarrow> sw_resp w = Some r \<Longrightarrow>
    sched_step s (set_caller i (Received r) (set_work i (w\<lparr>sw_resp := None\<rparr>) s))"
| wait_cancel: "ss_callers s i = Some AwaitingResult \<Longrightarrow> ss_works s i = Some w \<Longrightarrow> ss_done s (sw_ctx w) = Some e \<Longrightarrow>
    sched_step s (set_caller i (GaveUp (wait_cancelled e)) s)"
| wait_stopped: "ss_callers s i = Some AwaitingResult \<Longrightarrow> sc_stopped (ss_sched s) \<Longrightarrow>
    sched_step s (set_caller i (GaveUp stopped_error) s)"
| take: "sc_hosts (ss_sched s) key = Some hs \<Longrightarrow> k < length (hs_workers hs) \<Longrightarrow> hs_workers hs ! k = AtSelect \<Longrightarrow> hs_queue hs = i # q \<Longrightarrow>
    sched_step s (set_host key (hs\<lparr>hs_queue := q, hs_workers := (hs_workers hs)[k := Holding i]\<rparr>) s)"
| skip: "sc_hosts (ss_sched s) key = Some hs \<Longrightarrow> k < length (hs_workers hs) \<Longrightarrow> hs_workers hs ! k = Holding i \<Longrightarrow>
    ss_works s i = Some w \<Longrightarrow> sw_resp w = None \<Longrightarrow> ss_done s (sw_ctx w) = Some e \<Longrightarrow>
    sched_step s (answer key hs k i w (not_executed e) s)"
| unconnected: "sc_hosts (ss_sched s) key = Some hs \<Longrightarrow> k < length (hs_workers hs) \<Longrightarrow> hs_workers hs ! k = Holding i \<Longrightarrow>
    ss_works s i = Some w \<Longrightarrow> sw_resp w = None \<Longrightarrow> sched_step s (answer key hs k i w no_connection s)"
| execute: "sc_hosts (ss_sched s) key = Some hs \<Longrightarrow> k < length (hs_workers hs) \<Longrightarrow> hs_workers hs ! k = Holding i \<Longrightarrow>
    ss_works s i = Some w \<Longrightarrow> sw_resp w = None \<Longrightarrow>
    sched_step s (answer key hs k i (w\<lparr>sw_req := (sw_req w)\<lparr>ctx := Some (sw_ctx w)\<rparr>\<rparr>) r s)"
| leave: "sc_hosts (ss_sched s) key = Some hs \<Longrightarrow> k < length (hs_workers hs) \<Longrightarrow> hs_workers hs ! k = AtSelect \<Longrightarrow>
    hs_stopped hs \<or> sc_stopped (ss_sched s) \<Longrightarrow>
    sched_step s (set_host key (hs\<lparr>hs_workers := (hs_workers hs)[k := Gone]\<rparr>) s)"
| cancel: "ss_done s cx = None \<Longrightarrow> sched_step s (s\<lparr>ss_done := (ss_done s)(cx \<mapsto> e)\<rparr>)"
| stop: "sched_step s (s\<lparr>ss_sched := Scheduler_Stop (ss_sched s)\<rparr>)"

inductive_cases sched_stepE: "sched_step s s'"

definition sched_start :: "Config \<Rightarrow> int \<Rightarrow> int \<Rightarrow> sched_state" where
  "sched_start config workers queueCap =
     \<lparr>ss_sched = NewScheduler config workers queueCap, ss_works = Map.empty, ss_callers = Map.empty, ss_done = Map.empty, ss_log = (\<lambda>i. [])\<rparr>"

section \<open>Every work item has one place\<close>

definition holds :: "hostScheduler \<Rightarrow> nat \<Rightarrow> nat \<Rightarrow> bool" where
  "holds hs k i \<longleftrightarrow> k < length (hs_workers hs) \<and> hs_workers hs ! k = Holding i"

text \<open>An item in a queue or in a worker's hand is unanswered, its channel is empty and its caller has enqueued it.\<close>

definition in_flight :: "sched_state \<Rightarrow> bytes \<Rightarrow> nat \<Rightarrow> bool" where
  "in_flight s key i \<longleftrightarrow> (\<exists>w. ss_works s i = Some w \<and> sw_poolKey w = key \<and> sw_resp w = None) \<and> ss_log s i = [] \<and>
     (ss_callers s i = Some AwaitingResult \<or> (\<exists>e. ss_callers s i = Some (GaveUp e)))"

definition placed :: "int \<Rightarrow> hostScheduler \<Rightarrow> bool" where
  "placed cap hs \<longleftrightarrow> distinct (hs_queue hs) \<and> int (length (hs_queue hs)) \<le> cap \<and>
     (\<forall>k i. holds hs k i \<longrightarrow> i \<notin> set (hs_queue hs) \<and> (\<forall>k'. holds hs k' i \<longrightarrow> k' = k))"

definition host_ok :: "sched_state \<Rightarrow> bytes \<Rightarrow> hostScheduler \<Rightarrow> bool" where
  "host_ok s key hs \<longleftrightarrow> placed (sc_queueCap (ss_sched s)) hs \<and>
     (\<forall>i \<in> set (hs_queue hs). in_flight s key i) \<and> (\<forall>k i. holds hs k i \<longrightarrow> in_flight s key i)"

text \<open>What a caller has seen, and what is in its channel, is what a worker answered.\<close>

fun seen_ok :: "scheduledWork option \<Rightarrow> scheduledResult list \<Rightarrow> caller option \<Rightarrow> bool" where
  "seen_ok work l None \<longleftrightarrow> work = None \<and> l = []"
| "seen_ok work l (Some Enqueuing) \<longleftrightarrow> l = [] \<and> map_option sw_resp work = Some None"
| "seen_ok work l (Some (Received r)) \<longleftrightarrow> l = [r] \<and> map_option sw_resp work = Some None"
| "seen_ok work l (Some pc) \<longleftrightarrow>
     (\<exists>w. work = Some w \<and> ((sw_resp w = None \<and> l = []) \<or> (\<exists>r. sw_resp w = Some r \<and> l = [r])))"

definition caller_ok :: "sched_state \<Rightarrow> nat \<Rightarrow> bool" where
  "caller_ok s i \<longleftrightarrow> seen_ok (ss_works s i) (ss_log s i) (ss_callers s i)"

definition sched_ok :: "sched_state \<Rightarrow> bool" where
  "sched_ok s \<longleftrightarrow> 0 \<le> sc_queueCap (ss_sched s) \<and> (\<forall>i. caller_ok s i) \<and>
     (\<forall>key hs. sc_hosts (ss_sched s) key = Some hs \<longrightarrow> host_ok s key hs)"

lemma sched_ok_host: "sched_ok s \<Longrightarrow> sc_hosts (ss_sched s) key = Some hs \<Longrightarrow> host_ok s key hs"
  by (simp add: sched_ok_def)

lemma sched_ok_seen: "sched_ok s \<Longrightarrow> seen_ok (ss_works s i) (ss_log s i) (ss_callers s i)"
  by (simp add: sched_ok_def caller_ok_def)

lemmas sched_updates = set_host_def set_caller_def set_work_def

text \<open>A host pool keeps its invariant while its items keep theirs.\<close>

lemma host_ok_cong:
  assumes "host_ok s key hs" "sc_queueCap (ss_sched s') = sc_queueCap (ss_sched s)" "\<And>i. in_flight s key i \<Longrightarrow> in_flight s' key i"
  shows "host_ok s' key hs"
  using assms by (simp add: host_ok_def)

lemma sched_ok_caller:
  assumes "sched_ok s" "caller_ok s' i" "\<And>j. j \<noteq> i \<Longrightarrow> caller_ok s' j"
    "sc_queueCap (ss_sched s') = sc_queueCap (ss_sched s)" "sc_hosts (ss_sched s') = sc_hosts (ss_sched s)"
    "\<And>key j. in_flight s key j \<Longrightarrow> in_flight s' key j"
  shows "sched_ok s'"
  using assms host_ok_cong [of s _ _ s'] unfolding sched_ok_def by metis

text \<open>Callers that give up or receive.\<close>

lemma sched_ok_give_up:
  assumes "sched_ok s" "ss_callers s i = Some Enqueuing \<or> ss_callers s i = Some AwaitingResult"
  shows "sched_ok (set_caller i (GaveUp e) s)"
proof (rule sched_ok_caller [OF assms(1), of _ i])
  show "caller_ok (set_caller i (GaveUp e) s) i"
    using sched_ok_seen [OF assms(1), of i] assms(2) by (cases "ss_works s i") (auto simp: caller_ok_def sched_updates)
  show "caller_ok (set_caller i (GaveUp e) s) j" if "j \<noteq> i" for j
    using sched_ok_seen [OF assms(1), of j] that by (simp add: caller_ok_def sched_updates)
  show "in_flight (set_caller i (GaveUp e) s) key j" if "in_flight s key j" for key j
    using that by (auto simp: in_flight_def sched_updates)
qed (simp_all add: sched_updates)

lemma sched_ok_receive:
  assumes "sched_ok s" "ss_callers s i = Some AwaitingResult" "ss_works s i = Some w" "sw_resp w = Some r"
  shows "sched_ok (set_caller i (Received r) (set_work i (w\<lparr>sw_resp := None\<rparr>) s))"
proof (rule sched_ok_caller [OF assms(1), of _ i])
  show "caller_ok (set_caller i (Received r) (set_work i (w\<lparr>sw_resp := None\<rparr>) s)) i"
    using sched_ok_seen [OF assms(1), of i] assms(2-4) by (auto simp: caller_ok_def sched_updates)
  show "caller_ok (set_caller i (Received r) (set_work i (w\<lparr>sw_resp := None\<rparr>) s)) j" if "j \<noteq> i" for j
    using sched_ok_seen [OF assms(1), of j] that by (simp add: caller_ok_def sched_updates)
  show "in_flight (set_caller i (Received r) (set_work i (w\<lparr>sw_resp := None\<rparr>) s)) key j" if "in_flight s key j" for key j
    using that assms(3,4) by (cases "j = i") (auto simp: in_flight_def sched_updates)
qed (simp_all add: sched_updates)

text \<open>Steps of a worker change one host scheduler.\<close>

lemma in_flight_set_host [simp]: "in_flight (set_host key hs s) = in_flight s"
  by (simp add: in_flight_def sched_updates fun_eq_iff)

lemma sched_ok_set_host:
  assumes "sched_ok s" "placed (sc_queueCap (ss_sched s)) hs'" "\<forall>i \<in> set (hs_queue hs'). in_flight s key i"
    "\<forall>k i. holds hs' k i \<longrightarrow> in_flight s key i"
  shows "sched_ok (set_host key hs' s)"
  using assms by (auto simp: sched_ok_def host_ok_def caller_ok_def sched_updates in_flight_def)

lemma holds_update:
  "holds (hs\<lparr>hs_workers := (hs_workers hs)[k := w]\<rparr>) k' i \<longleftrightarrow>
     (if k' = k then k < length (hs_workers hs) \<and> w = Holding i else holds hs k' i)"
  by (auto simp: holds_def nth_list_update)

lemma sched_ok_take:
  assumes "sched_ok s" "sc_hosts (ss_sched s) key = Some hs" "k < length (hs_workers hs)" "hs_workers hs ! k = AtSelect" "hs_queue hs = i # q"
  shows "sched_ok (set_host key (hs\<lparr>hs_queue := q, hs_workers := (hs_workers hs)[k := Holding i]\<rparr>) s)" (is "sched_ok (set_host key ?hs s)")
proof -
  have ok: "host_ok s key hs" using assms(1,2) by (rule sched_ok_host)
  have h: "holds ?hs k' j \<longleftrightarrow> (if k' = k then j = i else holds hs k' j)" for k' j
    using assms(3) by (auto simp: holds_def nth_list_update)
  have "\<not> holds hs k j" for j using assms(4) by (simp add: holds_def)
  then have "placed (sc_queueCap (ss_sched s)) ?hs"
    using ok assms(5) unfolding placed_def h by (auto simp: host_ok_def placed_def)
  then show ?thesis
    using ok assms(5) by (intro sched_ok_set_host assms) (auto simp: host_ok_def h)
qed

lemma sched_ok_leave:
  assumes "sched_ok s" "sc_hosts (ss_sched s) key = Some hs" "k < length (hs_workers hs)"
  shows "sched_ok (set_host key (hs\<lparr>hs_workers := (hs_workers hs)[k := Gone]\<rparr>) s)"
  using sched_ok_host [OF assms(1,2)]
  by (intro sched_ok_set_host assms) (auto simp: host_ok_def placed_def holds_update)

lemma sched_ok_answer:
  assumes "sched_ok s" "sc_hosts (ss_sched s) key = Some hs" "holds hs k i" "ss_works s i = Some w" "sw_poolKey w' = sw_poolKey w"
  shows "sched_ok (answer key hs k i w' r s)" (is "sched_ok ?s")
proof -
  have ok: "host_ok s key hs" using assms(1,2) by (rule sched_ok_host)
  have fl: "in_flight s key i" using ok assms(3) by (simp add: host_ok_def)
  have keep: "in_flight ?s key' j" if "in_flight s key' j" "j \<noteq> i" for key' j
    using that by (auto simp: in_flight_def answer_def sched_updates)
  have c: "caller_ok ?s j" for j
  proof (cases "j = i")
    case True
    then show ?thesis using fl by (auto simp: caller_ok_def in_flight_def answer_def sched_updates)
  next
    case False
    then show ?thesis using sched_ok_seen [OF assms(1), of j] by (simp add: caller_ok_def answer_def sched_updates)
  qed
  have this_host: "host_ok ?s key (hs\<lparr>hs_workers := (hs_workers hs)[k := AtSelect]\<rparr>)" (is "host_ok ?s key ?hs")
  proof -
    have h: "holds ?hs k' j \<longleftrightarrow> k' \<noteq> k \<and> holds hs k' j" for k' j by (simp add: holds_update)
    have "placed (sc_queueCap (ss_sched s)) hs" and p: "\<And>j. j \<in> set (hs_queue hs) \<Longrightarrow> j \<noteq> i" "\<And>k' j. k' \<noteq> k \<Longrightarrow> holds hs k' j \<Longrightarrow> j \<noteq> i"
      using ok assms(3) by (auto simp: host_ok_def placed_def)
    then show ?thesis
      using ok keep unfolding host_ok_def placed_def h by (auto simp: answer_def sched_updates)
  qed
  have "host_ok ?s key' hs'" if "sc_hosts (ss_sched s) key' = Some hs'" "key' \<noteq> key" for key' hs'
  proof (rule host_ok_cong [OF sched_ok_host [OF assms(1) that(1)]])
    show "in_flight ?s key' j" if "in_flight s key' j" for j
    proof (rule keep [OF that])
      show "j \<noteq> i" using fl that \<open>key' \<noteq> key\<close> by (auto simp: in_flight_def)
    qed
  qed (simp add: answer_def sched_updates)
  moreover have "sc_hosts (ss_sched ?s) = (sc_hosts (ss_sched s))(key \<mapsto> hs\<lparr>hs_workers := (hs_workers hs)[k := AtSelect]\<rparr>)"
    "sc_queueCap (ss_sched ?s) = sc_queueCap (ss_sched s)"
    by (simp_all add: answer_def sched_updates)
  ultimately show ?thesis
    using this_host c assms(1) unfolding sched_ok_def by (metis fun_upd_apply option.inject)
qed

text \<open>Calls, sends to the queue, and the outside world.\<close>

lemma host_ok_new: "0 \<le> sc_queueCap (ss_sched s) \<Longrightarrow> host_ok s key \<lparr>hs_queue = [], hs_workers = replicate n AtSelect, hs_stopped = b\<rparr>"
  by (auto simp: host_ok_def placed_def holds_def)

lemma sched_ok_call:
  assumes "sched_ok s" "ss_callers s i = None"
  shows "sched_ok (set_work i (new_work cx req key useTLS) (set_caller i Enqueuing
    (s\<lparr>ss_sched := snd (getOrCreateHostScheduler key (ss_sched s))\<rparr>)))" (is "sched_ok ?s")
proof -
  have i: "ss_works s i = None" "ss_log s i = []" using sched_ok_seen [OF assms(1), of i] assms(2) by simp_all
  have c: "caller_ok ?s j" for j
    using sched_ok_seen [OF assms(1), of j] i by (simp add: caller_ok_def sched_updates new_work_def)
  have f: "in_flight ?s key' j" if "in_flight s key' j" for key' j
    using that assms(2) by (auto simp: in_flight_def sched_updates)
  have cap: "sc_queueCap (ss_sched ?s) = sc_queueCap (ss_sched s)" "0 \<le> sc_queueCap (ss_sched s)"
    using assms(1) by (simp_all add: sched_updates getOrCreateHostScheduler_def Let_def sched_ok_def split: option.split)
  have "host_ok ?s key' hs" if "sc_hosts (ss_sched ?s) key' = Some hs" for key' hs
  proof (cases "sc_hosts (ss_sched s) key' = Some hs")
    case True
    then show ?thesis using host_ok_cong [OF sched_ok_host [OF assms(1) True] cap(1) f] by blast
  next
    case False
    then have "hs = \<lparr>hs_queue = [], hs_workers = replicate (nat (sc_workers (ss_sched s))) AtSelect, hs_stopped = False\<rparr>"
      using that by (auto simp: sched_updates getOrCreateHostScheduler_def Let_def split: option.splits if_splits)
    then show ?thesis using host_ok_new [of ?s] cap by simp
  qed
  then show ?thesis using c cap by (simp add: sched_ok_def)
qed

lemma sched_ok_enqueue:
  assumes "sched_ok s" "ss_callers s i = Some Enqueuing" "ss_works s i = Some w" "sc_hosts (ss_sched s) (sw_poolKey w) = Some hs"
    "int (length (hs_queue hs)) < sc_queueCap (ss_sched s)"
  shows "sched_ok (set_caller i AwaitingResult (set_host (sw_poolKey w) (hs\<lparr>hs_queue := hs_queue hs @ [i]\<rparr>) s))"
proof -
  let ?s = "set_caller i AwaitingResult s" and ?hs = "hs\<lparr>hs_queue := hs_queue hs @ [i]\<rparr>"
  have i: "ss_log s i = []" "sw_resp w = None" using sched_ok_seen [OF assms(1), of i] assms(2,3) by simp_all
  have f: "in_flight ?s key j" if "in_flight s key j" for key j using that by (auto simp: in_flight_def sched_updates)
  have ok: "sched_ok ?s"
  proof (rule sched_ok_caller [OF assms(1), of _ i])
    show "caller_ok ?s i" using i assms(3) by (simp add: caller_ok_def sched_updates)
    show "caller_ok ?s j" if "j \<noteq> i" for j
      using sched_ok_seen [OF assms(1), of j] that by (simp add: caller_ok_def sched_updates)
  qed (use f in \<open>simp_all add: sched_updates\<close>)
  have now: "in_flight ?s (sw_poolKey w) i" using i assms(3) by (simp add: in_flight_def sched_updates)
  have new: "\<not> in_flight s key i" for key using assms(2) by (simp add: in_flight_def)
  note h = sched_ok_host [OF assms(1,4)]
  have ni: "i \<notin> set (hs_queue hs)" "\<And>k. \<not> holds hs k i" using h new unfolding host_ok_def by blast+
  have "holds ?hs = holds hs" by (simp add: holds_def fun_eq_iff)
  then have "sched_ok (set_host (sw_poolKey w) ?hs ?s)"
  proof (intro sched_ok_set_host [OF ok])
    show "placed (sc_queueCap (ss_sched ?s)) ?hs"
      using h ni assms(5) \<open>holds ?hs = holds hs\<close> unfolding placed_def host_ok_def by (auto simp: sched_updates)
    show "\<forall>j \<in> set (hs_queue ?hs). in_flight ?s (sw_poolKey w) j"
      using h f now by (auto simp: host_ok_def)
    show "\<forall>k j. holds ?hs k j \<longrightarrow> in_flight ?s (sw_poolKey w) j"
      using h f \<open>holds ?hs = holds hs\<close> by (auto simp: host_ok_def)
  qed
  moreover have "set_host (sw_poolKey w) ?hs ?s = set_caller i AwaitingResult (set_host (sw_poolKey w) ?hs s)"
    by (simp add: sched_updates)
  ultimately show ?thesis by simp
qed

lemma sched_ok_stop:
  assumes "sched_ok s"
  shows "sched_ok (s\<lparr>ss_sched := Scheduler_Stop (ss_sched s)\<rparr>)" (is "sched_ok ?s")
proof (cases "sc_stopped (ss_sched s)")
  case True
  then show ?thesis using assms by (simp add: Scheduler_Stop_def)
next
  case False
  have f: "in_flight ?s = in_flight s" by (simp add: in_flight_def fun_eq_iff)
  have "host_ok ?s key (hs\<lparr>hs_stopped := True\<rparr>)" if "host_ok s key hs" for key hs
    using that False unfolding host_ok_def placed_def f by (simp add: Scheduler_Stop_def holds_def)
  then show ?thesis
    using assms False by (auto simp: sched_ok_def caller_ok_def Scheduler_Stop_def)
qed

lemma sched_ok_cancel: "sched_ok s \<Longrightarrow> sched_ok (s\<lparr>ss_done := d\<rparr>)"
  by (rule sched_ok_caller [of s _ 0]) (simp_all add: sched_ok_def caller_ok_def in_flight_def)

lemma sched_step_ok: "sched_step s s' \<Longrightarrow> sched_ok s \<Longrightarrow> sched_ok s'"
proof (induction rule: sched_step.induct)
  case (skip s key hs k i w e)
  then show ?case using sched_ok_answer [of s key hs k i w w] by (simp add: holds_def)
next
  case (unconnected s key hs k i w)
  then show ?case using sched_ok_answer [of s key hs k i w w] by (simp add: holds_def)
next
  case (execute s key hs k i w r)
  then show ?case using sched_ok_answer [of s key hs k i w "w\<lparr>sw_req := (sw_req w)\<lparr>ctx := Some (sw_ctx w)\<rparr>\<rparr>" r] by (simp add: holds_def)
qed (blast intro: sched_ok_call sched_ok_enqueue sched_ok_give_up sched_ok_receive sched_ok_take sched_ok_leave sched_ok_stop sched_ok_cancel)+

lemma sched_start_ok: "0 \<le> sc_queueCap (NewScheduler config workers queueCap) \<Longrightarrow> sched_ok (sched_start config workers queueCap)"
  by (auto simp: sched_ok_def caller_ok_def sched_start_def) (simp add: NewScheduler_def Let_def)

lemma sched_run_ok:
  assumes "0 \<le> sc_queueCap (NewScheduler config workers queueCap)" "sched_step\<^sup>*\<^sup>* (sched_start config workers queueCap) s"
  shows "sched_ok s"
  using assms(2) by (induction rule: rtranclp_induct) (auto intro: sched_start_ok [OF assms(1)] sched_step_ok)

section \<open>A run\<close>

text \<open>One call, from an empty scheduler until a worker has its work in hand.\<close>

lemma held_run:
  assumes "0 < sc_workers (NewScheduler config workers queueCap)" "0 < sc_queueCap (NewScheduler config workers queueCap)"
  shows "\<exists>s hs. sched_step\<^sup>*\<^sup>* (sched_start config workers queueCap) s \<and> ss_callers s 0 = Some AwaitingResult \<and> ss_done s = Map.empty \<and>
    ss_works s 0 = Some (new_work cx req key useTLS) \<and> sc_hosts (ss_sched s) key = Some hs \<and> holds hs 0 0"
proof -
  let ?c = "NewScheduler config workers queueCap"
  obtain n where n: "nat (sc_workers ?c) = Suc n" using assms(1) by (metis gr0_implies_Suc zero_less_nat_eq)
  let ?s0 = "sched_start config workers queueCap"
  let ?w = "new_work cx req key useTLS" let ?hs = "\<lparr>hs_queue = [], hs_workers = replicate (Suc n) AtSelect, hs_stopped = False\<rparr>"
  let ?s1 = "set_work 0 ?w (set_caller 0 Enqueuing (?s0\<lparr>ss_sched := snd (getOrCreateHostScheduler key (ss_sched ?s0))\<rparr>))"
  have 1: "sched_step ?s0 ?s1" by (rule sched_step.call) (simp add: sched_start_def)
  have none: "sc_hosts ?c = Map.empty" by (simp add: NewScheduler_def Let_def)
  have s1: "ss_callers ?s1 0 = Some Enqueuing" "ss_works ?s1 0 = Some ?w" "sc_hosts (ss_sched ?s1) key = Some ?hs" "ss_done ?s1 = Map.empty"
    "sc_queueCap (ss_sched ?s1) = sc_queueCap ?c" "sw_poolKey ?w = key"
    using n none by (simp_all add: sched_updates sched_start_def getOrCreateHostScheduler_def Let_def new_work_def)
  let ?s2 = "set_caller 0 AwaitingResult (set_host key (?hs\<lparr>hs_queue := [0]\<rparr>) ?s1)"
  have 2: "sched_step ?s1 ?s2"
    using sched_step.enqueue [OF s1(1,2), of ?hs] s1 assms(2) by simp
  have s2: "ss_callers ?s2 0 = Some AwaitingResult" "ss_works ?s2 0 = Some ?w" "sc_hosts (ss_sched ?s2) key = Some (?hs\<lparr>hs_queue := [0]\<rparr>)"
    "ss_done ?s2 = Map.empty"
    using s1 by (simp_all add: sched_updates)
  let ?hs3 = "?hs\<lparr>hs_workers := (replicate (Suc n) AtSelect)[0 := Holding 0]\<rparr>"
  have 3: "sched_step ?s2 (set_host key ?hs3 ?s2)"
    using sched_step.take [OF s2(3), of 0 0 "[]"] by simp
  have "sched_step\<^sup>*\<^sup>* ?s0 (set_host key ?hs3 ?s2)"
    using 1 2 3 by (meson rtranclp.rtrancl_into_rtrancl rtranclp.rtrancl_refl)
  moreover have "ss_callers (set_host key ?hs3 ?s2) 0 = Some AwaitingResult" "ss_works (set_host key ?hs3 ?s2) 0 = Some ?w"
    "sc_hosts (ss_sched (set_host key ?hs3 ?s2)) key = Some ?hs3" "ss_done (set_host key ?hs3 ?s2) = Map.empty" "holds ?hs3 0 0"
    using s2 by (simp_all add: sched_updates holds_def)
  ultimately show ?thesis by blast
qed

lemma served_run:
  assumes "0 < sc_workers (NewScheduler config workers queueCap)" "0 < sc_queueCap (NewScheduler config workers queueCap)"
  shows "\<exists>s. sched_step\<^sup>*\<^sup>* (sched_start config workers queueCap) s \<and> ss_callers s 0 = Some (Received r)"
proof -
  obtain s hs where s: "sched_step\<^sup>*\<^sup>* (sched_start config workers queueCap) s" "ss_callers s 0 = Some AwaitingResult"
    "ss_works s 0 = Some (new_work 1 requestPool_New ''k'' False)" "sc_hosts (ss_sched s) ''k'' = Some hs" "holds hs 0 0"
    using held_run [OF assms] by blast
  let ?w = "new_work 1 requestPool_New ''k'' False"
  let ?s = "answer ''k'' hs 0 0 (?w\<lparr>sw_req := (sw_req ?w)\<lparr>ctx := Some (sw_ctx ?w)\<rparr>\<rparr>) r s"
  have 1: "sched_step s ?s"
    using sched_step.execute [OF s(4) _ _ s(3), of 0 r] s(5) by (simp add: holds_def new_work_def)
  have "ss_callers ?s 0 = Some AwaitingResult" "\<exists>w. ss_works ?s 0 = Some w \<and> sw_resp w = Some r"
    using s(2) by (simp_all add: answer_def sched_updates)
  then obtain w where 2: "sched_step ?s (set_caller 0 (Received r) (set_work 0 (w\<lparr>sw_resp := None\<rparr>) ?s))"
    using sched_step.receive [of ?s 0] by blast
  have "ss_callers (set_caller 0 (Received r) (set_work 0 (w\<lparr>sw_resp := None\<rparr>) ?s)) 0 = Some (Received r)" by (simp add: sched_updates)
  then show ?thesis using s(1) 1 2 by (meson rtranclp.rtrancl_into_rtrancl)
qed

text \<open>
  C9. However callers, workers, cancellations and a stop interleave, every request is executed at most once and
  no worker ever blocks: a work item has at most one answer, what a caller receives is the answer a
  worker gave to its own request, every item in a worker's hand is for that worker's origin and has an
  empty channel to send to, and no queue outgrows its capacity.
\<close>

theorem scheduler_answers_once:
  assumes "0 \<le> sc_queueCap (NewScheduler config workers queueCap)" "sched_step\<^sup>*\<^sup>* (sched_start config workers queueCap) s"
  shows "{(i, r). ss_callers s i = Some (Received r)} \<subseteq> {(i, r). ss_log s i = [r]} \<and> (\<forall>i. length (ss_log s i) \<le> 1) \<and>
    {(key, i). \<exists>hs k. sc_hosts (ss_sched s) key = Some hs \<and> holds hs k i} \<subseteq>
      {(key, i). \<exists>w. ss_works s i = Some w \<and> sw_poolKey w = key \<and> sw_resp w = None} \<and>
    (\<Union>hs \<in> ran (sc_hosts (ss_sched s)). {int (length (hs_queue hs))}) \<subseteq> {.. sc_queueCap (ss_sched s)}"
proof -
  note ok = sched_run_ok [OF assms] and seen = sched_ok_seen [OF sched_run_ok [OF assms]]
  have "length (ss_log s i) \<le> 1" for i
    using seen [of i] by (cases "(ss_works s i, ss_log s i, ss_callers s i)" rule: seen_ok.cases) auto
  moreover have "ss_log s i = [r]" if "ss_callers s i = Some (Received r)" for i r using seen [of i] that by simp
  ultimately show ?thesis
    using sched_ok_host [OF ok] by (auto simp: host_ok_def placed_def in_flight_def ran_def)
qed

theorem scheduler_answers_once_witness:
  "\<exists>s. sched_step\<^sup>*\<^sup>* (sched_start DefaultConfig 2 4) s \<and> ss_callers s 0 = Some (Received no_connection) \<and> ss_log s 0 = [no_connection]"
proof -
  have c: "0 < sc_workers (NewScheduler DefaultConfig 2 4)" "0 < sc_queueCap (NewScheduler DefaultConfig 2 4)"
    by (simp_all add: NewScheduler_def Let_def)
  obtain s where s: "sched_step\<^sup>*\<^sup>* (sched_start DefaultConfig 2 4) s" "ss_callers s 0 = Some (Received no_connection)"
    using served_run [OF c] by blast
  with scheduler_answers_once [OF less_imp_le [OF c(2)] s(1)] show ?thesis by blast
qed

end
