(* ===== verification/Client.thy ===== *)
theory Client
  imports Scheduler Dialer Retry RateLimit Metrics Streaming Writer
begin

text \<open>
  The client of \<^verbatim>\<open>client.go\<close>: it limits the rate, resolves the request's origin, obtains a connection and
  retries. Its goroutine is followed alone; what the other goroutines do to the pool, the heap and a
  pipelined connection meanwhile are arguments. Of the collectors that implement MetricsCollector
  only the built-in one is modelled. A context is known by its number; what it does is its
  Timing.ctx. sync.Pool may return any object put into it or a new one: here it is the last one put.

  The response objects are leased from their pool: \<open>cl_acquired\<close> counts the calls of acquireResponse and
  \<open>cl_released\<close> lists the leases given back. Both are history variables that no code reads.
\<close>

record Client =
  cl_config :: Config
  cl_pool :: Pool
  cl_heap :: heap
  cl_dialer :: Dialer
  cl_tlsConfig :: "TLSConfig option"
  cl_compressor :: "Compressor option"
  cl_metrics :: "BuiltinMetrics option"
  cl_retryer :: "Retryer option"
  cl_requestPool :: "Request list"
  cl_responsePool :: "Response list"
  cl_scheduler :: "Scheduler option"
  cl_limiter :: "tokenBucket option"
  cl_acquired :: nat
  cl_released :: "nat list"

definition dialer_of :: "Dialer \<Rightarrow> dialer_view" where
  "dialer_of d = \<lparr>dv_forward = IsForwardProxy d, dv_auth = ProxyAuthHeader d\<rparr>"

definition NewClient ::
  "(bytes \<Rightarrow> goerror + proxy_url) \<Rightarrow> int \<Rightarrow> heap \<Rightarrow> BuiltinMetrics option \<Rightarrow> Config option \<Rightarrow> goerror + Client" where
  "NewClient parse now heap mc config =
     (let config = (case config of None \<Rightarrow> DefaultConfig | Some c \<Rightarrow> c) in
      case Validate config of
        (Some err, config) \<Rightarrow> Inl (LogErrorWithFlag ErrorTypeValidation ''config validation failed'' err)
      | (None, config) \<Rightarrow>
          (case NewDialer parse config of
             Inl err \<Rightarrow> Inl err
           | Inr dialer \<Rightarrow>
               (let tlsConfig = (if UseTLS config then Some (NewTLSConfig config) else None);
                    compressor = (if EnableCompression config then Some (NewCompressor (CompressionLevel config)) else None)
                in Inr \<lparr>cl_config = config, cl_pool = NewPool config (Some (dialer_of dialer)) tlsConfig compressor, cl_heap = heap,
                        cl_dialer = dialer, cl_tlsConfig = tlsConfig, cl_compressor = compressor,
                        cl_metrics = (if cfg_Metrics config then mc else None), cl_retryer = NewRetryer config,
                        cl_requestPool = [], cl_responsePool = [],
                        cl_scheduler = (if EnableScheduler config
                          then Some (NewScheduler config (SchedulerWorkers config) (SchedulerQueueDepth config)) else None),
                        cl_limiter = (if RequestsPerSecond config > 0 \<and> BurstSize config > 0
                          then newTokenBucket (RequestsPerSecond config) (BurstSize config) now else None),
                        cl_acquired = 0, cl_released = []\<rparr>)))"

section \<open>Pooled objects\<close>

definition header_buf_size :: "Config \<Rightarrow> int" where
  "header_buf_size config = (if HeaderBufferSize config \<le> 0 then int initialHeaderBufferSize else HeaderBufferSize config)"

text \<open>The New functions of the two pools.\<close>

definition request_New :: "Config \<Rightarrow> Request" where
  "request_New config =
     new_Request (nat (header_buf_size config))
       (if MaxRequestBodySize config > 0 \<and> MaxRequestBodySize config < int initialRequestBodyBufferSize
        then nat (MaxRequestBodySize config) else initialRequestBodyBufferSize)
       (MaxRequestBodySize config)"

definition response_New :: "Config \<Rightarrow> Response" where
  "response_New config = responsePool_New\<lparr>bodyBuf := zeros
     (if MaxResponseBodySize config > 0 \<and> MaxResponseBodySize config < int initialResponseBufferSize
      then nat (MaxResponseBodySize config) else initialResponseBufferSize)\<rparr>"

definition acquireRequest :: "Client \<Rightarrow> Request \<times> Client" where
  "acquireRequest c =
     (case cl_requestPool c of
        [] \<Rightarrow> ((Request_Reset (request_New (cl_config c)))\<lparr>maxBodySize := MaxRequestBodySize (cl_config c)\<rparr>, c)
      | r # rs \<Rightarrow> ((Request_Reset r)\<lparr>maxBodySize := MaxRequestBodySize (cl_config c)\<rparr>, c\<lparr>cl_requestPool := rs\<rparr>))"

definition releaseRequest :: "Request option \<Rightarrow> Client \<Rightarrow> Client" where
  "releaseRequest req c =
     (case req of
        None \<Rightarrow> c
      | Some r \<Rightarrow>
          (let r = (if length (req_bodyBuf r) > initialRequestBodyBufferSize * 2
                    then r\<lparr>req_bodyBuf := zeros initialRequestBodyBufferSize\<rparr> else r);
               r = (if int (length (headerBuf r)) > header_buf_size (cl_config c) * 2
                    then r\<lparr>headerBuf := zeros (nat (header_buf_size (cl_config c)))\<rparr> else r);
               r = r\<lparr>PreEncodedHeaderPrefix := []\<rparr>
           in c\<lparr>cl_requestPool := r # cl_requestPool c\<rparr>))"

type_synonym leased = "nat \<times> Response"

definition fit_response :: "Config \<Rightarrow> Response \<Rightarrow> Response" where
  "fit_response config r =
     (let resp = (Response_Reset r)\<lparr>maxSize := MaxResponseBodySize config\<rparr> in
      if maxSize resp > 0 \<and> int (length (bodyBuf resp)) > maxSize resp then new_bodyBuf (nat (maxSize resp)) resp
      else if length (bodyBuf resp) < initialResponseBufferSize then new_bodyBuf initialResponseBufferSize resp
      else resp)"

definition acquireResponse :: "Client \<Rightarrow> leased \<times> Client" where
  "acquireResponse c =
     (let k = cl_acquired c; c1 = c\<lparr>cl_acquired := k + 1\<rparr> in
      case cl_responsePool c of
        [] \<Rightarrow> ((k, fit_response (cl_config c) (response_New (cl_config c))), c1)
      | r # rs \<Rightarrow> ((k, fit_response (cl_config c) r), c1\<lparr>cl_responsePool := rs\<rparr>))"

definition releaseResponse :: "leased option \<Rightarrow> Client \<Rightarrow> Client" where
  "releaseResponse resp c =
     (case resp of
        None \<Rightarrow> c
      | Some (k, r) \<Rightarrow>
          (let r = (if length (bodyBuf r) > initialResponseBufferSize * 2 then new_bodyBuf initialResponseBufferSize r else r);
               r = (if length (rawHeaderBuf r) > 4096 then r\<lparr>rawHeaderBuf := []\<rparr> else r)
           in c\<lparr>cl_responsePool := r # cl_responsePool c, cl_released := cl_released c @ [k]\<rparr>))"

section \<open>One attempt\<close>

text \<open>What the scheduler, or the pool and a connection, report back for one attempt.\<close>

datatype attempted = NoConnection | Replied "Response option" "goerror option"

type_synonym transport = "bytes \<Rightarrow> bool \<Rightarrow> Request \<Rightarrow> Client \<Rightarrow> (attempted \<times> Request \<times> Client) outcome option"

text \<open>
  Connection.Do in full. On a pipelined connection the call waits until one of its three channels is
  ready: \<open>ae_others\<close> is what the reader goroutine and the other callers have done to the connection
  by then and \<open>ae_ready\<close> the channel the select chose; a channel that is not ready keeps it waiting.
\<close>

datatype ready = ResponseReady | ErrorReady | ContextDone

record attempt_env =
  ae_net :: "nat \<Rightarrow> network"
  ae_now :: "nat \<Rightarrow> int"
  ae_dialTime :: "nat \<Rightarrow> int"
  ae_seq :: seq_env
  ae_slot :: nat
  ae_others :: "Connection \<Rightarrow> Connection"
  ae_ready :: ready

definition pipe_wait :: "ready \<Rightarrow> nat \<Rightarrow> Connection \<Rightarrow> (Response option \<times> goerror option \<times> Connection) option" where
  "pipe_wait rdy i c =
     (case rdy of
        ResponseReady \<Rightarrow> map_option (\<lambda>(r, c). (Some r, None, c)) (pipe_response c i)
      | ErrorReady \<Rightarrow> map_option (\<lambda>(e, c). (None, Some e, c)) (pipe_error c i)
      | ContextDone \<Rightarrow> map_option (\<lambda>(e, c). (None, Some e, c)) (pipe_cancel c i))"

definition Connection_Do ::
  "attempt_env \<Rightarrow> Connection \<Rightarrow> Request \<Rightarrow> (Response option \<times> goerror option \<times> Connection \<times> Request) outcome option" where
  "Connection_Do env c req =
     (if EnablePipelining (cn_config c) then
        (case Do_pipelined (ae_seq env) c req (ae_slot env) of
           None \<Rightarrow> None
         | Some (Some e, c, req) \<Rightarrow> Some (Done (None, Some e, c, req))
         | Some (None, c, req) \<Rightarrow>
             map_option (\<lambda>(r, e, c). Done (r, e, c, req)) (pipe_wait (ae_ready env) (ae_slot env) (ae_others env c)))
      else
        map_option (outcome_map (\<lambda>(r, c, req). case r of Inl e \<Rightarrow> (None, Some e, c, req) | Inr resp \<Rightarrow> (Some resp, None, c, req)))
          (Do_sequential (ae_seq env) c req))"

definition pool_transport :: "attempt_env \<Rightarrow> transport" where
  "pool_transport env key useTLS req c =
     (case GetConnection (ae_net env) (ae_now env) (ae_dialTime env) (cl_heap c) (cl_pool c) key useTLS of
        None \<Rightarrow> None
      | Some (None, heap, p) \<Rightarrow> Some (Done (NoConnection, req, c\<lparr>cl_heap := heap, cl_pool := p\<rparr>))
      | Some (Some k, heap, p) \<Rightarrow>
          map_option (outcome_map (\<lambda>(resp, err, conn, req). (Replied resp err, req, c\<lparr>cl_heap := heap(k := conn), cl_pool := p\<rparr>)))
            (Connection_Do env (heap k) (req\<lparr>req_releaseFn := True\<rparr>)))"

text \<open>Through the scheduler the attempt ends as the call of Scheduler.Do does.\<close>

definition scheduler_transport :: "caller \<Rightarrow> transport" where
  "scheduler_transport pc key useTLS req c =
     (case pc of
        Received (resp, err) \<Rightarrow> Some (Done (Replied resp err, req\<lparr>req_releaseFn := True\<rparr>, c))
      | GaveUp e \<Rightarrow> Some (Done (Replied None (Some e), req\<lparr>req_releaseFn := True\<rparr>, c))
      | _ \<Rightarrow> None)"

definition client_transport :: "attempt_env \<Rightarrow> caller \<Rightarrow> transport" where
  "client_transport env pc key useTLS req c =
     (if cl_scheduler c \<noteq> None then scheduler_transport pc key useTLS req c else pool_transport env key useTLS req c)"

section \<open>Attempts\<close>

text \<open>The clock readings and the random number of one turn of the loop.\<close>

record tick =
  tk_now :: int
  tk_rnd :: rat
  tk_tie :: bool
  tk_start :: int
  tk_end :: int

text \<open>
  How a turn ends: with a return, or with a continue and what the next wait is told, that is the status,
  the Retry-After header and the error, and the error that a return after the loop would report.
\<close>

datatype verdict = Finished "leased option" "goerror option" | Again int bytes "goerror option" "goerror option"

definition record_response :: "tick \<Rightarrow> int \<Rightarrow> goerror option \<Rightarrow> int option \<Rightarrow> int \<Rightarrow> int \<Rightarrow> Client \<Rightarrow> Client" where
  "record_response t status err start written read c =
     c\<lparr>cl_metrics := map_option (RecordResponse status err start (tk_end t) written read) (cl_metrics c)\<rparr>"

definition retries :: "Client \<Rightarrow> int \<Rightarrow> Response option \<Rightarrow> goerror option \<Rightarrow> bool" where
  "retries c attempt resp err = (case cl_retryer c of None \<Rightarrow> False | Some r \<Rightarrow> ShouldRetry r attempt resp err)"

definition no_connection_error :: goerror where
  "no_connection_error = LogErrorWithFlag ErrorTypeInternal ''failed to get connection from pool'' ErrConnectFailed"

definition cancelled_error :: "ctx \<Rightarrow> tick \<Rightarrow> goerror" where
  "cancelled_error cx t = DetailedError ErrorTypeTimeout ''request cancelled'' (ctx_Err cx (tk_end t))"

text \<open>
  What follows an attempt. \<open>lr\<close> is the leased response of the attempt; the connection hands back this same
  object, so that a response it returned is the lease with new contents.
\<close>

definition settle_failed :: "tick \<Rightarrow> int \<Rightarrow> int option \<Rightarrow> leased \<Rightarrow> goerror \<Rightarrow> Client \<Rightarrow> verdict \<times> Client" where
  "settle_failed t attempt start lr err c =
     (let c = record_response t 0 (Some err) start 0 0 (releaseResponse (Some lr) c) in
      if retries c attempt None (Some err) then (Again 0 [] (Some err) (Some err), c) else (Finished None (Some err), c))"

definition settle_both :: "tick \<Rightarrow> int \<Rightarrow> int option \<Rightarrow> leased \<Rightarrow> goerror \<Rightarrow> Client \<Rightarrow> verdict \<times> Client" where
  "settle_both t attempt start lr err c =
     (let resp = snd lr;
          c = record_response t (StatusCode resp) (Some err) start 0 (i64 (ContentLength resp)) c in
      if retries c attempt (Some resp) (Some err) then
        (Again (StatusCode resp) (Response_Header resp ''Retry-After'') (Some err) (Some err), releaseResponse (Some lr) c)
      else (Finished (Some lr) (Some err), c))"

definition settle_done :: "tick \<Rightarrow> int \<Rightarrow> int option \<Rightarrow> int \<Rightarrow> nat \<Rightarrow> Response option \<Rightarrow> Client \<Rightarrow> (verdict \<times> Client) outcome" where
  "settle_done t attempt start written k resp c =
     (case resp of
        None \<Rightarrow> if cl_metrics c \<noteq> None then Panic else Done (Finished None None, c)
      | Some r \<Rightarrow>
          (let c = record_response t (StatusCode r) None start written (i64 (ContentLength r)) c in
           Done (if retries c attempt (Some r) None
                 then (Again (StatusCode r) (Response_Header r ''Retry-After'') None None, releaseResponse (Some (k, r)) c)
                 else (Finished (Some (k, r)) None, c))))"

definition settle ::
  "ctx \<Rightarrow> tick \<Rightarrow> int \<Rightarrow> int option \<Rightarrow> leased \<Rightarrow> attempted \<Rightarrow> Request \<Rightarrow> Client \<Rightarrow> (verdict \<times> Client) outcome" where
  "settle cx t attempt start lr a req c =
     (let lr = (fst lr, case req_resp req of Some r \<Rightarrow> r | None \<Rightarrow> snd lr) in
      case a of
        NoConnection \<Rightarrow> Done (settle_failed t attempt start lr no_connection_error c)
      | Replied resp None \<Rightarrow> settle_done t attempt start (int (length (req_Body req))) (fst lr) resp c
      | Replied resp (Some err) \<Rightarrow>
          if err = errRespTransferred then Done (Finished None (Some (cancelled_error cx t)), c)
          else
            (case resp of
               Some r \<Rightarrow> if StatusCode r > 0 then Done (settle_both t attempt start (fst lr, r) err c)
                         else Done (settle_failed t attempt start (fst lr, r) err c)
             | None \<Rightarrow> Done (settle_failed t attempt start lr err c)))"

definition try_once ::
  "transport \<Rightarrow> ctx \<Rightarrow> tick \<Rightarrow> int \<Rightarrow> bytes \<Rightarrow> bool \<Rightarrow> Client \<Rightarrow> Request \<Rightarrow> (verdict \<times> Client \<times> Request) outcome option" where
  "try_once tr cx t attempt key useTLS c req =
     (let start = (if cl_metrics c = None then None else RecordRequest (tk_start t)) in
      case acquireResponse c of (lr, c) \<Rightarrow>
        (case tr key useTLS (req\<lparr>req_resp := Some (snd lr)\<rparr>) c of
           None \<Rightarrow> None
         | Some Panic \<Rightarrow> Some Panic
         | Some (Done (a, req, c)) \<Rightarrow> Some (outcome_map (\<lambda>(v, c). (v, c, req)) (settle cx t attempt start lr a req c))))"

definition before_retry ::
  "(bytes \<Rightarrow> url option) \<Rightarrow> ctx \<Rightarrow> tick \<Rightarrow> int \<Rightarrow> int \<times> bytes \<times> goerror option \<Rightarrow> Client \<Rightarrow> Request \<Rightarrow> goerror option \<times> Client \<times> Request" where
  "before_retry parse cx t attempt prev c req =
     (let c = c\<lparr>cl_metrics := map_option RecordRetry (cl_metrics c)\<rparr> in
      case prev of (status, hdr, err) \<Rightarrow>
        (case (case cl_retryer c of
                 None \<Rightarrow> None
               | Some r \<Rightarrow> fst (WaitAdaptive (tk_rnd t) (tk_tie t) (tk_now t) cx r (attempt - 1) status hdr err)) of
           Some e \<Rightarrow> (Some (WrapError ErrorTypeTimeout ''retry wait cancelled'' e), c, req)
         | None \<Rightarrow>
             (let req = req\<lparr>urlParsed := False\<rparr> in
              (None, c, if URL req \<noteq> [] then snd (resolveURL parse req) else req))))"

type_synonym done_result = "(leased option \<times> goerror option \<times> Client \<times> Request) outcome option"

fun do_attempts ::
  "(bytes \<Rightarrow> url option) \<Rightarrow> (nat \<Rightarrow> transport) \<Rightarrow> (nat \<Rightarrow> tick) \<Rightarrow> ctx \<Rightarrow> bytes \<Rightarrow> bool \<Rightarrow> nat \<Rightarrow> nat \<Rightarrow>
   int \<times> bytes \<times> goerror option \<Rightarrow> goerror option \<Rightarrow> Client \<Rightarrow> Request \<Rightarrow> done_result" where
  "do_attempts parse tr tk cx key useTLS 0 attempt prev lastErr c req =
     Some (Done (None, Some (case lastErr of Some e \<Rightarrow> e | None \<Rightarrow> WrapError ErrorTypeInternal ''max retries exhausted'' ErrConnectFailed), c, req))"
| "do_attempts parse tr tk cx key useTLS (Suc left) attempt prev lastErr c req =
     (case (if attempt > 0 then before_retry parse cx (tk attempt) (int attempt) prev c req else (None, c, req)) of
        (Some e, c, req) \<Rightarrow> Some (Done (None, Some e, c, req))
      | (None, c, req) \<Rightarrow>
          (case try_once (tr attempt) cx (tk attempt) (int attempt) key useTLS c req of
             None \<Rightarrow> None
           | Some Panic \<Rightarrow> Some Panic
           | Some (Done (Finished resp err, c, req)) \<Rightarrow> Some (Done (resp, err, c, req))
           | Some (Done (Again status hdr err newErr, c, req)) \<Rightarrow>
               do_attempts parse tr tk cx key useTLS left (attempt + 1) (status, hdr, err)
                 (if newErr = None then lastErr else newErr) c req))"

section \<open>DoWithContext\<close>

text \<open>The origin of a request: that of its URL, or the configured one.\<close>

definition request_origin :: "(bytes \<Rightarrow> url option) \<Rightarrow> Config \<Rightarrow> Request \<Rightarrow> (bytes \<times> int \<times> bool) option \<times> Request" where
  "request_origin parse config req =
     (if URL req \<noteq> [] then
        (case resolveURL parse req of
           ((h, p, tls, path, ok), req) \<Rightarrow>
             if \<not> ok then (None, req) else (Some (h, p, tls), req\<lparr>parsedPath := path\<rparr>))
      else (Some (Host config, Port config, UseTLS config), req))"

definition number_of_attempts :: "Client \<Rightarrow> nat" where
  "number_of_attempts c = (case cl_retryer c of None \<Rightarrow> 1 | Some r \<Rightarrow> nat (1 + maxRetries r))"

record do_env =
  de_parse :: "bytes \<Rightarrow> url option"
  de_ctx :: "nat \<Rightarrow> ctx"
  de_now :: int
  de_waits :: "(int \<times> bool) list"
  de_tick :: "nat \<Rightarrow> tick"

definition do_request :: "do_env \<Rightarrow> (nat \<Rightarrow> transport) \<Rightarrow> ctx \<Rightarrow> Client \<Rightarrow> Request \<Rightarrow> done_result" where
  "do_request env tr cx c req =
     (case request_origin (de_parse env) (cl_config c) req of
        (None, req) \<Rightarrow> Some (Done (None, Some (WrapError ErrorTypeValidation (''invalid request URL: '' @ URL req) ErrInvalidURL), c, req))
      | (Some (host, dialPort, useTLS), req) \<Rightarrow>
          do_attempts (de_parse env) tr (de_tick env) cx (pool_key useTLS host dialPort) useTLS (number_of_attempts c) 0 (0, [], None) None c req)"

definition rate_limit :: "do_env \<Rightarrow> ctx \<Rightarrow> Client \<Rightarrow> (goerror option \<times> Client) option" where
  "rate_limit env cx c =
     (case cl_limiter c of
        None \<Rightarrow> Some (None, c)
      | Some tb \<Rightarrow>
          (case tokenBucket_Wait (de_waits env) cx tb of
             (Granted, tb) \<Rightarrow> Some (None, c\<lparr>cl_limiter := Some tb\<rparr>)
           | (WaitFailed e, tb) \<Rightarrow> Some (Some (WrapError ErrorTypeTimeout ''rate limit wait cancelled'' e), c\<lparr>cl_limiter := Some tb\<rparr>)
           | (StillWaiting, tb) \<Rightarrow> None))"

text \<open>A nil request is answered before anything is done to it; \<open>DoWithContext\<close> is the rest.\<close>

definition nil_request :: goerror where
  "nil_request = WrapError ErrorTypeValidation ''request is nil'' ErrInvalidRequest"

definition DoWithContext :: "do_env \<Rightarrow> (nat \<Rightarrow> transport) \<Rightarrow> nat \<Rightarrow> Client \<Rightarrow> Request \<Rightarrow> done_result" where
  "DoWithContext env tr cid c req =
     (let req = req\<lparr>ctx := Some cid\<rparr>; cx = de_ctx env cid in
      case ctx_Err cx (de_now env) of
        Some e \<Rightarrow> Some (Done (None, Some (WrapError ErrorTypeTimeout ''request cancelled before send'' e), c, req))
      | None \<Rightarrow>
          (case rate_limit env cx c of
             None \<Rightarrow> None
           | Some (Some e, c) \<Rightarrow> Some (Done (None, Some e, c, req))
           | Some (None, c) \<Rightarrow> do_request env tr cx c req))"

text \<open>The background context has number 0; \<open>de_ctx env 0\<close> is never done.\<close>

definition Client_Do :: "do_env \<Rightarrow> (nat \<Rightarrow> transport) \<Rightarrow> Client \<Rightarrow> Request \<Rightarrow> done_result" where
  "Client_Do env tr c req = DoWithContext env tr 0 c req"

section \<open>The other operations\<close>

definition StartN :: "network \<Rightarrow> int \<Rightarrow> int \<Rightarrow> Client \<Rightarrow> goerror option \<times> Client" where
  "StartN net now n c =
     (let config = cl_config c;
          n = (if n \<le> 0 then 1 else n);
          n = (if n > PoolSize config then PoolSize config else n)
      in case WarmUp net now (cl_heap c) (cl_pool c) (pool_key (UseTLS config) (Host config) (Port config)) (UseTLS config) n of
           (created, heap, p) \<Rightarrow>
             (if created = 0
              then Some (WrapError ErrorTypeNetwork ''warm-up: could not establish any connections'' ErrConnectFailed) else None,
              c\<lparr>cl_heap := heap, cl_pool := p\<rparr>))"

definition Start :: "network \<Rightarrow> int \<Rightarrow> Client \<Rightarrow> goerror option \<times> Client" where
  "Start net now c = StartN net now (quot (PoolSize (cl_config c)) 4) c"

definition Client_Stop :: "Client \<Rightarrow> Client" where
  "Client_Stop c =
     (case Pool_Stop (cl_heap c) (cl_pool c) of (heap, p) \<Rightarrow>
        c\<lparr>cl_scheduler := map_option Scheduler_Stop (cl_scheduler c), cl_heap := heap, cl_pool := p, cl_dialer := Dialer_Stop (cl_dialer c)\<rparr>)"

definition Client_GracefulStop :: "int \<Rightarrow> int \<Rightarrow> (int \<times> heap \<times> Pool) list \<Rightarrow> Client \<Rightarrow> (bool \<times> Client) option" where
  "Client_GracefulStop start timeout polls c =
     map_option (\<lambda>(ok, heap, p). (ok, c\<lparr>cl_heap := heap, cl_pool := p\<rparr>)) (GracefulStop start timeout polls)"

definition BuildPreEncodedHeaderPrefix :: "Client \<Rightarrow> Request option \<Rightarrow> bytes \<Rightarrow> int \<Rightarrow> bool \<Rightarrow> goerror + bytes" where
  "BuildPreEncodedHeaderPrefix c req host port useTLS =
     (case req of
        None \<Rightarrow> Inl ErrInvalidRequest
      | Some req \<Rightarrow>
          (let forwardProxy = IsForwardProxy (cl_dialer c) useTLS;
               proxyAuth = (if forwardProxy then ProxyAuthHeader (cl_dialer c) else [])
           in writeRequestHeaderPrefix (zeros 8192) req (cl_config c) host port useTLS (Compressed req) forwardProxy proxyAuth))"

text \<open>
  A streaming response takes over the lease of the response; its number is returned with it, since Close gives
  back this lease.
\<close>

definition DoStreaming ::
  "do_env \<Rightarrow> (nat \<Rightarrow> transport) \<Rightarrow> nat \<Rightarrow> Client \<Rightarrow> Request \<Rightarrow> ((nat \<times> StreamingResponse) option \<times> goerror option \<times> Client \<times> Request) outcome option" where
  "DoStreaming env tr cid c req =
     (case DoWithContext env tr cid c req of
        None \<Rightarrow> None
      | Some Panic \<Rightarrow> Some Panic
      | Some (Done (resp, Some e, c, req)) \<Rightarrow> Some (Done (None, Some e, c, req))
      | Some (Done (None, None, c, req)) \<Rightarrow> Some Panic
      | Some (Done (Some (k, r), None, c, req)) \<Rightarrow>
          Some (Done (Some (k, \<lparr>sr_StatusCode = StatusCode r, sr_ContentLength = ContentLength r, sr_Headers = Headers r,
            sr_Body = Some (newBodyReader (Body_bytes r)), sr_resp = Some r, sr_releaseFn = True, sr_once = False\<rparr>), None, c, req)))"

text \<open>The methods that take a request from the pool, fill it, perform it and put it back.\<close>

definition pooled_request :: "(Request \<Rightarrow> Request) \<Rightarrow> do_env \<Rightarrow> (nat \<Rightarrow> transport) \<Rightarrow> nat \<Rightarrow> Client \<Rightarrow> (leased option \<times> goerror option \<times> Client) outcome option" where
  "pooled_request fill env tr cid c =
     (case acquireRequest c of (req, c) \<Rightarrow>
        map_option (outcome_map (\<lambda>(resp, err, c, req). (resp, err, releaseRequest (Some req) c))) (DoWithContext env tr cid c (fill req)))"

definition fill_path :: "bytes \<Rightarrow> bytes \<Rightarrow> Header list \<Rightarrow> Request \<Rightarrow> Request" where
  "fill_path meth path headers req = set_headers (req\<lparr>Method := meth, Path := path\<rparr>) headers"

definition fill_url :: "bytes \<Rightarrow> bytes \<Rightarrow> Header list \<Rightarrow> Request \<Rightarrow> Request" where
  "fill_url meth rawURL headers req = set_headers (req\<lparr>Method := meth, URL := rawURL\<rparr>) headers"

definition fill_path_body :: "bytes \<Rightarrow> bytes \<Rightarrow> bytes \<Rightarrow> Header list \<Rightarrow> Request \<Rightarrow> Request" where
  "fill_path_body meth path body headers req = set_headers (req\<lparr>Method := meth, Path := path, req_Body := body\<rparr>) headers"

definition fill_url_body :: "bytes \<Rightarrow> bytes \<Rightarrow> bytes \<Rightarrow> Header list \<Rightarrow> Request \<Rightarrow> Request" where
  "fill_url_body meth rawURL body headers req = set_headers (req\<lparr>Method := meth, URL := rawURL, req_Body := body\<rparr>) headers"

definition Client_Get :: "bytes \<Rightarrow> Header list \<Rightarrow> do_env \<Rightarrow> (nat \<Rightarrow> transport) \<Rightarrow> Client \<Rightarrow> (leased option \<times> goerror option \<times> Client) outcome option" where
  "Client_Get path headers env tr c = pooled_request (fill_path ''GET'' path headers) env tr 0 c"

definition Client_GetURL :: "bytes \<Rightarrow> Header list \<Rightarrow> do_env \<Rightarrow> (nat \<Rightarrow> transport) \<Rightarrow> Client \<Rightarrow> (leased option \<times> goerror option \<times> Client) outcome option" where
  "Client_GetURL rawURL headers env tr c = pooled_request (fill_url ''GET'' rawURL headers) env tr 0 c"

definition Client_Post :: "bytes \<Rightarrow> bytes \<Rightarrow> Header list \<Rightarrow> do_env \<Rightarrow> (nat \<Rightarrow> transport) \<Rightarrow> Client \<Rightarrow> (leased option \<times> goerror option \<times> Client) outcome option" where
  "Client_Post path body headers env tr c = pooled_request (fill_path_body ''POST'' path body headers) env tr 0 c"

definition Client_PostURL :: "bytes \<Rightarrow> bytes \<Rightarrow> Header list \<Rightarrow> do_env \<Rightarrow> (nat \<Rightarrow> transport) \<Rightarrow> Client \<Rightarrow> (leased option \<times> goerror option \<times> Client) outcome option" where
  "Client_PostURL rawURL body headers env tr c = pooled_request (fill_url_body ''POST'' rawURL body headers) env tr 0 c"

definition Client_Put :: "bytes \<Rightarrow> bytes \<Rightarrow> Header list \<Rightarrow> do_env \<Rightarrow> (nat \<Rightarrow> transport) \<Rightarrow> Client \<Rightarrow> (leased option \<times> goerror option \<times> Client) outcome option" where
  "Client_Put path body headers env tr c = pooled_request (fill_path_body ''PUT'' path body headers) env tr 0 c"

definition Client_Patch :: "bytes \<Rightarrow> bytes \<Rightarrow> Header list \<Rightarrow> do_env \<Rightarrow> (nat \<Rightarrow> transport) \<Rightarrow> Client \<Rightarrow> (leased option \<times> goerror option \<times> Client) outcome option" where
  "Client_Patch path body headers env tr c = pooled_request (fill_path_body ''PATCH'' path body headers) env tr 0 c"

definition Client_Delete :: "bytes \<Rightarrow> Header list \<Rightarrow> do_env \<Rightarrow> (nat \<Rightarrow> transport) \<Rightarrow> Client \<Rightarrow> (leased option \<times> goerror option \<times> Client) outcome option" where
  "Client_Delete path headers env tr c = pooled_request (fill_path ''DELETE'' path headers) env tr 0 c"

definition Client_Head :: "bytes \<Rightarrow> Header list \<Rightarrow> do_env \<Rightarrow> (nat \<Rightarrow> transport) \<Rightarrow> Client \<Rightarrow> (leased option \<times> goerror option \<times> Client) outcome option" where
  "Client_Head path headers env tr c = pooled_request (fill_path ''HEAD'' path headers) env tr 0 c"

definition Client_Options :: "bytes \<Rightarrow> Header list \<Rightarrow> do_env \<Rightarrow> (nat \<Rightarrow> transport) \<Rightarrow> Client \<Rightarrow> (leased option \<times> goerror option \<times> Client) outcome option" where
  "Client_Options path headers env tr c = pooled_request (fill_path ''OPTIONS'' path headers) env tr 0 c"

text \<open>\<open>read\<close> is the caller's io.Reader; a negative length makes the allocation panic.\<close>

definition is_url :: "bytes \<Rightarrow> bool" where
  "is_url s \<longleftrightarrow> prefix ''http://'' s \<or> prefix ''https://'' s"

definition DoReader ::
  "'r read_fun \<Rightarrow> 'r \<Rightarrow> bytes \<Rightarrow> bytes \<Rightarrow> int \<Rightarrow> Header list \<Rightarrow> do_env \<Rightarrow> (nat \<Rightarrow> transport) \<Rightarrow> nat \<Rightarrow> Client \<Rightarrow>
   (leased option \<times> goerror option \<times> Client) outcome option" where
  "DoReader read r meth urlOrPath contentLength headers env tr cid c =
     (if contentLength < 0 then Some Panic
      else
        (case ReadFull read r (nat contentLength) of
           None \<Rightarrow> None
         | Some (body, Some e, r) \<Rightarrow> Some (Done (None, Some (WrapError ErrorTypeValidation ''failed to read request body'' e), c))
         | Some (body, None, r) \<Rightarrow>
             pooled_request (if is_url urlOrPath then fill_url_body meth urlOrPath body headers else fill_path_body meth urlOrPath body headers) env tr cid c))"

record ClientStats =
  HealthyConnections :: nat
  cs_Metrics :: "MetricsSnapshot option"

definition Stats :: "Client \<Rightarrow> ClientStats" where
  "Stats c = \<lparr>HealthyConnections = GetHealthyConnections (cl_heap c) (cl_pool c), cs_Metrics = map_option Snapshot (cl_metrics c)\<rparr>"

section \<open>The inspector\<close>

record ConnectionInfo =
  ci_ID :: int
  ci_Host :: bytes
  ci_Port :: int
  ci_Healthy :: bool
  ci_ActiveReqs :: int
  ci_HealthScore :: int
  ci_LatencyEWMA :: int
  ci_PipelineDepth :: int
  ci_BytesRead :: int
  ci_BytesWritten :: int

definition connection_info :: "Connection \<Rightarrow> ConnectionInfo" where
  "connection_info conn = \<lparr>ci_ID = cn_id conn, ci_Host = cn_host conn, ci_Port = cn_port conn, ci_Healthy = IsHealthy conn,
     ci_ActiveReqs = cn_activeReqs conn, ci_HealthScore = HealthScore conn, ci_LatencyEWMA = cn_latencyEWMA conn,
     ci_PipelineDepth = cn_pipelineDepth conn, ci_BytesRead = cn_bytesRead conn, ci_BytesWritten = cn_bytesWritten conn\<rparr>"

definition ConnectionPool :: "Client \<Rightarrow> ConnectionInfo list" where
  "ConnectionPool c = map (\<lambda>(host, k). connection_info (cl_heap c k)) (eachConnection (cl_pool c))"

end
