(* ===== verification/Attempts.thy ===== *)
theory Attempts
  imports Client Sequential Selection
begin

text \<open>
  What DoWithContext of \<^verbatim>\<open>client.go\<close> promises: it makes at most one attempt more than the configured
  retries, it returns a response or an error and never both, and every response object it leases is
  given back exactly once unless it goes to the caller or to the reader of a pipelined connection.
  The contract it needs of the layer below is the locale \<open>transport_contract\<close>, which the pool and its
  connections satisfy.
\<close>

section \<open>The contract of the transport\<close>

locale transport_contract =
  fixes tr :: "nat \<Rightarrow> transport"
  assumes keeps: "tr n key useTLS req c = Some (Done (a, req', c')) \<Longrightarrow> \<exists>heap p s. c' = c\<lparr>cl_heap := heap, cl_pool := p, cl_scheduler := s\<rparr>"
    and answers: "tr n key useTLS req c = Some (Done (Replied resp err, req', c')) \<Longrightarrow> (resp = None) \<noteq> (err = None)"

lemma outcome_map_Done: "outcome_map f x = Done y \<Longrightarrow> (\<And>z. x = Done z \<Longrightarrow> f z = y \<Longrightarrow> P) \<Longrightarrow> P"
  by (cases x) auto

text \<open>A connection answers with a response or with an error.\<close>

lemma pipe_wait_answers: "pipe_wait rdy i c = Some (r, e, c') \<Longrightarrow> (r = None) \<noteq> (e = None)"
  by (auto simp: pipe_wait_def split: ready.splits)

lemma Connection_Do_answers:
  assumes "Connection_Do env c req = Some (Done (r, e, c', req'))"
  shows "(r = None) \<noteq> (e = None)"
proof (cases "EnablePipelining (cn_config c)")
  case True
  then show ?thesis
    using assms pipe_wait_answers by (auto simp: Connection_Do_def split: option.splits prod.splits)
next
  case False
  then obtain x where "(case x of (r, c, req) \<Rightarrow> case r of Inl e \<Rightarrow> (None, Some e, c, req) | Inr resp \<Rightarrow> (Some resp, None, c, req)) = (r, e, c', req')"
    using assms by (auto simp: Connection_Do_def elim!: outcome_map_Done)
  then show ?thesis by (auto split: prod.splits sum.splits)
qed

interpretation pooled: transport_contract "\<lambda>n. pool_transport (env n)" for env
proof
  fix n key useTLS req c a req' c'
  assume "pool_transport (env n) key useTLS req c = Some (Done (a, req', c'))"
  then obtain heap p where "c' = c\<lparr>cl_heap := heap, cl_pool := p\<rparr>"
    by (auto simp: pool_transport_def split: option.splits prod.splits elim!: outcome_map_Done)
  then have "c' = c\<lparr>cl_heap := heap, cl_pool := p, cl_scheduler := cl_scheduler c\<rparr>" by simp
  then show "\<exists>heap p s. c' = c\<lparr>cl_heap := heap, cl_pool := p, cl_scheduler := s\<rparr>" by blast
next
  fix n key useTLS req c resp err req' c'
  assume "pool_transport (env n) key useTLS req c = Some (Done (Replied resp err, req', c'))"
  then show "(resp = None) \<noteq> (err = None)"
    by (auto simp: pool_transport_def split: option.splits prod.splits elim!: outcome_map_Done dest: Connection_Do_answers)
qed

section \<open>Accounting for one attempt\<close>

lemma releaseResponse_books [simp]:
  "cl_acquired (releaseResponse (Some (k, r)) c) = cl_acquired c" "cl_released (releaseResponse (Some (k, r)) c) = cl_released c @ [k]"
  "cl_retryer (releaseResponse lr c) = cl_retryer c" "cl_metrics (releaseResponse lr c) = cl_metrics c"
  by (simp_all add: releaseResponse_def Let_def split: option.split)

lemma acquireResponse_books:
  "acquireResponse c = (lr, c') \<Longrightarrow> fst lr = cl_acquired c \<and> cl_acquired c' = Suc (cl_acquired c) \<and> cl_released c' = cl_released c \<and>
     cl_retryer c' = cl_retryer c"
  by (auto simp: acquireResponse_def Let_def split: list.splits)

lemma record_response_books [simp]:
  "cl_acquired (record_response t s e st w r c) = cl_acquired c" "cl_released (record_response t s e st w r c) = cl_released c"
  "cl_retryer (record_response t s e st w r c) = cl_retryer c"
  by (simp_all add: record_response_def)

lemma retries_within: "retries c attempt resp err \<Longrightarrow> \<exists>r. cl_retryer c = Some r \<and> attempt < maxRetries r"
  by (auto simp: retries_def ShouldRetry_def split: option.splits if_splits)

text \<open>
  How the books stand after an attempt with lease \<open>k\<close>: on a return the lease is the caller's, is the reader
  goroutine's, or has been given back with an error; on a continue it has been given back.
\<close>

fun settled :: "ctx \<Rightarrow> nat \<Rightarrow> int \<Rightarrow> Client \<Rightarrow> verdict \<Rightarrow> Client \<Rightarrow> bool" where
  "settled cx k attempt c (Finished (Some (i, r)) err) c' \<longleftrightarrow> i = k \<and> err = None \<and> cl_released c' = cl_released c"
| "settled cx k attempt c (Finished None err) c' \<longleftrightarrow> err \<noteq> None \<and>
     (cl_released c' = cl_released c @ [k] \<or> cl_released c' = cl_released c \<and> (\<exists>t. err = Some (cancelled_error cx t)))"
| "settled cx k attempt c (Again status hdr err newErr) c' \<longleftrightarrow> cl_released c' = cl_released c @ [k] \<and>
     (\<exists>r. cl_retryer c = Some r \<and> attempt < maxRetries r)"

lemma settle_failed_books:
  "settle_failed t attempt start (k, r) err c = (v, c') \<Longrightarrow>
     settled cx k attempt c v c' \<and> cl_acquired c' = cl_acquired c \<and> cl_retryer c' = cl_retryer c"
  by (auto simp: settle_failed_def Let_def split: if_splits dest: retries_within)

lemma settle_done_books:
  "settle_done t attempt start w k (Some r) c = Done (v, c') \<Longrightarrow>
     settled cx k attempt c v c' \<and> cl_acquired c' = cl_acquired c \<and> cl_retryer c' = cl_retryer c"
  by (auto simp: settle_done_def Let_def split: if_splits dest: retries_within)

lemma settle_books:
  assumes "settle cx t attempt start lr a req c = Done (v, c')" "\<And>resp err. a = Replied resp err \<Longrightarrow> (resp = None) \<noteq> (err = None)"
  shows "settled cx (fst lr) attempt c v c' \<and> cl_acquired c' = cl_acquired c \<and> cl_retryer c' = cl_retryer c"
proof (cases a)
  case NoConnection
  then show ?thesis using assms(1) settle_failed_books [of t attempt start "fst lr"] by (simp add: settle_def Let_def)
next
  case (Replied resp err)
  show ?thesis
  proof (cases err)
    case None
    then obtain r where "resp = Some r" using assms(2) [OF Replied] by auto
    then show ?thesis using assms(1) Replied None settle_done_books [of t attempt start _ "fst lr" r c v c' cx] by (simp add: settle_def Let_def)
  next
    case (Some e)
    then have r: "resp = None" using assms(2) [OF Replied] by simp
    show ?thesis
    proof (cases "e = errRespTransferred")
      case True
      then show ?thesis using assms(1) Replied Some r by (auto simp: settle_def Let_def)
    next
      case False
      then show ?thesis using assms(1) Replied Some r settle_failed_books [of t attempt start "fst lr"] by (simp add: settle_def Let_def)
    qed
  qed
qed

context transport_contract
begin

lemma try_once_books:
  assumes "try_once (tr n) cx t attempt key useTLS c req = Some (Done (v, c', req'))"
  shows "settled cx (cl_acquired c) attempt c v c' \<and> cl_acquired c' = Suc (cl_acquired c) \<and> cl_retryer c' = cl_retryer c"
proof -
  obtain lr c1 where a: "acquireResponse c = (lr, c1)" by (rule prod.exhaust)
  note b = acquireResponse_books [OF a]
  let ?req = "req\<lparr>req_resp := Some (snd lr)\<rparr>"
  obtain att req2 c2 where x: "tr n key useTLS ?req c1 = Some (Done (att, req2, c2))"
    using assms a by (auto simp: try_once_def Let_def split: option.splits outcome.splits)
  obtain heap p s where c2: "c2 = c1\<lparr>cl_heap := heap, cl_pool := p, cl_scheduler := s\<rparr>" using keeps [OF x] by blast
  obtain start where s: "settle cx t attempt start lr att req2 c2 = Done (v, c')"
    using assms a x by (auto simp: try_once_def Let_def elim!: outcome_map_Done)
  have "settled cx (fst lr) attempt c2 v c' \<and> cl_acquired c' = cl_acquired c2 \<and> cl_retryer c' = cl_retryer c2"
  proof (rule settle_books [OF s])
    show "(resp = None) \<noteq> (err = None)" if "att = Replied resp err" for resp err using answers x that by simp
  qed
  moreover have "settled cx k attempt c2 v c' = settled cx k attempt c v c'" for k
    using b c2 by (cases "(cx, k, attempt, c, v, c')" rule: settled.cases) auto
  ultimately show ?thesis using b c2 by simp
qed

end

section \<open>Accounting for a call\<close>

text \<open>
  A call that may make \<open>left\<close> attempts has leased \<open>n\<close> responses, one for each attempt it made. All are given
  back, in order and once each, but for the last one when it is returned to the caller or belongs to
  the reader goroutine of a pipelined connection.
\<close>

definition accounted :: "ctx \<Rightarrow> nat \<Rightarrow> Client \<Rightarrow> leased option \<Rightarrow> goerror option \<Rightarrow> Client \<Rightarrow> bool" where
  "accounted cx left c res err c' \<longleftrightarrow>
     (\<exists>n \<le> left. cl_acquired c' = cl_acquired c + n \<and>
       (case res of
          Some (k, r) \<Rightarrow> err = None \<and> cl_acquired c' = Suc k \<and> cl_acquired c \<le> k \<and> cl_released c' = cl_released c @ [cl_acquired c ..< k]
        | None \<Rightarrow> err \<noteq> None \<and>
            (cl_released c' = cl_released c @ [cl_acquired c ..< cl_acquired c'] \<or>
             0 < n \<and> cl_released c' = cl_released c @ [cl_acquired c ..< cl_acquired c' - 1] \<and> (\<exists>t. err = Some (cancelled_error cx t)))))"

lemma accounted_nothing: "err \<noteq> None \<Longrightarrow> cl_acquired c' = cl_acquired c \<Longrightarrow> cl_released c' = cl_released c \<Longrightarrow> accounted cx left c None err c'"
  by (auto simp: accounted_def)

lemma accounted_finished:
  assumes "settled cx (cl_acquired c) attempt c (Finished res err) c'" "cl_acquired c' = Suc (cl_acquired c)"
  shows "accounted cx (Suc left) c res err c'"
proof (cases res)
  case None
  then show ?thesis using assms unfolding accounted_def by (intro exI [of _ 1]) auto
next
  case (Some lr)
  then show ?thesis using assms unfolding accounted_def by (cases lr) (intro exI [of _ 1], auto)
qed

lemma accounted_again:
  assumes "accounted cx left c1 res err c'" "cl_acquired c1 = Suc (cl_acquired c)" "cl_released c1 = cl_released c @ [cl_acquired c]"
  shows "accounted cx (Suc left) c res err c'"
proof -
  obtain n where n: "n \<le> left" "cl_acquired c' = cl_acquired c1 + n" using assms(1) by (auto simp: accounted_def)
  have join: "[cl_acquired c] @ [Suc (cl_acquired c) ..< m] = [cl_acquired c ..< m]" if "cl_acquired c < m" for m
    using that by (simp add: upt_conv_Cons)
  show ?thesis
  proof (cases res)
    case None
    then show ?thesis
      using assms n join [of "cl_acquired c'"] join [of "cl_acquired c' - 1"] unfolding accounted_def
      by (intro exI [of _ "Suc n"]) (auto simp: add.commute)
  next
    case (Some lr)
    then show ?thesis
      using assms n join [of "fst lr"] unfolding accounted_def by (cases lr) (intro exI [of _ "Suc n"], auto)
  qed
qed

lemma before_retry_books:
  "before_retry parse cx t attempt prev c req = (e, c', req') \<Longrightarrow> cl_acquired c' = cl_acquired c \<and> cl_released c' = cl_released c"
  by (auto simp: before_retry_def Let_def split: prod.splits option.splits)

lemma accounted_start:
  "accounted cx left c1 res err c' \<Longrightarrow> cl_acquired c1 = cl_acquired c \<Longrightarrow> cl_released c1 = cl_released c \<Longrightarrow> accounted cx left c res err c'"
  unfolding accounted_def by (simp only:)

context transport_contract
begin

lemma do_attempts_accounted:
  "do_attempts parse tr tk cx key useTLS left attempt prev lastErr c req = Some (Done (res, err, c', req')) \<Longrightarrow> accounted cx left c res err c'"
proof (induction left arbitrary: attempt prev lastErr c req)
  case 0
  then show ?case by (auto intro: accounted_nothing)
next
  case (Suc left)
  obtain e c1 req1 where b: "(if attempt > 0 then before_retry parse cx (tk attempt) (int attempt) prev c req else (None, c, req)) = (e, c1, req1)"
    by (rule prod_cases3)
  have same: "cl_acquired c1 = cl_acquired c" "cl_released c1 = cl_released c"
    using b by (auto dest: before_retry_books split: if_splits)
  have "accounted cx (Suc left) c1 res err c'"
  proof (cases e)
    case (Some x)
    then show ?thesis using Suc.prems b by (auto intro: accounted_nothing)
  next
    case None
    obtain v c2 req2 where x: "try_once (tr attempt) cx (tk attempt) (int attempt) key useTLS c1 req1 = Some (Done (v, c2, req2))"
      using Suc.prems b None by (auto split: option.splits outcome.splits)
    note books = try_once_books [OF x]
    show ?thesis
    proof (cases v)
      case (Finished r e2)
      then show ?thesis using Suc.prems b None x books by (auto intro!: accounted_finished)
    next
      case (Again status hdr e2 ne)
      have "accounted cx left c2 res err c'"
        using Suc.prems b None x Again by (intro Suc.IH) simp
      then show ?thesis using books Again by (intro accounted_again) auto
    qed
  qed
  then show ?case using same by (rule accounted_start)
qed

lemma DoWithContext_accounted:
  assumes "DoWithContext env tr cid c req = Some (Done (res, err, c', req'))"
  shows "accounted (de_ctx env cid) (number_of_attempts c) c res err c'"
proof -
  let ?cx = "de_ctx env cid" let ?req = "req\<lparr>ctx := Some cid\<rparr>"
  show ?thesis
  proof (cases "ctx_Err ?cx (de_now env)")
    case (Some e)
    then show ?thesis using assms by (auto simp: DoWithContext_def Let_def intro: accounted_nothing)
  next
    case None
    obtain e c1 where l: "rate_limit env ?cx c = Some (e, c1)"
      using assms None by (auto simp: DoWithContext_def Let_def split: option.splits)
    have same: "cl_acquired c1 = cl_acquired c" "cl_released c1 = cl_released c" "number_of_attempts c1 = number_of_attempts c"
      using l by (auto simp: rate_limit_def number_of_attempts_def split: option.splits prod.splits wait_result.splits)
    show ?thesis
    proof (cases e)
      case (Some x)
      then show ?thesis using assms None l same by (auto simp: DoWithContext_def Let_def intro: accounted_nothing)
    next
      case ok: None
      obtain o' req1 where r: "request_origin (de_parse env) (cl_config c1) ?req = (o', req1)" by (rule prod.exhaust)
      have d: "do_request env tr ?cx c1 ?req = Some (Done (res, err, c', req'))"
        using assms None l ok by (simp add: DoWithContext_def Let_def)
      have "accounted ?cx (number_of_attempts c) c1 res err c'"
      proof (cases o')
        case None
        then show ?thesis using d r by (auto simp: do_request_def intro: accounted_nothing)
      next
        case (Some x)
        then show ?thesis using d r same(3) do_attempts_accounted by (cases x) (auto simp: do_request_def)
      qed
      then show ?thesis using same(1,2) by (rule accounted_start)
    qed
  qed
qed

end

section \<open>From the call to the wire\<close>

text \<open>
  A connection on which a server answers a request: the connection is ready, the request can be encoded to
  \<open>sent\<close> and the reply \<open>head\<close> with body \<open>wb\<close>, of contents \<open>out\<close>, is what the connection will read.
\<close>

definition answerable :: "seq_env \<Rightarrow> Connection \<Rightarrow> netconn \<Rightarrow> Request \<Rightarrow> bytes \<Rightarrow> bytes \<Rightarrow> wire_body \<Rightarrow> bytes \<Rightarrow> bool" where
  "answerable env c conn req sent head wb out \<longleftrightarrow>
     (\<exists>body z req1 resp s. ready env c conn req \<and> prepareBody (se_gzip env) c req = (Inr (body, z), req1) \<and> req_resp req1 = Some resp \<and>
       (\<not> ExpectContinue req1 \<or> body = []) \<and> encodable c req1 body z \<and> sent = request_bytes c req1 body z \<and>
       wire_ok (Method req1) head wb \<and> conn_pending conn = head @ render_body wb @ s \<and>
       conn_safe conn (length head + length (render_body wb)) \<and> length head \<le> nat (cn_readBufSize c) \<and> 0 < cn_headerReadSize c \<and>
       int (length (body_data wb)) \<le> cn_maxRespSize c \<and> room (Response_Reset resp) wb \<and>
       content (se_gunzip env) (head_fields head) (body_data wb) = Some out)"

lemma answerable_exchange:
  assumes "answerable env c conn req sent head wb out"
  shows "\<exists>resp' c' req' conn'. doSequential env c req = Some (Done (Inr resp', c', req')) \<and>
    carries resp' (fst (parseStatusCode head)) (head_fields head) out \<and> cn_conn c' = Some conn' \<and> nc_out conn' = nc_out conn @ sent"
  using assms unfolding answerable_def by (elim exE conjE) (use sequential_exchange in blast)

text \<open>The request as an attempt hands it to a connection.\<close>

definition outgoing :: "nat \<Rightarrow> Response \<Rightarrow> Request \<Rightarrow> Request" where
  "outgoing cid resp req = req\<lparr>ctx := Some cid, req_resp := Some resp, req_releaseFn := True\<rparr>"

lemma pool_transport_exchange:
  assumes "GetConnection (ae_net env) (ae_now env) (ae_dialTime env) (cl_heap c) (cl_pool c) key useTLS = Some (Some k, heap, p)"
    "conn_usable (heap k)" "\<not> EnablePipelining (cn_config (heap k))"
    "answerable (ae_seq env) (heap k) conn (req\<lparr>req_releaseFn := True\<rparr>) sent head wb out"
  shows "\<exists>resp' c' req' conn'. pool_transport env key useTLS req c = Some (Done (Replied (Some resp') None, req', c')) \<and>
    carries resp' (fst (parseStatusCode head)) (head_fields head) out \<and>
    cn_conn (cl_heap c' k) = Some conn' \<and> nc_out conn' = nc_out conn @ sent \<and>
    cl_retryer c' = cl_retryer c"
proof -
  obtain resp' c' req' conn' where x: "doSequential (ae_seq env) (heap k) (req\<lparr>req_releaseFn := True\<rparr>) = Some (Done (Inr resp', c', req'))"
    "carries resp' (fst (parseStatusCode head)) (head_fields head) out" "cn_conn c' = Some conn'" "nc_out conn' = nc_out conn @ sent"
    using answerable_exchange [OF assms(4)] by blast
  have "Connection_Do env (heap k) (req\<lparr>req_releaseFn := True\<rparr>) = Some (Done (Some resp', None, c', req'))"
    using assms(2,3) x(1) by (simp add: Connection_Do_def Do_sequential_def ensureConnection_def)
  then show ?thesis using assms(1) x by (simp add: pool_transport_def)
qed

lemma client_exchange:
  assumes "ctx_Err (de_ctx env cid) (de_now env) = None" "cl_limiter c = None" "cl_retryer c = None" "URL req = []"
    "acquireResponse c = ((l, resp), c1)" "tls = UseTLS (cl_config c)"
    "GetConnection (ae_net (ae 0)) (ae_now (ae 0)) (ae_dialTime (ae 0)) (cl_heap c1) (cl_pool c1)
       (pool_key tls (Host (cl_config c)) (Port (cl_config c))) tls = Some (Some k, heap, p)"
    "conn_usable (heap k)" "\<not> EnablePipelining (cn_config (heap k))"
    "answerable (ae_seq (ae 0)) (heap k) conn (outgoing cid resp req) sent head wb out"
  shows "\<exists>resp' c' req' conn'. DoWithContext env (\<lambda>n. pool_transport (ae n)) cid c req = Some (Done (Some (l, resp'), None, c', req')) \<and>
    carries resp' (fst (parseStatusCode head)) (head_fields head) out \<and>
    cn_conn (cl_heap c' k) = Some conn' \<and> nc_out conn' = nc_out conn @ sent"
proof -
  let ?key = "pool_key tls (Host (cl_config c)) (Port (cl_config c))" and ?req = "req\<lparr>ctx := Some cid\<rparr>"
  let ?cx = "de_ctx env cid" let ?t = "de_tick env 0"
  have o: "outgoing cid resp req = (?req\<lparr>req_resp := Some resp\<rparr>)\<lparr>req_releaseFn := True\<rparr>" by (simp add: outgoing_def)
  obtain resp' c' req' conn' where x:
    "pool_transport (ae 0) ?key tls (?req\<lparr>req_resp := Some resp\<rparr>) c1 = Some (Done (Replied (Some resp') None, req', c'))"
    "carries resp' (fst (parseStatusCode head)) (head_fields head) out" "cn_conn (cl_heap c' k) = Some conn'" "nc_out conn' = nc_out conn @ sent"
    "cl_retryer c' = cl_retryer c1"
    using pool_transport_exchange [OF assms(7-9) assms(10) [unfolded o]] by blast
  have none: "cl_retryer c' = None" using acquireResponse_books [OF assms(5)] assms(3) x(5) by simp
  let ?start = "if cl_metrics c = None then None else RecordRequest (tk_start ?t)"
  obtain c2 where s: "settle ?cx ?t 0 ?start (l, resp) (Replied (Some resp') None) req' c' = Done (Finished (Some (l, resp')) None, c2)"
    "cl_heap c2 = cl_heap c'"
    using none by (auto simp: settle_def settle_done_def retries_def Let_def record_response_def)
  have "try_once (pool_transport (ae 0)) ?cx ?t 0 ?key tls c ?req = Some (Done (Finished (Some (l, resp')) None, c2, req'))"
    using assms(5) x(1) s(1) by (simp add: try_once_def Let_def)
  then have "DoWithContext env (\<lambda>n. pool_transport (ae n)) cid c req = Some (Done (Some (l, resp'), None, c2, req'))"
    using assms(1-4,6)
    by (simp add: DoWithContext_def rate_limit_def do_request_def request_origin_def number_of_attempts_def Let_def)
  then show ?thesis using x s(2) by auto
qed

section \<open>A call that succeeds\<close>

definition demo_config :: Config where
  "demo_config = DefaultConfig\<lparr>EnablePipelining := False\<rparr>"

definition demo_client :: Client where
  "demo_client = \<lparr>cl_config = demo_config,
     cl_pool = (NewPool demo_config None None None)\<lparr>pl_hostPools := [(pool_key True ''localhost'' 443, demo_pool [3])]\<rparr>,
     cl_heap = (\<lambda>i. demo_connection demo_wire), cl_dialer = \<lparr>dl_config = demo_config, dl_proxy = None, dl_socks5 = None, dl_dns = None\<rparr>,
     cl_tlsConfig = None, cl_compressor = None, cl_metrics = None, cl_retryer = None, cl_requestPool = [], cl_responsePool = [demo_response],
     cl_scheduler = None, cl_limiter = None, cl_acquired = 0, cl_released = []\<rparr>"

definition demo_attempt :: "nat \<Rightarrow> attempt_env" where
  "demo_attempt n = \<lparr>ae_net = (\<lambda>i. se_net demo_env), ae_now = (\<lambda>i. 0), ae_dialTime = (\<lambda>i. 0), ae_seq = demo_env, ae_slot = 0,
     ae_others = (\<lambda>c. c), ae_ready = ResponseReady\<rparr>"

definition demo_do :: do_env where
  "demo_do = \<lparr>de_parse = (\<lambda>s. None), de_ctx = (\<lambda>i. None), de_now = 0, de_waits = [],
     de_tick = (\<lambda>i. \<lparr>tk_now = 0, tk_rnd = 0, tk_tie = False, tk_start = 0, tk_end = 0\<rparr>)\<rparr>"

definition demo_claimed :: Connection where
  "demo_claimed = (demo_connection demo_wire)\<lparr>cn_activeReqs := 1, cn_poolClaimed := True\<rparr>"

lemma demo_get:
  "\<exists>heap p. GetConnection (ae_net (demo_attempt 0)) (ae_now (demo_attempt 0)) (ae_dialTime (demo_attempt 0)) (cl_heap demo_client)
     (cl_pool demo_client) (pool_key True ''localhost'' 443) True = Some (Some 3, heap, p) \<and> heap 3 = demo_claimed"
proof -
  have can: "acceptable (cl_heap demo_client) 3" "\<not> EnablePipelining (cn_config (cl_heap demo_client 3))"
    by (simp_all add: acceptable_def CanAcceptRequest_def IsHealthy_def demo_client_def demo_connection_def NewConnection_def Let_def)
  obtain res heap' hp' where r: "getIdleConnection (cl_heap demo_client) (demo_pool [3]) = Some (res, heap', hp')"
    "idle_answer (cl_heap demo_client) [3] res heap'"
    by (rule find_idle [of "demo_pool [3]" "[3]" "cl_heap demo_client"]) (simp_all add: demo_pool_def)
  then have "res = Some 3" using can by (cases res) (auto simp: idle_answer_def)
  moreover have "heap' 3 = demo_claimed"
    using r(2) can calculation by (simp add: idle_answer_def claimed_def demo_claimed_def) (simp add: demo_client_def)
  moreover have "pool_key True ''localhost'' 443 \<noteq> []" by (simp add: pool_key_def)
  moreover have "map_of (pl_hostPools (cl_pool demo_client)) (pool_key True ''localhost'' 443) = Some (demo_pool [3])"
    by (simp add: demo_client_def)
  ultimately show ?thesis
    using r(1) by (simp add: GetConnection_def getHostPool_def maxAttempts_def numeral_eq_Suc)
qed

lemma demo_claimed_fields:
  "cn_conn demo_claimed = Some demo_wire" "cn_config demo_claimed = demo_config" "cn_reqsOnConn demo_claimed = 0"
  "cn_readBufSize demo_claimed = 65536" "cn_headerReadSize demo_claimed = 4096" "cn_maxRespSize demo_claimed = 10485760"
  "cn_compressor demo_claimed = None" "cn_isForwardProxy demo_claimed = False" "cn_proxyAuthHeader demo_claimed = []"
  "cn_host demo_claimed = ''h''" "cn_port demo_claimed = 443" "cn_maxReqSize demo_claimed = 10485760" "conn_usable demo_claimed"
  by (simp_all add: demo_claimed_def demo_connection_def NewConnection_def Let_def demo_config_def DefaultConfig_def default_int_def
      conn_usable_def i64_id)

lemma demo_answerable:
  "answerable demo_env demo_claimed demo_wire (outgoing 0 resp requestPool_New)
    (request_bytes demo_claimed (outgoing 0 resp requestPool_New) [] False) demo_head (Sized ''hello'') ''hello''"
proof -
  let ?req = "outgoing 0 resp requestPool_New"
  have req: "Method ?req = []" "req_resp ?req = Some resp" "req_Body ?req = []" "\<not> Compressed ?req" "\<not> ExpectContinue ?req"
    "headerLen ?req = 0" "PreEncodedHeaderPrefix ?req = []" "parsedPath ?req = []" "Path ?req = []" "ctx ?req = Some 0"
    by (simp_all add: outgoing_def requestPool_New_def new_Request_def)
  have wire: "\<not> nc_closed demo_wire" "nc_wr demo_wire = []" by (simp_all add: demo_wire_def demo_conn_def)
  have "ready demo_env demo_claimed demo_wire ?req"
    using wire by (simp add: ready_def request_done_def req demo_env_def rotates_def demo_claimed_fields demo_config_def DefaultConfig_def)
  moreover have "prepareBody (se_gzip demo_env) demo_claimed ?req = (Inr ([], False), ?req)"
    by (simp add: prepareBody_def req demo_claimed_fields)
  moreover have "encodable demo_claimed ?req [] False"
    by (simp add: encodable_def demo_claimed_fields req header_wf_def render_start_def render_port_def effectivePath_def demo_config_def
        DefaultConfig_def render_length_def itoa_one)
  moreover have "wire_ok [] demo_head (Sized ''hello'')" by code_simp
  moreover have "conn_pending demo_wire = demo_head @ render_body (Sized ''hello'') @ []" by code_simp
  moreover have "conn_safe demo_wire (length demo_head + length (render_body (Sized ''hello'')))" by code_simp
  moreover have "length demo_head = 38" by code_simp
  moreover have "body_data (Sized ''hello'') = ''hello''" "room (Response_Reset resp) (Sized ''hello'')"
    by (simp_all add: room_def within_limit_def Response_Reset_def)
  moreover have "content (\<lambda>b. GzReadErr EOF) (head_fields demo_head) (body_data (Sized ''hello'')) = Some ''hello''" by code_simp
  then have "content (se_gunzip demo_env) (head_fields demo_head) (body_data (Sized ''hello'')) = Some ''hello''" by (simp add: demo_env_def)
  ultimately show ?thesis
    unfolding answerable_def
    by (intro exI [of _ "[]"] exI [of _ False] exI [of _ ?req] exI [of _ resp]) (simp add: req demo_claimed_fields)
qed

lemma demo_lease: "\<exists>resp c1. acquireResponse demo_client = ((0, resp), c1) \<and> cl_heap c1 = cl_heap demo_client \<and> cl_pool c1 = cl_pool demo_client"
  by (simp add: acquireResponse_def demo_client_def Let_def)

lemma demo_setup:
  obtains resp c1 heap p where "acquireResponse demo_client = ((0, resp), c1)"
    "GetConnection (ae_net (demo_attempt 0)) (ae_now (demo_attempt 0)) (ae_dialTime (demo_attempt 0)) (cl_heap c1) (cl_pool c1)
       (pool_key True (Host (cl_config demo_client)) (Port (cl_config demo_client))) True = Some (Some 3, heap, p)"
    "conn_usable (heap 3)" "\<not> EnablePipelining (cn_config (heap 3))"
    "answerable (ae_seq (demo_attempt 0)) (heap 3) demo_wire (outgoing 0 resp requestPool_New)
       (request_bytes demo_claimed (outgoing 0 resp requestPool_New) [] False) demo_head (Sized ''hello'') ''hello''"
proof -
  obtain resp c1 where l: "acquireResponse demo_client = ((0, resp), c1)" "cl_heap c1 = cl_heap demo_client" "cl_pool c1 = cl_pool demo_client"
    using demo_lease by blast
  obtain heap p where g: "GetConnection (ae_net (demo_attempt 0)) (ae_now (demo_attempt 0)) (ae_dialTime (demo_attempt 0)) (cl_heap c1)
      (cl_pool c1) (pool_key True ''localhost'' 443) True = Some (Some 3, heap, p)" "heap 3 = demo_claimed"
    using demo_get l(2,3) by auto
  have "Host (cl_config demo_client) = ''localhost''" "Port (cl_config demo_client) = 443"
    by (simp_all add: demo_client_def demo_config_def DefaultConfig_def)
  then show ?thesis
    using that [OF l(1), of heap p] g demo_answerable [of resp] demo_claimed_fields by (simp add: demo_attempt_def demo_config_def)
qed

lemma demo_client_plain:
  "ctx_Err (de_ctx demo_do 0) (de_now demo_do) = None" "cl_limiter demo_client = None" "cl_retryer demo_client = None" "URL requestPool_New = []"
  "True = UseTLS (cl_config demo_client)"
  by (simp_all add: demo_do_def ctx_Err_def demo_client_def requestPool_New_def new_Request_def demo_config_def DefaultConfig_def)

lemma demo_call:
  "\<exists>resp c' req'. DoWithContext demo_do (\<lambda>n. pool_transport (demo_attempt n)) 0 demo_client requestPool_New =
     Some (Done (Some (0, resp), None, c', req'))"
proof -
  obtain resp c1 heap p where "acquireResponse demo_client = ((0, resp), c1)"
    and rest: "GetConnection (ae_net (demo_attempt 0)) (ae_now (demo_attempt 0)) (ae_dialTime (demo_attempt 0)) (cl_heap c1) (cl_pool c1)
       (pool_key True (Host (cl_config demo_client)) (Port (cl_config demo_client))) True = Some (Some 3, heap, p)"
    "conn_usable (heap 3)" "\<not> EnablePipelining (cn_config (heap 3))"
    "answerable (ae_seq (demo_attempt 0)) (heap 3) demo_wire (outgoing 0 resp requestPool_New)
       (request_bytes demo_claimed (outgoing 0 resp requestPool_New) [] False) demo_head (Sized ''hello'') ''hello''"
    by (rule demo_setup)
  then show ?thesis using client_exchange [where ae = demo_attempt and heap = heap and k = 3, OF demo_client_plain(1-4) _ demo_client_plain(5) rest] by blast
qed

section \<open>The properties of a call\<close>



text \<open>
  C8. A call has the result of a sum type: whatever the retries, the pool and the connections do, when
  DoWithContext returns it returns either a response or an error, never both and never neither.
\<close>

theorem DoWithContext_result_type:
  assumes "DoWithContext env (\<lambda>n. pool_transport (ae n)) cid c req = Some (Done (res, err, c', req'))"
  shows "(res = None) \<noteq> (err = None)"
  using pooled.DoWithContext_accounted [OF assms] by (cases res) (auto simp: accounted_def)

theorem DoWithContext_result_type_witness:
  "\<exists>res err c' req'. DoWithContext demo_do (\<lambda>n. pool_transport (demo_attempt n)) 0 demo_client requestPool_New = Some (Done (res, err, c', req')) \<and>
     ((res = None) \<noteq> (err = None))"
  using demo_call DoWithContext_result_type by blast

text \<open>
  C7. No response object is lost and none is given back twice: a call makes at most one attempt more than the
  configured retries, leases one response for each attempt and gives every one of them back exactly
  once, in order, except the last if that is the one it returns, or if the caller's context ended the
  call while the reader goroutine of a pipelined connection still fills it.
\<close>

theorem DoWithContext_accounts_responses:
  assumes "DoWithContext env (\<lambda>n. pool_transport (ae n)) cid c req = Some (Done (res, err, c', req'))"
  shows "cl_acquired c' \<le> cl_acquired c + number_of_attempts c \<and>
    (case res of
       Some (k, r) \<Rightarrow> cl_acquired c' = Suc k \<and> cl_released c' = cl_released c @ [cl_acquired c ..< k]
     | None \<Rightarrow> cl_released c' = cl_released c @ [cl_acquired c ..< cl_acquired c'] \<or>
         cl_released c' = cl_released c @ [cl_acquired c ..< cl_acquired c' - 1] \<and> (\<exists>t. err = Some (cancelled_error (de_ctx env cid) t)))"
  using pooled.DoWithContext_accounted [OF assms] by (cases res) (auto simp: accounted_def)

theorem DoWithContext_accounts_responses_witness:
  "\<exists>resp c' req'. DoWithContext demo_do (\<lambda>n. pool_transport (demo_attempt n)) 0 demo_client requestPool_New =
     Some (Done (Some (0, resp), None, c', req')) \<and> cl_acquired c' = 1 \<and> cl_released c' = []"
proof -
  obtain resp c' req' where d: "DoWithContext demo_do (\<lambda>n. pool_transport (demo_attempt n)) 0 demo_client requestPool_New =
      Some (Done (Some (0, resp), None, c', req'))" using demo_call by blast
  from DoWithContext_accounts_responses [OF d] have "cl_acquired c' = 1 \<and> cl_released c' = []" by (simp add: demo_client_def)
  with d show ?thesis by blast
qed

section \<open>A response given back while it is in use\<close>

lemma cancelled_run:
  assumes "0 < sc_workers (NewScheduler config workers queueCap)" "0 < sc_queueCap (NewScheduler config workers queueCap)"
  shows "\<exists>s hs. sched_step\<^sup>*\<^sup>* (sched_start config workers queueCap) s \<and> ss_callers s 0 = Some (GaveUp (wait_cancelled Canceled)) \<and>
    ss_works s 0 = Some (new_work cx req key useTLS) \<and> sc_hosts (ss_sched s) key = Some hs \<and> holds hs 0 0"
proof -
  obtain s hs where s: "sched_step\<^sup>*\<^sup>* (sched_start config workers queueCap) s" "ss_callers s 0 = Some AwaitingResult" "ss_done s = Map.empty"
    "ss_works s 0 = Some (new_work cx req key useTLS)" "sc_hosts (ss_sched s) key = Some hs" "holds hs 0 0"
    using held_run [OF assms] by blast
  let ?s1 = "s\<lparr>ss_done := (ss_done s)(cx \<mapsto> Canceled)\<rparr>"
  have 1: "sched_step s ?s1" using s(3) by (intro sched_step.cancel) simp
  have 2: "sched_step ?s1 (set_caller 0 (GaveUp (wait_cancelled Canceled)) ?s1)"
    using sched_step.wait_cancel [of ?s1 0 "new_work cx req key useTLS" Canceled] s(2,4) by (simp add: new_work_def)
  have "sched_step\<^sup>*\<^sup>* (sched_start config workers queueCap) (set_caller 0 (GaveUp (wait_cancelled Canceled)) ?s1)"
    using s(1) 1 2 by (meson rtranclp.rtrancl_into_rtrancl)
  moreover have "ss_callers (set_caller 0 (GaveUp (wait_cancelled Canceled)) ?s1) 0 = Some (GaveUp (wait_cancelled Canceled))"
    "ss_works (set_caller 0 (GaveUp (wait_cancelled Canceled)) ?s1) 0 = Some (new_work cx req key useTLS)"
    "sc_hosts (ss_sched (set_caller 0 (GaveUp (wait_cancelled Canceled)) ?s1)) key = Some hs"
    using s by (simp_all add: set_caller_def)
  ultimately show ?thesis using s(6) by blast
qed

lemma try_once_gave_up:
  assumes "acquireResponse c = ((k, resp), c1)"
  shows "\<exists>v c' req'. try_once (scheduler_transport (GaveUp (wait_cancelled e))) cx t attempt key useTLS c req = Some (Done (v, c', req')) \<and>
    cl_released c' = cl_released c @ [k]"
  using assms acquireResponse_books [OF assms]
  by (auto simp: try_once_def scheduler_transport_def settle_def settle_failed_def wait_cancelled_def WrapError_def Let_def)

text \<open>
  C37. With the scheduler a cancelled call gives its response back too early: there is a run in which the
  caller's context ends while a worker executes the request; Do then returns an error of its own, the
  client puts the response into the pool for the next request, and the worker still has this very
  response in hand and fills it.
\<close>

theorem scheduler_releases_in_use:
  assumes "0 < sc_workers (NewScheduler config workers queueCap)" "0 < sc_queueCap (NewScheduler config workers queueCap)"
    "acquireResponse c = ((k, resp), c1)"
  shows "\<exists>s hs work e v c' req'. sched_step\<^sup>*\<^sup>* (sched_start config workers queueCap) s \<and>
    sc_hosts (ss_sched s) key = Some hs \<and> holds hs 0 0 \<and> ss_works s 0 = Some work \<and> req_resp (sw_req work) = Some resp \<and>
    ss_callers s 0 = Some (GaveUp e) \<and>
    try_once (scheduler_transport (GaveUp e)) cx t attempt key useTLS c req = Some (Done (v, c', req')) \<and> cl_released c' = cl_released c @ [k]"
proof -
  let ?req = "req\<lparr>req_resp := Some resp\<rparr>"
  obtain s hs where "sched_step\<^sup>*\<^sup>* (sched_start config workers queueCap) s" "ss_callers s 0 = Some (GaveUp (wait_cancelled Canceled))"
    "ss_works s 0 = Some (new_work 1 ?req key useTLS)" "sc_hosts (ss_sched s) key = Some hs" "holds hs 0 0"
    using cancelled_run [OF assms(1,2)] by blast
  moreover have "req_resp (sw_req (new_work 1 ?req key useTLS)) = Some resp" by (simp add: new_work_def)
  moreover obtain v c' req' where
    "try_once (scheduler_transport (GaveUp (wait_cancelled Canceled))) cx t attempt key useTLS c req = Some (Done (v, c', req'))"
    "cl_released c' = cl_released c @ [k]"
    using try_once_gave_up [OF assms(3), of Canceled cx t attempt key useTLS req] by blast
  ultimately show ?thesis by blast
qed

theorem scheduler_releases_in_use_witness:
  "\<exists>s hs work e v c' req'. sched_step\<^sup>*\<^sup>* (sched_start demo_config 2 4) s \<and>
    sc_hosts (ss_sched s) ''k'' = Some hs \<and> holds hs 0 0 \<and> ss_works s 0 = Some work \<and> ss_callers s 0 = Some (GaveUp e) \<and>
    try_once (scheduler_transport (GaveUp e)) None (de_tick demo_do 0) 0 ''k'' False demo_client requestPool_New = Some (Done (v, c', req')) \<and>
    cl_released c' = [0]"
proof -
  obtain resp c1 where l: "acquireResponse demo_client = ((0, resp), c1)" using demo_lease by blast
  have "0 < sc_workers (NewScheduler demo_config 2 4)" "0 < sc_queueCap (NewScheduler demo_config 2 4)"
    by (simp_all add: NewScheduler_def Let_def)
  from scheduler_releases_in_use [OF this l, of "''k''" None "de_tick demo_do 0" 0 False requestPool_New] show ?thesis
    by (fastforce simp: demo_client_def)
qed

end
