(* ===== verification/PoolSize.thy ===== *)
theory PoolSize
  imports Pool
begin

text \<open>
  The host pool of \<^verbatim>\<open>pool.go\<close> under concurrency. createConnection and removeUnhealthyConnections hold no
  lock: they work by compare-and-swap on the counter and on the list of connections. Each goroutine is
  followed from one atomic operation to the next, any number of them interleaving; a compare-and-swap
  that fails changes nothing and is tried again, so only the successful ones are steps. The list is a
  single atomic pointer: \<open>None\<close> once the pool has been stopped.
\<close>

text \<open>
  Where a goroutine stands: it has reserved a place in the counter and is dialing; it has dialed a connection and
  not yet published it; it has taken some connections out of the list and not yet lowered the counter.
\<close>

datatype pool_pc = Dialing | Publishing nat | Lowering nat | Returned "nat option"

record pool_run =
  pr_pool :: HostPool
  pr_threads :: "pool_pc list"

definition at_pc :: "pool_run \<Rightarrow> nat \<Rightarrow> pool_pc \<Rightarrow> bool" where
  "at_pc s k pc \<longleftrightarrow> k < length (pr_threads s) \<and> pr_threads s ! k = pc"

definition goto :: "nat \<Rightarrow> pool_pc \<Rightarrow> HostPool \<Rightarrow> pool_run \<Rightarrow> pool_run" where
  "goto k pc hp s = s\<lparr>pr_pool := hp, pr_threads := (pr_threads s)[k := pc]\<rparr>"

definition add_active :: "int \<Rightarrow> HostPool \<Rightarrow> HostPool" where
  "add_active d hp = hp\<lparr>hp_activeCount := i32 (hp_activeCount hp + d)\<rparr>"

inductive pool_step :: "pool_run \<Rightarrow> pool_run \<Rightarrow> bool" where
  full: "hp_activeCount (pr_pool s) \<ge> i32 (hp_maxIdle (pr_pool s)) \<Longrightarrow>
    pool_step s (s\<lparr>pr_threads := pr_threads s @ [Returned None]\<rparr>)"
| reserve: "hp_activeCount (pr_pool s) < i32 (hp_maxIdle (pr_pool s)) \<Longrightarrow>
    pool_step s (s\<lparr>pr_pool := add_active 1 (pr_pool s), pr_threads := pr_threads s @ [Dialing]\<rparr>)"
| dial_failed: "at_pc s k Dialing \<Longrightarrow> pool_step s (goto k (Returned None) (add_active (- 1) (pr_pool s)) s)"
| dialed: "at_pc s k Dialing \<Longrightarrow> pool_step s (goto k (Publishing c) (pr_pool s) s)"
| publish: "at_pc s k (Publishing c) \<Longrightarrow> hp_connections (pr_pool s) = Some old \<Longrightarrow>
    pool_step s (goto k (Returned (Some c))
      ((pr_pool s)\<lparr>hp_connections := Some (old @ [c]), hp_idleCount := i32 (hp_idleCount (pr_pool s) + 1)\<rparr>) s)"
| too_late: "at_pc s k (Publishing c) \<Longrightarrow> hp_connections (pr_pool s) = None \<Longrightarrow>
    pool_step s (goto k (Returned None) (add_active (- 1) (pr_pool s)) s)"
| remove: "hp_connections (pr_pool s) = Some old \<Longrightarrow> new = filter (\<lambda>c. c \<notin> set bad) old \<Longrightarrow> length new < length old \<Longrightarrow>
    pool_step s (s\<lparr>pr_pool := (pr_pool s)\<lparr>hp_connections := Some new\<rparr>, pr_threads := pr_threads s @ [Lowering (length old - length new)]\<rparr>)"
| lower: "at_pc s k (Lowering n) \<Longrightarrow>
    pool_step s (goto k (Returned None) ((add_active (- int n) (pr_pool s))\<lparr>hp_idleCount := i32 (hp_idleCount (pr_pool s) - int n)\<rparr>) s)"
| stop: "pool_step s (s\<lparr>pr_pool := (pr_pool s)\<lparr>hp_connections := None\<rparr>\<rparr>)"

inductive_cases pool_stepE: "pool_step s s'"

definition pool_start :: "HostPool \<Rightarrow> pool_run" where
  "pool_start hp = \<lparr>pr_pool = hp, pr_threads = []\<rparr>"

section \<open>The counter covers what exists\<close>

text \<open>The places a goroutine still occupies in the counter.\<close>

fun weight :: "pool_pc \<Rightarrow> nat" where
  "weight Dialing = 1"
| "weight (Publishing c) = 1"
| "weight (Lowering n) = n"
| "weight (Returned c) = 0"

definition occupied :: "pool_run \<Rightarrow> nat" where
  "occupied s = length (pool_conns (pr_pool s)) + sum_list (map weight (pr_threads s))"

definition covered :: "pool_run \<Rightarrow> bool" where
  "covered s \<longleftrightarrow> int (occupied s) \<le> hp_activeCount (pr_pool s) \<and> hp_activeCount (pr_pool s) \<le> i32 (hp_maxIdle (pr_pool s))"

lemma sum_weight_update:
  "k < length ts \<Longrightarrow> sum_list (map weight (ts[k := pc])) + weight (ts ! k) = sum_list (map weight ts) + weight pc"
  by (induction ts arbitrary: k) (auto split: nat.split simp: nth_Cons)

lemma weight_goto:
  "at_pc s k pc \<Longrightarrow> sum_list (map weight (pr_threads (goto k pc' hp s))) + weight pc = sum_list (map weight (pr_threads s)) + weight pc'"
  using sum_weight_update [of k "pr_threads s" pc'] by (simp add: at_pc_def goto_def)

lemma covered_range:
  assumes "covered s" "- int (occupied s) \<le> d" "d \<le> 0 \<or> hp_activeCount (pr_pool s) + d \<le> i32 (hp_maxIdle (pr_pool s))"
  shows "i32 (hp_activeCount (pr_pool s) + d) = hp_activeCount (pr_pool s) + d"
  using assms i32_range [of "hp_maxIdle (pr_pool s)"] by (intro i32_id) (auto simp: covered_def)

text \<open>A step in which a goroutine gives up places of its own.\<close>

lemma covered_give_back:
  assumes "covered s" "at_pc s k pc"
  shows "covered (goto k (Returned r) (add_active (- int (weight pc)) (pr_pool s)) s)"
proof -
  have w: "sum_list (map weight (pr_threads (goto k (Returned r) (add_active (- int (weight pc)) (pr_pool s)) s))) + weight pc =
      sum_list (map weight (pr_threads s))"
    using weight_goto [OF assms(2), of "Returned r"] by simp
  then have "i32 (hp_activeCount (pr_pool s) + - int (weight pc)) = hp_activeCount (pr_pool s) + - int (weight pc)"
    by (intro covered_range [OF assms(1)]) (auto simp: occupied_def)
  then show ?thesis
    using assms(1) w by (simp add: covered_def occupied_def add_active_def pool_conns_def goto_def)
qed

lemma pool_step_covered: "pool_step s s' \<Longrightarrow> covered s \<Longrightarrow> covered s'"
proof (induction rule: pool_step.induct)
  case (full s)
  then show ?case by (simp add: covered_def occupied_def)
next
  case (reserve s)
  then have "i32 (hp_activeCount (pr_pool s) + 1) = hp_activeCount (pr_pool s) + 1" by (intro covered_range) auto
  with reserve show ?case by (simp add: covered_def occupied_def add_active_def pool_conns_def)
next
  case (dial_failed s k)
  then show ?case using covered_give_back [of s k Dialing] by simp
next
  case (dialed s k c)
  then show ?case using weight_goto [of s k Dialing "Publishing c" "pr_pool s"] by (simp add: covered_def occupied_def goto_def)
next
  case (publish s k c old)
  then show ?case
    using weight_goto [of s k "Publishing c" "Returned (Some c)" "pr_pool s"]
    by (simp add: covered_def occupied_def goto_def pool_conns_def)
next
  case (too_late s k c)
  then show ?case using covered_give_back [of s k "Publishing c"] by simp
next
  case (remove s old new bad)
  then show ?case by (simp add: covered_def occupied_def pool_conns_def)
next
  case (lower s k n)
  then show ?case using covered_give_back [of s k "Lowering n" None] by (simp add: covered_def occupied_def pool_conns_def goto_def)
next
  case (stop s)
  then show ?case by (auto simp: covered_def occupied_def pool_conns_def split: option.splits)
qed

lemma pool_run_covered:
  assumes "pool_step\<^sup>*\<^sup>* (pool_start hp) s" "covered (pool_start hp)"
  shows "covered s \<and> hp_maxIdle (pr_pool s) = hp_maxIdle hp"
  using assms(1)
proof (induction rule: rtranclp_induct)
  case (step s s')
  then show ?case
    using pool_step_covered by (auto elim!: pool_stepE simp: goto_def add_active_def)
qed (use assms(2) in \<open>simp add: pool_start_def\<close>)

text \<open>
  C16. However many goroutines create, remove and lose connections at once, a new host pool never exceeds its
  limit: in every reachable state the connections in the list together with those being dialed, those
  dialed and not yet in the list and those removed whose place has not been given back number at most
  activeCount, and activeCount is at most the limit.
\<close>

theorem pool_size_bounded:
  assumes "0 \<le> hp_maxIdle (new_host_pool p key useTLS)" "hp_maxIdle (new_host_pool p key useTLS) < 2 ^ 31"
    "pool_step\<^sup>*\<^sup>* (pool_start (new_host_pool p key useTLS)) s"
  shows "int (length (pool_conns (pr_pool s)) + sum_list (map weight (pr_threads s))) \<le> hp_activeCount (pr_pool s) \<and>
    hp_activeCount (pr_pool s) \<le> hp_maxIdle (new_host_pool p key useTLS)"
proof -
  let ?hp = "new_host_pool p key useTLS"
  have m: "i32 (hp_maxIdle ?hp) = hp_maxIdle ?hp" using assms(1,2) by (simp add: i32_id)
  have "hp_activeCount ?hp = 0" "pool_conns ?hp = []" by (simp_all add: new_host_pool_def pool_conns_def Let_def split: prod.split)
  then have "covered (pool_start ?hp)" using assms(1) m by (simp add: covered_def occupied_def pool_start_def)
  then have "covered s" "hp_maxIdle (pr_pool s) = hp_maxIdle ?hp" using pool_run_covered [OF assms(3)] by auto
  then show ?thesis using m by (auto simp: covered_def occupied_def)
qed

theorem pool_size_bounded_witness:
  "\<exists>s. pool_step\<^sup>*\<^sup>* (pool_start (new_host_pool (NewPool DefaultConfig None None None) ''http://h:80'' False)) s \<and>
     pool_conns (pr_pool s) = [7] \<and> hp_activeCount (pr_pool s) \<le> 512"
proof -
  let ?hp = "new_host_pool (NewPool DefaultConfig None None None) ''http://h:80'' False"
  have hp: "hp_activeCount ?hp = 0" "hp_connections ?hp = Some []" "hp_maxIdle ?hp = 512"
    by (simp_all add: new_host_pool_def NewPool_def DefaultConfig_def Let_def split: prod.split)
  let ?s1 = "(pool_start ?hp)\<lparr>pr_pool := add_active 1 ?hp, pr_threads := [Dialing]\<rparr>"
  have 1: "pool_step (pool_start ?hp) ?s1"
    using pool_step.reserve [of "pool_start ?hp"] hp by (simp add: pool_start_def i32_id)
  have 2: "pool_step ?s1 (goto 0 (Publishing 7) (pr_pool ?s1) ?s1)" by (rule pool_step.dialed) (simp add: at_pc_def)
  let ?s2 = "goto 0 (Publishing 7) (pr_pool ?s1) ?s1"
  have c: "hp_connections (pr_pool ?s2) = Some []" using hp by (simp add: goto_def add_active_def)
  obtain s3 where 3: "pool_step ?s2 s3" "pool_conns (pr_pool s3) = [7]"
    using pool_step.publish [OF _ c, of 0 7] by (auto simp: at_pc_def goto_def pool_conns_def)
  have r: "pool_step\<^sup>*\<^sup>* (pool_start ?hp) s3" using 1 2 3(1) by (meson rtranclp.rtrancl_into_rtrancl rtranclp.rtrancl_refl)
  with pool_size_bounded [OF _ _ r] hp(3) 3(2) show ?thesis by (intro exI [of _ s3]) simp
qed

end
