(* ===== verification/Batch.thy ===== *)
theory Batch
  imports Attempts
begin

text \<open>
  Batches of \<^verbatim>\<open>batch.go\<close>: a list of requests, performed by one goroutine each, with the results in the order
  of the requests. The goroutines' calls of DoWithContext take effect on the client one after the
  other, in any order; \<open>env i\<close> and \<open>tr i\<close> are the clock readings and the transport the i-th goroutine meets.
  The requests of a batch are distinct objects.
\<close>

record BatchResult =
  br_Index :: int
  br_Response :: "leased option"
  br_Err :: "goerror option"

record batchEntry =
  be_req :: "Request option"
  be_owned :: bool

record Batch =
  bt_client :: Client
  bt_entries :: "batchEntry list"

definition Batch_Do :: "Request option \<Rightarrow> Batch \<Rightarrow> Batch" where
  "Batch_Do req b = b\<lparr>bt_entries := bt_entries b @ [\<lparr>be_req = req, be_owned = False\<rparr>]\<rparr>"

text \<open>The methods that take a request from the client's pool and fill it.\<close>

definition add_owned :: "(Request \<Rightarrow> Request) \<Rightarrow> Batch \<Rightarrow> Batch" where
  "add_owned fill b =
     (case acquireRequest (bt_client b) of (req, c) \<Rightarrow>
        b\<lparr>bt_client := c, bt_entries := bt_entries b @ [\<lparr>be_req = Some (fill req), be_owned = True\<rparr>]\<rparr>)"

definition Batch_Get :: "bytes \<Rightarrow> Header list \<Rightarrow> Batch \<Rightarrow> Batch" where
  "Batch_Get path headers = add_owned (fill_path ''GET'' path headers)"

definition Batch_GetURL :: "bytes \<Rightarrow> Header list \<Rightarrow> Batch \<Rightarrow> Batch" where
  "Batch_GetURL rawURL headers = add_owned (fill_url ''GET'' rawURL headers)"

definition Batch_Post :: "bytes \<Rightarrow> bytes \<Rightarrow> Header list \<Rightarrow> Batch \<Rightarrow> Batch" where
  "Batch_Post path body headers = add_owned (fill_path_body ''POST'' path body headers)"

definition Batch_PostURL :: "bytes \<Rightarrow> bytes \<Rightarrow> Header list \<Rightarrow> Batch \<Rightarrow> Batch" where
  "Batch_PostURL rawURL body headers = add_owned (fill_url_body ''POST'' rawURL body headers)"

definition Batch_Put :: "bytes \<Rightarrow> bytes \<Rightarrow> Header list \<Rightarrow> Batch \<Rightarrow> Batch" where
  "Batch_Put path body headers = add_owned (fill_path_body ''PUT'' path body headers)"

definition Batch_Patch :: "bytes \<Rightarrow> bytes \<Rightarrow> Header list \<Rightarrow> Batch \<Rightarrow> Batch" where
  "Batch_Patch path body headers = add_owned (fill_path_body ''PATCH'' path body headers)"

definition Batch_Delete :: "bytes \<Rightarrow> Header list \<Rightarrow> Batch \<Rightarrow> Batch" where
  "Batch_Delete path headers = add_owned (fill_path ''DELETE'' path headers)"

definition zero_result :: BatchResult where
  "zero_result = \<lparr>br_Index = 0, br_Response = None, br_Err = None\<rparr>"

text \<open>The call made for one request, with the request as the call leaves it.\<close>

definition batch_call ::
  "do_env \<Rightarrow> (nat \<Rightarrow> transport) \<Rightarrow> nat \<Rightarrow> Client \<Rightarrow> Request option \<Rightarrow> (leased option \<times> goerror option \<times> Client \<times> Request option) outcome option" where
  "batch_call env tr cid c req =
     (case req of
        None \<Rightarrow> Some (Done (None, Some nil_request, c, None))
      | Some r \<Rightarrow> map_option (outcome_map (\<lambda>(resp, err, c, r). (resp, err, c, Some r))) (DoWithContext env tr cid c r))"

type_synonym batch_state = "Client \<times> BatchResult list"

text \<open>One goroutine; the deferred release of an owned request comes after its result is stored.\<close>

definition run_entry ::
  "do_env \<Rightarrow> (nat \<Rightarrow> transport) \<Rightarrow> nat \<Rightarrow> nat \<Rightarrow> batchEntry \<Rightarrow> batch_state \<Rightarrow> batch_state outcome option" where
  "run_entry env tr cid idx entry s =
     (case s of (c, results) \<Rightarrow>
        map_option (outcome_map (\<lambda>(resp, err, c, req).
          (if be_owned entry then releaseRequest req c else c,
           results[idx := \<lparr>br_Index = int idx, br_Response = resp, br_Err = err\<rparr>])))
          (batch_call env tr cid c (be_req entry)))"

fun run_batch ::
  "(nat \<Rightarrow> do_env) \<Rightarrow> (nat \<Rightarrow> nat \<Rightarrow> transport) \<Rightarrow> nat \<Rightarrow> batchEntry list \<Rightarrow> nat list \<Rightarrow> batch_state \<Rightarrow> batch_state outcome option" where
  "run_batch env tr cid entries [] s = Some (Done s)"
| "run_batch env tr cid entries (i # order) s =
     (case run_entry (env i) (tr i) cid i (entries ! i) s of
        None \<Rightarrow> None
      | Some Panic \<Rightarrow> Some Panic
      | Some (Done s) \<Rightarrow> run_batch env tr cid entries order s)"

text \<open>\<open>fn\<close> is the caller's function that fills the batch, nil or not; \<open>order\<close> the order in which the goroutines finish.\<close>

definition BatchWithContext ::
  "(nat \<Rightarrow> do_env) \<Rightarrow> (nat \<Rightarrow> nat \<Rightarrow> transport) \<Rightarrow> nat list \<Rightarrow> nat \<Rightarrow> (Batch \<Rightarrow> Batch) option \<Rightarrow> Client \<Rightarrow> batch_state outcome option" where
  "BatchWithContext env tr order cid fn c =
     (case fn of
        None \<Rightarrow> Some (Done (c, []))
      | Some fn \<Rightarrow>
          (let b = fn \<lparr>bt_client = c, bt_entries = []\<rparr>;
               n = length (bt_entries b)
           in if n = 0 then Some (Done (bt_client b, []))
              else run_batch env tr cid (bt_entries b) order (bt_client b, replicate n zero_result)))"

text \<open>Context 0 is the background context.\<close>

definition Client_Batch ::
  "(nat \<Rightarrow> do_env) \<Rightarrow> (nat \<Rightarrow> nat \<Rightarrow> transport) \<Rightarrow> nat list \<Rightarrow> (Batch \<Rightarrow> Batch) option \<Rightarrow> Client \<Rightarrow> batch_state outcome option" where
  "Client_Batch env tr order fn c = BatchWithContext env tr order 0 fn c"

section \<open>Results stay in order\<close>

text \<open>A result is the answer to the request with its own index.\<close>

definition own_answer :: "(nat \<Rightarrow> do_env) \<Rightarrow> (nat \<Rightarrow> nat \<Rightarrow> transport) \<Rightarrow> nat \<Rightarrow> batchEntry list \<Rightarrow> nat \<Rightarrow> BatchResult \<Rightarrow> bool" where
  "own_answer env tr cid entries i r \<longleftrightarrow> br_Index r = int i \<and>
     (\<exists>c c' req'. batch_call (env i) (tr i) cid c (be_req (entries ! i)) = Some (Done (br_Response r, br_Err r, c', req')))"

lemma run_entry_result:
  assumes "run_entry env tr cid i e (c, results) = Some (Done (c', results'))"
  shows "\<exists>resp err c1 req'. batch_call env tr cid c (be_req e) = Some (Done (resp, err, c1, req')) \<and>
    results' = results[i := \<lparr>br_Index = int i, br_Response = resp, br_Err = err\<rparr>]"
proof -
  obtain x where x: "batch_call env tr cid c (be_req e) = Some x"
    using assms by (cases "batch_call env tr cid c (be_req e)") (auto simp: run_entry_def)
  with assms show ?thesis by (cases x) (auto simp: run_entry_def)
qed

lemma run_batch_answers:
  assumes "run_batch env tr cid entries order (c, results) = Some (Done (c', results'))" "distinct order" "set order \<subseteq> {..< length results}"
  shows "length results' = length results \<and> (\<forall>i \<in> set order. own_answer env tr cid entries i (results' ! i)) \<and>
    (\<forall>i. i \<notin> set order \<longrightarrow> results' ! i = results ! i)"
  using assms
proof (induction order arbitrary: c results)
  case (Cons i order)
  obtain c1 r1 where e: "run_entry (env i) (tr i) cid i (entries ! i) (c, results) = Some (Done (c1, r1))"
    "run_batch env tr cid entries order (c1, r1) = Some (Done (c', results'))"
    using Cons.prems(1) by (auto split: option.splits outcome.splits)
  obtain resp err c2 req' where p: "batch_call (env i) (tr i) cid c (be_req (entries ! i)) = Some (Done (resp, err, c2, req'))"
    "r1 = results[i := \<lparr>br_Index = int i, br_Response = resp, br_Err = err\<rparr>]"
    using run_entry_result [OF e(1)] by blast
  have l: "length r1 = length results" using p(2) by simp
  have ih: "length results' = length r1" "\<forall>i \<in> set order. own_answer env tr cid entries i (results' ! i)"
    "\<forall>i. i \<notin> set order \<longrightarrow> results' ! i = r1 ! i"
    using Cons.IH [OF e(2)] Cons.prems(2,3) l by auto
  have "i \<notin> set order" "i < length results" using Cons.prems(2,3) by auto
  then have "results' ! i = \<lparr>br_Index = int i, br_Response = resp, br_Err = err\<rparr>" using ih(3) p(2) by simp
  then have "own_answer env tr cid entries i (results' ! i)" using p(1) by (auto simp: own_answer_def)
  then show ?case using ih l p(2) by auto
qed simp

text \<open>
  C26. The results of a batch are in the order of its requests whatever the order in which the goroutines
  finish: there is one result for every request, the result at a position has that position as its
  index, and its response and error are what DoWithContext returned for the request at that position.
\<close>

theorem batch_results_in_order:
  assumes "BatchWithContext env tr order cid (Some fn) c = Some (Done (c', results))" "entries = bt_entries (fn \<lparr>bt_client = c, bt_entries = []\<rparr>)"
    "distinct order" "set order = {..< length entries}"
  shows "length results = length entries \<and> list_all (\<lambda>i. own_answer env tr cid entries i (results ! i)) [0 ..< length entries]"
proof (cases "entries = []")
  case True
  then show ?thesis using assms(1,2) by (simp add: BatchWithContext_def)
next
  case False
  let ?b = "fn \<lparr>bt_client = c, bt_entries = []\<rparr>"
  have "run_batch env tr cid entries order (bt_client ?b, replicate (length entries) zero_result) = Some (Done (c', results))"
    using assms(1,2) False by (simp add: BatchWithContext_def Let_def)
  from run_batch_answers [OF this assms(3)] assms(4) show ?thesis by (auto simp: list_all_iff)
qed

text \<open>A batch of a request and a nil request, on a client whose context is already done.\<close>

definition demo_cancelled :: do_env where
  "demo_cancelled = demo_do\<lparr>de_ctx := (\<lambda>i. Some (0, Canceled)), de_now := 5\<rparr>"

definition demo_batch :: "Batch \<Rightarrow> Batch" where
  "demo_batch b = Batch_Do None (Batch_Get ''/a'' [] b)"

lemma demo_batch_runs:
  "\<exists>c' results. BatchWithContext (\<lambda>i. demo_cancelled) (\<lambda>i n. pool_transport (demo_attempt n)) [1, 0] 0 (Some demo_batch) demo_client =
     Some (Done (c', results))"
  by (simp add: BatchWithContext_def demo_batch_def Batch_Do_def Batch_Get_def add_owned_def acquireRequest_def demo_client_def
      run_entry_def batch_call_def DoWithContext_def demo_cancelled_def ctx_Err_def Let_def)

lemma demo_batch_entries: "length (bt_entries (demo_batch \<lparr>bt_client = demo_client, bt_entries = []\<rparr>)) = 2"
  by (simp add: demo_batch_def Batch_Do_def Batch_Get_def add_owned_def acquireRequest_def demo_client_def)

theorem batch_results_in_order_witness:
  "\<exists>c' results. BatchWithContext (\<lambda>i. demo_cancelled) (\<lambda>i n. pool_transport (demo_attempt n)) [1, 0] 0 (Some demo_batch) demo_client =
     Some (Done (c', results)) \<and> length results = 2 \<and> br_Index (results ! 0) = 0 \<and> br_Index (results ! 1) = 1"
proof -
  obtain c' results where r: "BatchWithContext (\<lambda>i. demo_cancelled) (\<lambda>i n. pool_transport (demo_attempt n)) [1, 0] 0 (Some demo_batch) demo_client =
     Some (Done (c', results))" using demo_batch_runs by blast
  have "[0 ..< 2] = [0, 1 :: nat]" "{..< 2 :: nat} = {1, 0}" by (auto simp: upt_rec)
  then show ?thesis using batch_results_in_order [OF r refl] r by (simp add: demo_batch_entries own_answer_def)
qed

end
