(* ===== verification/Multipart.thy ===== *)
theory Multipart
  imports Attempts
begin

text \<open>
  Form bodies of \<^verbatim>\<open>multipart.go\<close>, with the writer of Go's mime/multipart they are built with: the delimiter lines,
  the part headers in key order, the quoting of names, the closing line. The boundary, 60 random
  hexadecimal digits, is an argument. A reference decoder of the format reads back what was added.
\<close>

section \<open>The multipart writer\<close>

abbreviation DQ :: byte where "DQ \<equiv> CHR 0x22"
abbreviation BSL :: byte where "BSL \<equiv> CHR 0x5C"

text \<open>The buffer with its writer; \<open>mb_lastpart\<close> says that a part is open.\<close>

record MultipartBuilder =
  mb_buf :: bytes
  mb_boundary :: bytes
  mb_lastpart :: bool

definition NewMultipartBuilder :: "bytes \<Rightarrow> MultipartBuilder" where
  "NewMultipartBuilder boundary = \<lparr>mb_buf = [], mb_boundary = boundary, mb_lastpart = False\<rparr>"

definition mb_write :: "bytes \<Rightarrow> MultipartBuilder \<Rightarrow> MultipartBuilder" where
  "mb_write s mb = mb\<lparr>mb_buf := mb_buf mb @ s\<rparr>"

definition escapeQuotes :: "bytes \<Rightarrow> bytes" where
  "escapeQuotes s = concat (map (\<lambda>c. if c = BSL then [BSL, BSL] else if c = DQ then [BSL, DQ] else [c]) s)"

definition delimiter :: "bytes \<Rightarrow> bytes" where
  "delimiter boundary = CRLF @ ''--'' @ boundary"

text \<open>The fields come in the order of their keys.\<close>

definition CreatePart :: "(bytes \<times> bytes) list \<Rightarrow> MultipartBuilder \<Rightarrow> MultipartBuilder" where
  "CreatePart header mb =
     (mb_write ((if mb_lastpart mb then delimiter (mb_boundary mb) else ''--'' @ mb_boundary mb) @ CRLF @
        concat (map (\<lambda>(k, v). k @ '': '' @ v @ CRLF) header) @ CRLF) mb)\<lparr>mb_lastpart := True\<rparr>"

definition name_param :: "bytes \<Rightarrow> bytes" where
  "name_param name = ''form-data; name='' @ [DQ] @ escapeQuotes name @ [DQ]"

definition filename_param :: "bytes \<Rightarrow> bytes" where
  "filename_param fileName = ''; filename='' @ [DQ] @ escapeQuotes fileName @ [DQ]"

definition CreateFormFile :: "bytes \<Rightarrow> bytes \<Rightarrow> MultipartBuilder \<Rightarrow> MultipartBuilder" where
  "CreateFormFile name fileName =
     CreatePart [(''Content-Disposition'', name_param name @ filename_param fileName), (''Content-Type'', ''application/octet-stream'')]"

definition FormDataContentType :: "bytes \<Rightarrow> bytes" where
  "FormDataContentType b =
     ''multipart/form-data; boundary='' @ (if \<exists>c \<in> set b. c \<in> set (''()<>@,;:/[]?= '' @ [BSL, DQ]) then [DQ] @ b @ [DQ] else b)"

section \<open>The builder\<close>

text \<open>Writing to the buffer does not fail, so the only errors are those of the file or the reader.\<close>

definition AddField :: "bytes \<Rightarrow> bytes \<Rightarrow> MultipartBuilder \<Rightarrow> goerror option \<times> MultipartBuilder" where
  "AddField name val mb = (None, mb_write val (CreatePart [(''Content-Disposition'', name_param name)] mb))"

definition AddFileFromBytes :: "bytes \<Rightarrow> bytes \<Rightarrow> bytes \<Rightarrow> MultipartBuilder \<Rightarrow> goerror option \<times> MultipartBuilder" where
  "AddFileFromBytes fieldName fileName data mb = (None, mb_write data (CreateFormFile fieldName fileName mb))"

text \<open>A reader is what it delivers and the error it ends with, if it does not end with EOF.\<close>

type_synonym stream = "bytes \<times> goerror option"

definition AddFileFromReader :: "bytes \<Rightarrow> bytes \<Rightarrow> stream \<Rightarrow> MultipartBuilder \<Rightarrow> goerror option \<times> MultipartBuilder" where
  "AddFileFromReader fieldName fileName reader mb = (snd reader, mb_write (fst reader) (CreateFormFile fieldName fileName mb))"

definition filepath_Base :: "bytes \<Rightarrow> bytes" where
  "filepath_Base path =
     (if path = [] then ''.''
      else (let p = rev (dropWhile (\<lambda>c. c = CHR ''/'') (rev path));
                p = rev (takeWhile (\<lambda>c. c \<noteq> CHR ''/'') (rev p))
            in if p = [] then ''/'' else p))"

text \<open>\<open>open_file\<close> is os.Open: an error, or the contents as they are read.\<close>

definition AddFileFromPath ::
  "(bytes \<Rightarrow> goerror + stream) \<Rightarrow> bytes \<Rightarrow> bytes \<Rightarrow> MultipartBuilder \<Rightarrow> goerror option \<times> MultipartBuilder" where
  "AddFileFromPath open_file fieldName filePath mb =
     (case open_file filePath of
        Inl err \<Rightarrow> (Some err, mb)
      | Inr (data, err) \<Rightarrow> (err, mb_write data (CreateFormFile fieldName (filepath_Base filePath) mb)))"

definition MultipartBuilder_ContentType :: "MultipartBuilder \<Rightarrow> bytes" where
  "MultipartBuilder_ContentType mb = FormDataContentType (mb_boundary mb)"

definition Finish :: "MultipartBuilder \<Rightarrow> (bytes \<times> bytes \<times> goerror option) \<times> MultipartBuilder" where
  "Finish mb =
     (let mb = (mb_write (delimiter (mb_boundary mb) @ ''--'' @ CRLF) mb)\<lparr>mb_lastpart := False\<rparr>
      in ((mb_buf mb, FormDataContentType (mb_boundary mb), None), mb))"

text \<open>The loops over the maps, given in the order in which the iteration visits them.\<close>

fun add_all :: "('a \<Rightarrow> MultipartBuilder \<Rightarrow> goerror option \<times> MultipartBuilder) \<Rightarrow> 'a list \<Rightarrow> MultipartBuilder \<Rightarrow> goerror option \<times> MultipartBuilder" where
  "add_all add [] mb = (None, mb)"
| "add_all add (x # xs) mb =
     (case add x mb of (Some err, mb) \<Rightarrow> (Some err, mb) | (None, mb) \<Rightarrow> add_all add xs mb)"

definition absolute :: "bytes \<Rightarrow> bool" where
  "absolute s \<longleftrightarrow> length s > 7 \<and> (take 7 s = ''http://'' \<or> (length s > 8 \<and> take 8 s = ''https://''))"

definition BuildMultipartRequest ::
  "bytes \<Rightarrow> Client \<Rightarrow> bytes \<Rightarrow> bytes \<Rightarrow> (bytes \<times> bytes) list \<Rightarrow> (bytes \<times> bytes) list \<Rightarrow> (goerror + Request) \<times> Client" where
  "BuildMultipartRequest boundary client meth urlOrPath values files =
     (case add_all (\<lambda>(k, v). AddField k v) values (NewMultipartBuilder boundary) of
        (Some err, mb) \<Rightarrow> (Inl err, client)
      | (None, mb) \<Rightarrow>
          (case add_all (\<lambda>(name, data). AddFileFromBytes name name data) files mb of
             (Some err, mb) \<Rightarrow> (Inl err, client)
           | (None, mb) \<Rightarrow>
               (case fst (Finish mb) of
                  (body, contentType, Some err) \<Rightarrow> (Inl err, client)
                | (body, contentType, None) \<Rightarrow>
                    (case acquireRequest client of (req, client) \<Rightarrow>
                       let req = req\<lparr>Method := meth\<rparr>;
                           req = (if absolute urlOrPath then req\<lparr>URL := urlOrPath\<rparr> else req\<lparr>Path := urlOrPath\<rparr>);
                           req = req\<lparr>req_Body := body\<rparr>
                       in (Inr (snd (SetHeader req ''Content-Type'' contentType)), client)))))"

section \<open>A reference decoder\<close>

datatype form_part = FormField bytes bytes | FormFile bytes bytes bytes

fun unquote :: "bytes \<Rightarrow> (bytes \<times> bytes) option" where
  "unquote [] = None"
| "unquote (c # s) =
     (if c = DQ then Some ([], s)
      else if c = BSL then (case s of [] \<Rightarrow> None | d # s \<Rightarrow> map_option (apfst (Cons d)) (unquote s))
      else map_option (apfst (Cons c)) (unquote s))"

definition strip :: "bytes \<Rightarrow> bytes \<Rightarrow> bytes option" where
  "strip p s = (if prefix p s then Some (drop (length p) s) else None)"

definition decode_head :: "bytes \<Rightarrow> bytes \<Rightarrow> form_part option" where
  "decode_head hd_lines data =
     Option.bind (strip (''Content-Disposition: form-data; name='' @ [DQ]) hd_lines) (\<lambda>s.
     Option.bind (unquote s) (\<lambda>(name, s).
       if s = [] then Some (FormField name data)
       else Option.bind (strip (''; filename='' @ [DQ]) s) (\<lambda>s.
            Option.bind (unquote s) (\<lambda>(fileName, s).
              if s = CRLF @ ''Content-Type: application/octet-stream'' then Some (FormFile name fileName data) else None))))"

text \<open>After a delimiter: the end of the body, or a part up to the next delimiter.\<close>

function decode_parts :: "bytes \<Rightarrow> bytes \<Rightarrow> form_part list option" where
  "decode_parts b s =
     (if prefix ''--'' s then Some []
      else case strip CRLF s of
        None \<Rightarrow> None
      | Some t \<Rightarrow>
          (case first_occ (CRLF @ CRLF) t of
             None \<Rightarrow> None
           | Some i \<Rightarrow>
               (case first_occ (delimiter b) (drop (i + 4) t) of
                  None \<Rightarrow> None
                | Some j \<Rightarrow>
                    Option.bind (decode_head (take i t) (take j (drop (i + 4) t))) (\<lambda>p.
                      map_option (Cons p) (decode_parts b (drop (j + length (delimiter b)) (drop (i + 4) t)))))))"
  by pat_completeness auto
termination
  by (relation "measure (\<lambda>(b, s). length s)") (auto simp: strip_def prefix_def split: if_splits)

declare decode_parts.simps [simp del]

definition multipart_decode :: "bytes \<Rightarrow> bytes \<Rightarrow> form_part list option" where
  "multipart_decode b s =
     (case first_occ (''--'' @ b) s of
        None \<Rightarrow> None
      | Some i \<Rightarrow> decode_parts b (drop (i + length (''--'' @ b)) s))"

section \<open>What was added is read back\<close>

lemma strip_append [simp]: "strip p (p @ s) = Some s"
  by (simp add: strip_def)

lemma escapeQuotes_Cons:
  "escapeQuotes (c # s) = (if c = BSL then [BSL, BSL] else if c = DQ then [BSL, DQ] else [c]) @ escapeQuotes s"
  by (simp add: escapeQuotes_def)

lemma unquote_escaped: "unquote (escapeQuotes s @ DQ # r) = Some (s, r)"
proof (induction s)
  case Nil
  then show ?case by (simp add: escapeQuotes_def)
next
  case (Cons c s)
  then show ?case by (simp add: escapeQuotes_Cons)
qed

lemma escapeQuotes_set: "c \<in> set (escapeQuotes s) \<Longrightarrow> c \<in> set s \<or> c = BSL \<or> c = DQ"
  by (auto simp: escapeQuotes_def split: if_splits)

text \<open>A pattern whose first byte does not come again in it does not overlap the end of what it follows.\<close>

lemma first_occ_after:
  assumes "\<not> sublist (c # p) s" "c \<notin> set p"
  shows "first_occ (c # p) (s @ (c # p) @ r) = Some (length s)"
  unfolding first_occ_Some
proof (intro conjI allI impI notI)
  fix j assume j: "j < length s" "prefix (c # p) (drop j (s @ (c # p) @ r))"
  then obtain z where z: "drop j s @ (c # p) @ r = (c # p) @ z" by (auto elim: prefixE)
  show False
  proof (cases "length (drop j s) < length (c # p)")
    case True
    define k where "k = length (drop j s)"
    have k: "0 < k" "k < length (c # p)" using j(1) True by (auto simp: k_def)
    have "(drop j s @ (c # p) @ r) ! k = c" by (simp add: k_def nth_append)
    moreover have "((c # p) @ z) ! k = p ! (k - 1)" using k by (cases k) (simp_all add: nth_append)
    moreover have "p ! (k - 1) \<in> set p" using k by (intro nth_mem) simp
    ultimately show False using z assms(2) by metis
  next
    case False
    then have "prefix (c # p) (drop j s)" using z by (metis linorder_le_less_linear nat_less_le prefix_length_prefix prefixI prefix_length_le)
    then have "sublist (c # p) s" by (rule sublist_order.order_trans [OF prefix_imp_sublist]) (rule sublist_drop)
    with assms(1) show False by blast
  qed
qed simp_all

lemma first_occ_skip:
  "c \<notin> set s \<Longrightarrow> first_occ (c # p) (s @ r) = map_option ((+) (length s)) (first_occ (c # p) r)"
proof (induction s)
  case (Cons d s)
  then show ?case by (simp add: first_occ_miss option.map_comp comp_def)
next
  case Nil
  then show ?case by (cases "first_occ (c # p) r") simp_all
qed

text \<open>The lines of a part's header and its contents.\<close>

fun part_head :: "form_part \<Rightarrow> bytes" where
  "part_head (FormField name val) = ''Content-Disposition: '' @ name_param name"
| "part_head (FormFile name fileName data) =
     ''Content-Disposition: '' @ name_param name @ filename_param fileName @ CRLF @ ''Content-Type: application/octet-stream''"

fun part_content :: "form_part \<Rightarrow> bytes" where
  "part_content (FormField name val) = val"
| "part_content (FormFile name fileName data) = data"

fun part_names :: "form_part \<Rightarrow> bytes" where
  "part_names (FormField name val) = name"
| "part_names (FormFile name fileName data) = name @ fileName"

definition part_enc :: "form_part \<Rightarrow> bytes" where
  "part_enc p = CRLF @ part_head p @ CRLF @ CRLF @ part_content p"

lemma decode_head_part: "decode_head (part_head p) (part_content p) = Some p"
proof (cases p)
  case (FormField name val)
  have "part_head p = (''Content-Disposition: form-data; name='' @ [DQ]) @ escapeQuotes name @ DQ # []"
    by (simp add: FormField name_param_def)
  then show ?thesis unfolding decode_head_def by (simp only: strip_append unquote_escaped Option.bind.simps) (simp add: FormField)
next
  case (FormFile name fileName data)
  have h: "part_head p = (''Content-Disposition: form-data; name='' @ [DQ]) @ escapeQuotes name @ DQ # ((''; filename='' @ [DQ]) @
      escapeQuotes fileName @ DQ # (CRLF @ ''Content-Type: application/octet-stream''))"
    by (simp add: FormFile name_param_def filename_param_def)
  show ?thesis unfolding decode_head_def h
    by (simp only: strip_append unquote_escaped Option.bind.simps prod.case append_is_Nil_conv list.distinct if_False simp_thms)
      (simp add: FormFile)
qed

lemma first_occ_head:
  assumes "CR \<notin> set (part_names p)"
  shows "first_occ (CRLF @ CRLF) (part_head p @ CRLF @ CRLF @ r) = Some (length (part_head p))"
proof (cases p)
  case (FormField name val)
  have "CR \<notin> set (part_head p)" using assms escapeQuotes_set [of CR name] by (auto simp: FormField name_param_def)
  then show ?thesis using first_occ_skip [of CR "part_head p" "[LF, CR, LF]"] by (simp add: first_occ_hit)
next
  case (FormFile name fileName data)
  define a where "a = ''Content-Disposition: '' @ name_param name @ filename_param fileName"
  define t where "t = ''Content-Type: application/octet-stream''"
  have h: "part_head p = a @ CR # LF # t" by (simp add: FormFile a_def t_def)
  have a: "CR \<notin> set a" "CR \<notin> set t"
    using assms escapeQuotes_set [of CR name] escapeQuotes_set [of CR fileName]
    by (auto simp: FormFile a_def t_def name_param_def filename_param_def)
  have miss: "first_occ [CR, LF, CR, LF] (CR # LF # t @ s) = map_option ((+) 2) (first_occ [CR, LF, CR, LF] (t @ s))" for s
    by (simp add: first_occ_miss t_def option.map_comp comp_def)
  show ?thesis unfolding h
    using first_occ_skip [OF a(1), of "[LF, CR, LF]"] first_occ_skip [OF a(2), of "[LF, CR, LF]"]
    by (simp add: miss first_occ_hit)
qed

lemma decode_part:
  assumes "CR \<notin> set (part_names p)" "CR \<notin> set b" "\<not> sublist (delimiter b) (part_content p)"
  shows "decode_parts b (part_enc p @ delimiter b @ r) = map_option (Cons p) (decode_parts b r)"
proof -
  have d: "delimiter b = CR # LF # ''--'' @ b" by (simp add: delimiter_def)
  have f: "first_occ (delimiter b) (part_content p @ delimiter b @ r) = Some (length (part_content p))"
    unfolding d by (rule first_occ_after) (use assms(2,3) d in auto)
  show ?thesis unfolding decode_parts.simps [of b "part_enc p @ delimiter b @ r"]
    using first_occ_head [OF assms(1), of "part_content p @ delimiter b @ r"] f
    by (simp add: part_enc_def strip_def decode_head_part)
qed

text \<open>The parts that can be told apart with a boundary.\<close>

definition separable :: "bytes \<Rightarrow> form_part \<Rightarrow> bool" where
  "separable b p \<longleftrightarrow> CR \<notin> set (part_names p) \<and> \<not> sublist (delimiter b) (part_content p)"

lemma decode_all:
  assumes "list_all (separable b) (p # ps)" "CR \<notin> set b"
  shows "decode_parts b (part_enc p @ concat (map (\<lambda>q. delimiter b @ part_enc q) ps) @ delimiter b @ ''--'' @ r) = Some (p # ps)"
  using assms(1)
proof (induction ps arbitrary: p)
  case Nil
  have "decode_parts b (''--'' @ r) = Some []" by (simp add: decode_parts.simps)
  then show ?case using Nil decode_part [of p b "''--'' @ r"] assms(2) by (simp add: separable_def)
next
  case (Cons q ps)
  then show ?case using decode_part [of p b] assms(2) by (simp add: separable_def)
qed

definition add_part :: "form_part \<Rightarrow> MultipartBuilder \<Rightarrow> MultipartBuilder" where
  "add_part p mb = mb\<lparr>mb_buf := mb_buf mb @ (if mb_lastpart mb then delimiter (mb_boundary mb) else ''--'' @ mb_boundary mb) @ part_enc p,
     mb_lastpart := True\<rparr>"

lemma Add_part:
  "AddField name val mb = (None, add_part (FormField name val) mb)"
  "AddFileFromBytes name fileName data mb = (None, add_part (FormFile name fileName data) mb)"
  by (simp_all add: AddField_def AddFileFromBytes_def CreateFormFile_def CreatePart_def mb_write_def add_part_def part_enc_def)

lemma add_all_parts:
  "(\<And>x mb. add x mb = (None, add_part (f x) mb)) \<Longrightarrow> add_all add xs mb = (None, fold add_part (map f xs) mb)"
  by (induction xs arbitrary: mb) simp_all

lemma fold_add_part:
  "mb_lastpart mb \<Longrightarrow> fold add_part ps mb = mb\<lparr>mb_buf := mb_buf mb @ concat (map (\<lambda>q. delimiter (mb_boundary mb) @ part_enc q) ps)\<rparr>"
  by (induction ps arbitrary: mb) (simp_all add: add_part_def)

lemma Finish_decodes:
  assumes "list_all (separable b) ps" "CR \<notin> set b"
  shows "\<exists>body. fst (Finish (fold add_part ps (NewMultipartBuilder b))) = (body, FormDataContentType b, None) \<and>
    multipart_decode b body = Some ps"
proof (cases ps)
  case Nil
  have "first_occ (''--'' @ b) (CR # LF # ''--'' @ b @ ''--'' @ CRLF) = Some 2" by (simp add: first_occ_miss first_occ_hit)
  then show ?thesis using decode_parts.simps [of b "''--'' @ CRLF"]
    by (simp add: Nil Finish_def NewMultipartBuilder_def mb_write_def Let_def multipart_decode_def delimiter_def)
next
  case (Cons p qs)
  let ?r = "part_enc p @ concat (map (\<lambda>q. delimiter b @ part_enc q) qs) @ delimiter b @ ''--'' @ CRLF"
  have f: "fst (Finish (fold add_part ps (NewMultipartBuilder b))) = ((''--'' @ b) @ ?r, FormDataContentType b, None)"
    by (simp add: Cons fold_add_part add_part_def Finish_def NewMultipartBuilder_def mb_write_def Let_def)
  have "first_occ (''--'' @ b) ((''--'' @ b) @ ?r) = Some 0" by (simp add: first_occ_hit)
  then have "multipart_decode b ((''--'' @ b) @ ?r) = Some ps"
    using decode_all [of b p qs CRLF] assms unfolding Cons multipart_decode_def by simp
  with f show ?thesis by blast
qed

section \<open>The request\<close>

definition random_boundary :: "bytes \<Rightarrow> bool" where
  "random_boundary b \<longleftrightarrow> length b = 60 \<and> list_all (\<lambda>c. c \<in> set ''0123456789abcdef'') b"

definition form_parts :: "(bytes \<times> bytes) list \<Rightarrow> (bytes \<times> bytes) list \<Rightarrow> form_part list" where
  "form_parts values files = map (\<lambda>(k, v). FormField k v) values @ map (\<lambda>(name, data). FormFile name name data) files"

lemma random_boundary_plain:
  assumes "random_boundary b"
  shows "CR \<notin> set b" "LF \<notin> set b" "FormDataContentType b = ''multipart/form-data; boundary='' @ b"
proof -
  have hex: "\<forall>c \<in> set b. c \<in> set ''0123456789abcdef''" using assms unfolding random_boundary_def list_all_iff by blast
  have "list_all (\<lambda>c. c \<notin> set ''0123456789abcdef'') ([CR, LF] @ ''()<>@,;:/[]?= '' @ [BSL, DQ])" by code_simp
  then have other: "\<forall>c \<in> set ([CR, LF] @ ''()<>@,;:/[]?= '' @ [BSL, DQ]). c \<notin> set b"
    unfolding list_all_iff using hex by blast
  then show "CR \<notin> set b" "LF \<notin> set b" by simp_all
  have "\<not> (\<exists>c \<in> set b. c \<in> set (''()<>@,;:/[]?= '' @ [BSL, DQ]))" using other unfolding set_append by blast
  then show "FormDataContentType b = ''multipart/form-data; boundary='' @ b" unfolding FormDataContentType_def by (simp only: if_False)
qed

lemma build_request:
  assumes "random_boundary b" "list_all (separable b) (form_parts values files)"
  shows "\<exists>req c'. BuildMultipartRequest b c meth url values files = (Inr req, c') \<and> Method req = meth \<and>
    multipart_decode b (req_Body req) = Some (form_parts values files) \<and>
    header_bytes req = ''Content-Type: multipart/form-data; boundary='' @ b @ CRLF"
proof -
  obtain body where f: "fst (Finish (fold add_part (form_parts values files) (NewMultipartBuilder b))) = (body, FormDataContentType b, None)"
    "multipart_decode b body = Some (form_parts values files)"
    using Finish_decodes [OF assms(2) random_boundary_plain(1) [OF assms(1)]] by blast
  obtain r0 c' where a: "acquireRequest c = (r0, c')" by (rule prod.exhaust)
  have r0: "headerLen r0 = 0" using a by (auto simp: acquireRequest_def Request_Reset_def split: list.splits)
  define r1 where "r1 = (if absolute url then r0\<lparr>Method := meth, URL := url\<rparr> else r0\<lparr>Method := meth, Path := url\<rparr>)\<lparr>req_Body := body\<rparr>"
  obtain ok r2 where s: "SetHeader r1 ''Content-Type'' (''multipart/form-data; boundary='' @ b) = (ok, r2)" by (rule prod.exhaust)
  have w: "header_wf r1" "header_bytes r1 = []" by (simp_all add: r1_def r0 header_wf_def header_bytes_def)
  have "length b = 60" using assms(1) by (simp add: random_boundary_def)
  then have ok
    using SetHeader_result(3) [OF s w(1)] random_boundary_plain(1,2) [OF assms(1)] w(2)
    by (simp add: containsCRLF_iff render_header_def maxHeaderSize_def Let_def)
  then have "header_bytes r2 = ''Content-Type: multipart/form-data; boundary='' @ b @ CRLF"
    using SetHeader_result(2) [OF s w(1)] w(2) by (simp add: render_header_def)
  moreover have "Method r2 = Method r1" "req_Body r2 = req_Body r1"
    using s by (auto simp: SetHeader_def write_line_def ensureHeaderBufferSize_def Let_def split: if_splits prod.splits)
  moreover have "BuildMultipartRequest b c meth url values files = (Inr r2, c')"
    using f(1) a s unfolding form_parts_def
    by (cases "absolute url") (simp_all add: BuildMultipartRequest_def add_all_parts [where f = "\<lambda>(k, v). FormField k v"] add_all_parts [where f = "\<lambda>(n, d). FormFile n n d"]
        Add_part split_beta random_boundary_plain(3) [OF assms(1)] Let_def r1_def)
  ultimately show ?thesis using f(2) by (auto simp: r1_def)
qed

text \<open>
  C27. A multipart request carries its form: a decoder of the format, given the boundary that the request's Content-Type
  field names, reads back from the body the fields and then the files, with their names, quotes and
  backslashes included, and their contents, whenever no contents contain the delimiter and no name a
  carriage return.
\<close>

theorem multipart_roundtrip:
  assumes "random_boundary b" "list_all (separable b) (form_parts values files)"
  shows "\<exists>req c'. BuildMultipartRequest b c meth url values files = (Inr req, c') \<and> Method req = meth \<and>
    multipart_decode b (req_Body req) = Some (form_parts values files) \<and>
    header_bytes req = ''Content-Type: multipart/form-data; boundary='' @ b @ CRLF"
  using assms by (rule build_request)

theorem multipart_roundtrip_witness:
  "\<exists>req c'. BuildMultipartRequest (replicate 60 (CHR ''7'')) demo_client ''POST'' ''/upload'' [([DQ] @ ''k'', ''v'')] [(''f'', CRLF @ ''data'')] = (Inr req, c') \<and>
    multipart_decode (replicate 60 (CHR ''7'')) (req_Body req) = Some [FormField ([DQ] @ ''k'') ''v'', FormFile ''f'' ''f'' (CRLF @ ''data'')]"
proof -
  have "\<not> sublist (delimiter (replicate 60 (CHR ''7''))) s" if "length s < 60" for s
    using that by (auto dest: sublist_length_le simp: delimiter_def)
  then have "list_all (separable (replicate 60 (CHR ''7''))) (form_parts [([DQ] @ ''k'', ''v'')] [(''f'', CRLF @ ''data'')])"
    by (simp add: form_parts_def separable_def)
  moreover have "random_boundary (replicate 60 (CHR ''7''))" by (simp add: random_boundary_def list_all_iff)
  ultimately show ?thesis
    using multipart_roundtrip [of "replicate 60 (CHR ''7'')" "[([DQ] @ ''k'', ''v'')]" "[(''f'', CRLF @ ''data'')]" demo_client "''POST''" "''/upload''"]
    by (auto simp: form_parts_def)
qed

end
